(* ===== verification/Prelude.thy ===== *)
theory Prelude
  imports Main "HOL-Library.AList" "HOL-Library.Sublist"
begin

text \<open>
  What every component of the model shares: effectful Go functions as state
  transformers with an error result, the early-return loops of Go, a small Hoare
  logic for them, and Go string maps as association lists.

  A Go method that returns \<^verbatim>\<open>(T, error)\<close> and touches a database, a cache or a broker
  is a \<^emph>\<open>program\<close>: it takes the state of everything it can touch and returns either an
  error (\<open>Inl\<close>) or its value (\<open>Inr\<close>), with the state it leaves behind. The state is
  returned with an error too, since an error does not undo what happened before it.
\<close>

named_theorems hoare_rules \<open>one rule per construct of a program, for the logic below\<close>
named_theorems program_simps \<open>how programs run on a given state\<close>

subsection \<open>Programs\<close>

type_synonym ('s, 'e, 'a) program = "'s \<Rightarrow> ('e + 'a) \<times> 's"

definition ret :: "'a \<Rightarrow> ('s, 'e, 'a) program" where
  "ret a s = (Inr a, s)"

definition fail_with :: "'e \<Rightarrow> ('s, 'e, 'a) program" where
  "fail_with e s = (Inl e, s)"

text \<open>\<open>and_then m k\<close> is Go's \<^verbatim>\<open>x, err := m(); if err != nil { return err }; k(x)\<close>.\<close>

definition and_then ::
  "('s, 'e, 'a) program \<Rightarrow> ('a \<Rightarrow> ('s, 'e, 'b) program) \<Rightarrow> ('s, 'e, 'b) program" where
  "and_then m k s = (case m s of (Inl e, t) \<Rightarrow> (Inl e, t) | (Inr a, t) \<Rightarrow> k a t)"

text \<open>A \<^verbatim>\<open>for _, x := range xs\<close> whose body may return an error from the whole function.\<close>

fun each :: "('a \<Rightarrow> ('s, 'e, unit) program) \<Rightarrow> 'a list \<Rightarrow> ('s, 'e, unit) program" where
  "each f [] = ret ()"
| "each f (x # xs) = and_then (f x) (\<lambda>_. each f xs)"

text \<open>The same loop when it computes an accumulator and reads no state.\<close>

fun fold_or_fail :: "('a \<Rightarrow> 'b \<Rightarrow> 'e + 'b) \<Rightarrow> 'a list \<Rightarrow> 'b \<Rightarrow> 'e + 'b" where
  "fold_or_fail f [] acc = Inr acc"
| "fold_or_fail f (x # xs) acc =
     (case f x acc of Inl e \<Rightarrow> Inl e | Inr acc' \<Rightarrow> fold_or_fail f xs acc')"

definition succeeded :: "('e + 'a) \<times> 's \<Rightarrow> bool" where
  "succeeded r = (case fst r of Inl _ \<Rightarrow> False | Inr _ \<Rightarrow> True)"

lemma ret_run [program_simps, simp]: "ret a s = (Inr a, s)"
  by (simp add: ret_def)

lemma fail_with_run [program_simps, simp]: "fail_with e s = (Inl e, s)"
  by (simp add: fail_with_def)

lemma and_then_Inl [program_simps]: "m s = (Inl e, t) \<Longrightarrow> and_then m k s = (Inl e, t)"
  by (simp add: and_then_def)

lemma and_then_Inr [program_simps]: "m s = (Inr a, t) \<Longrightarrow> and_then m k s = k a t"
  by (simp add: and_then_def)

lemma and_then_ret [simp]: "and_then (ret a) k = k a"
  by (rule ext) (simp add: and_then_def)

lemma and_then_fail_with [simp]: "and_then (fail_with e) k = fail_with e"
  by (rule ext) (simp add: and_then_def)

lemma and_then_assoc: "and_then (and_then m k) h = and_then m (\<lambda>a. and_then (k a) h)"
  by (rule ext) (simp add: and_then_def split: sum.splits prod.splits)

lemma succeeded_simps [simp]:
  "succeeded (Inr a, s)" "\<not> succeeded (Inl e, s)"
  by (simp_all add: succeeded_def)

lemma fold_or_fail_append:
  "fold_or_fail f (xs @ ys) acc =
     (case fold_or_fail f xs acc of Inl e \<Rightarrow> Inl e | Inr acc' \<Rightarrow> fold_or_fail f ys acc')"
  by (induction xs arbitrary: acc) (simp_all split: sum.split)

text \<open>Nested loops with one accumulator are one loop over all the inner elements.\<close>

lemma fold_or_fail_nested:
  "fold_or_fail (\<lambda>x. fold_or_fail f (g x)) xs acc = fold_or_fail f (concat (map g xs)) acc"
  by (induction xs arbitrary: acc) (simp_all add: fold_or_fail_append split: sum.split)

lemma fold_or_fail_map: "fold_or_fail f (map h xs) acc = fold_or_fail (\<lambda>x. f (h x)) xs acc"
  by (induction xs arbitrary: acc) (simp_all split: sum.split)

text \<open>An invariant of the accumulator carries through the loop.\<close>

lemma fold_or_fail_invariant:
  assumes "fold_or_fail f xs acc = Inr r" and "P acc"
    and "\<And>x a a'. x \<in> set xs \<Longrightarrow> P a \<Longrightarrow> f x a = Inr a' \<Longrightarrow> P a'"
  shows "P r"
  using assms
proof (induction xs arbitrary: acc)
  case (Cons x xs)
  then obtain a where a: "f x acc = Inr a" and rest: "fold_or_fail f xs a = Inr r"
    by (auto split: sum.splits)
  have "P a" using Cons.prems(2,3) a by auto
  with rest show ?case by (rule Cons.IH) (auto intro: Cons.prems(3))
qed simp

subsection \<open>A Hoare logic for programs\<close>

text \<open>
  \<open>hoare P m Q E\<close>: from a state with \<open>P\<close>, a run of \<open>m\<close> that returns a value ends with
  \<open>Q\<close> of the value and the state, and one that returns an error ends with \<open>E\<close>.
\<close>

definition hoare ::
  "('s \<Rightarrow> bool) \<Rightarrow> ('s, 'e, 'a) program \<Rightarrow> ('a \<Rightarrow> 's \<Rightarrow> bool) \<Rightarrow> ('e \<Rightarrow> 's \<Rightarrow> bool) \<Rightarrow> bool" where
  "hoare P m Q E = (\<forall>s. P s \<longrightarrow> (case m s of (Inl e, t) \<Rightarrow> E e t | (Inr a, t) \<Rightarrow> Q a t))"

abbreviation keeps :: "('s \<Rightarrow> bool) \<Rightarrow> ('s, 'e, 'a) program \<Rightarrow> bool" where
  "keeps I m \<equiv> hoare I m (\<lambda>_. I) (\<lambda>_. I)"

lemma hoareI:
  assumes "\<And>s e t. P s \<Longrightarrow> m s = (Inl e, t) \<Longrightarrow> E e t"
    and "\<And>s a t. P s \<Longrightarrow> m s = (Inr a, t) \<Longrightarrow> Q a t"
  shows "hoare P m Q E"
  using assms by (auto simp: hoare_def split: sum.split prod.split)

lemma hoare_InrD: "hoare P m Q E \<Longrightarrow> P s \<Longrightarrow> m s = (Inr a, t) \<Longrightarrow> Q a t"
  by (auto simp: hoare_def)

lemma hoare_InlD: "hoare P m Q E \<Longrightarrow> P s \<Longrightarrow> m s = (Inl e, t) \<Longrightarrow> E e t"
  by (auto simp: hoare_def)

lemma keepsD: "keeps I m \<Longrightarrow> I s \<Longrightarrow> I (snd (m s))"
  by (cases "m s"; cases "fst (m s)") (auto simp: hoare_def)

lemma keepsI: "(\<And>s r t. I s \<Longrightarrow> m s = (r, t) \<Longrightarrow> I t) \<Longrightarrow> keeps I m"
  by (rule hoareI) blast+

lemma hoare_conseq:
  assumes "hoare P m Q E" and "\<And>s. P' s \<Longrightarrow> P s"
    and "\<And>a s. Q a s \<Longrightarrow> Q' a s" and "\<And>e s. E e s \<Longrightarrow> E' e s"
  shows "hoare P' m Q' E'"
  using assms by (fastforce simp: hoare_def split: sum.splits prod.splits)

lemma hoare_ret [hoare_rules]: "(\<And>s. P s \<Longrightarrow> Q a s) \<Longrightarrow> hoare P (ret a) Q E"
  by (simp add: hoare_def)

lemma hoare_fail_with [hoare_rules]: "(\<And>s. P s \<Longrightarrow> E e s) \<Longrightarrow> hoare P (fail_with e) Q E"
  by (simp add: hoare_def)

lemma hoare_and_then [hoare_rules]:
  assumes "hoare P m R E" and "\<And>a. hoare (R a) (k a) Q E"
  shows "hoare P (and_then m k) Q E"
  using assms by (fastforce simp: hoare_def and_then_def split: sum.splits prod.splits)

lemma hoare_if [hoare_rules]:
  assumes "b \<Longrightarrow> hoare P m Q E" and "\<not> b \<Longrightarrow> hoare P n Q E"
  shows "hoare P (if b then m else n) Q E"
  using assms by simp

lemma hoare_case_option [hoare_rules]:
  assumes "x = None \<Longrightarrow> hoare P m Q E" and "\<And>a. x = Some a \<Longrightarrow> hoare P (n a) Q E"
  shows "hoare P (case x of None \<Rightarrow> m | Some a \<Rightarrow> n a) Q E"
  using assms by (simp split: option.split)

lemma hoare_each [hoare_rules]:
  assumes "\<And>x. x \<in> set xs \<Longrightarrow> hoare I (f x) (\<lambda>_. I) E"
  shows "hoare I (each f xs) (\<lambda>_. I) E"
  using assms by (induction xs) (auto intro!: hoare_rules)

subsection \<open>Go maps with string keys\<close>

text \<open>
  A Go \<^verbatim>\<open>map[string]string\<close> is an association list with distinct keys. Go leaves the
  iteration order of a map open; here it is the order of the list, so a statement about
  every list with the same \<^const>\<open>map_of\<close> is a statement about every iteration order.
\<close>

type_synonym attrs = "(string \<times> string) list"

definition keys_of :: "('k \<times> 'v) list \<Rightarrow> 'k list" where
  "keys_of m = map fst m"

definition go_map :: "('k \<times> 'v) list \<Rightarrow> bool" where
  "go_map m = distinct (keys_of m)"

text \<open>\<^verbatim>\<open>for key, value := range new { base[key] = value }\<close>.\<close>

fun put_all :: "('k \<times> 'v) list \<Rightarrow> ('k \<times> 'v) list \<Rightarrow> ('k \<times> 'v) list" where
  "put_all [] base = base"
| "put_all ((k, v) # new) base = put_all new (AList.update k v base)"

text \<open>Reading a missing key of a Go map gives the zero value.\<close>

definition get_or :: "'v \<Rightarrow> ('k \<times> 'v) list \<Rightarrow> 'k \<Rightarrow> 'v" where
  "get_or z m k = (case map_of m k of None \<Rightarrow> z | Some v \<Rightarrow> v)"

lemma go_map_Nil [simp]: "go_map []"
  by (simp add: go_map_def keys_of_def)

lemma go_map_Cons [simp]: "go_map ((k, v) # m) \<longleftrightarrow> k \<notin> fst ` set m \<and> go_map m"
  by (auto simp: go_map_def keys_of_def)

lemma go_map_update [simp]: "go_map m \<Longrightarrow> go_map (AList.update k v m)"
  by (simp add: go_map_def keys_of_def distinct_update)

lemma go_map_put_all [simp]: "go_map base \<Longrightarrow> go_map (put_all new base)"
  by (induction new base rule: put_all.induct) simp_all

lemma map_of_put_all: "map_of (put_all new base) = map_of base ++ map_of (rev new)"
  by (induction new base rule: put_all.induct)
     (auto simp: update_conv' map_add_def fun_eq_iff split: option.split)

lemma map_of_rev_distinct: "distinct (map fst m) \<Longrightarrow> map_of (rev m) = map_of m"
  by (rule map_of_eqI) (auto simp: rev_map [symmetric] intro!: map_of_eq_Some_iff [THEN iffD2])

lemma map_of_put_all_distinct:
  "go_map new \<Longrightarrow> map_of (put_all new base) = map_of base ++ map_of new"
  by (simp add: map_of_put_all go_map_def keys_of_def map_of_rev_distinct)

lemma map_of_keys_of: "map_of m k = Some v \<Longrightarrow> k \<in> set (keys_of m)"
  by (force simp: keys_of_def dest: map_of_SomeD)

lemma keys_delete: "fst ` set (AList.delete k m) = fst ` set m - {k}"
  by (induction m) auto

lemma go_map_delete [simp]: "go_map m \<Longrightarrow> go_map (AList.delete k m)"
  by (simp add: go_map_def keys_of_def distinct_delete)

lemma length_delete_less: "k \<in> fst ` set m \<Longrightarrow> length (AList.delete k m) < length m"
proof (induction m)
  case (Cons x m)
  then show ?case using length_delete_le [of k m] by (cases x) auto
qed simp

lemma length_update:
  "length (AList.update k v m) = (if k \<in> fst ` set m then length m else Suc (length m))"
  by (induction m) auto

lemma update_new_set: "(k', v') \<in> set (AList.update k v m) \<Longrightarrow> (k', v') = (k, v) \<or> (k', v') \<in> set m"
  by (induction m) (auto split: if_splits)

lemma delete_set: "x \<in> set (AList.delete k m) \<Longrightarrow> x \<in> set m"
  by (induction m) (auto split: if_splits)

subsection \<open>Errors\<close>

text \<open>
  The error values of the program: the sentinels it compares with, the errors it builds
  itself, \<^verbatim>\<open>fmt.Errorf("stage: %w", err)\<close>, and the one opaque error a driver, a broker or a
  server gives back. \<open>NilPointer\<close> is not an error value of Go but the run-time panic of a call
  through a nil interface, and \<open>Panicked\<close> any other panic.
\<close>

datatype go_error =
    ErrInvalidOTLP
  | ErrTailBufferFull
  | ErrTailTraceClosed
  | Errorf string
  | Wrapped string go_error
  | Unavailable
  | Constraint string
  | NilPointer
  | Panicked string

text \<open>\<^verbatim>\<open>errors.Is\<close> follows the wrapping.\<close>

fun errors_is :: "go_error \<Rightarrow> go_error \<Rightarrow> bool" where
  "errors_is (Wrapped msg e) target = (Wrapped msg e = target \<or> errors_is e target)"
| "errors_is e target = (e = target)"

text \<open>\<^verbatim>\<open>if err := m(); err != nil { return fmt.Errorf("...: %w", err) }\<close>.\<close>

definition wrapped :: "string \<Rightarrow> ('s, go_error, 'a) program \<Rightarrow> ('s, go_error, 'a) program" where
  "wrapped msg m s = (case m s of (Inl err, t) \<Rightarrow> (Inl (Wrapped msg err), t) | (Inr a, t) \<Rightarrow> (Inr a, t))"

lemma wrapped_Inr [simp]: "wrapped msg m s = (Inr a, t) \<longleftrightarrow> m s = (Inr a, t)"
  by (auto simp: wrapped_def split: prod.splits sum.splits)

lemma wrapped_cases:
  assumes "wrapped msg m s = (r, t)"
  obtains q where "m s = (q, t)" "\<And>a. r = Inr a \<longleftrightarrow> q = Inr a"
  using assms by (cases "m s"; cases "fst (m s)") (auto simp: wrapped_def)

lemma hoare_wrapped [hoare_rules]: "hoare P m Q (\<lambda>err. E (Wrapped msg err)) \<Longrightarrow> hoare P (wrapped msg m) Q E"
  by (auto simp: hoare_def wrapped_def split: prod.splits sum.splits)

end
