(* ===== verification/GoText.thy ===== *)
theory GoText
  imports Prelude "HOL-Library.Word" "HOL-Library.Char_ord"
begin

unbundle bit_operations_syntax

text \<open>
  Go strings and the parts of \<^verbatim>\<open>strings\<close>, \<^verbatim>\<open>strconv\<close> and \<^verbatim>\<open>encoding/hex\<close> the program
  calls. A Go string is a sequence of bytes, so it is a \<^typ>\<open>string\<close> whose characters are
  the bytes, and \<^const>\<open>length\<close> is Go's \<^verbatim>\<open>len\<close>. Text outside ASCII is UTF-8.

  The two functions of the source itself are \<^verbatim>\<open>fmtHex\<close>, which \<^verbatim>\<open>internal/ingest/otlp.go\<close>
  and \<^verbatim>\<open>internal/telemetry/consumer.go\<close> both define, and \<^verbatim>\<open>splitStatements\<close> and
  \<^verbatim>\<open>splitNonEmpty\<close> build on the splitting and trimming here.
\<close>

subsection \<open>Bytes\<close>

definition byte_of :: "char \<Rightarrow> nat" where
  "byte_of c = of_char c"

definition in_range :: "nat \<Rightarrow> nat \<Rightarrow> char \<Rightarrow> bool" where
  "in_range lo hi c = (lo \<le> byte_of c \<and> byte_of c \<le> hi)"

definition is_upper :: "char \<Rightarrow> bool" where "is_upper = in_range 65 90"
definition is_lower :: "char \<Rightarrow> bool" where "is_lower = in_range 97 122"
definition is_digit :: "char \<Rightarrow> bool" where "is_digit = in_range 48 57"

definition is_letter :: "char \<Rightarrow> bool" where
  "is_letter c = (is_upper c \<or> is_lower c)"

lemma byte_of_less [simp]: "byte_of c < 256"
  by (simp add: byte_of_def)

lemma byte_of_char_of [simp]: "n < 256 \<Longrightarrow> byte_of (char_of n) = n"
  by (simp add: byte_of_def of_char_of)

lemma byte_of_inject [simp]: "byte_of c = byte_of d \<longleftrightarrow> c = d"
  by (simp add: byte_of_def)

lemmas byte_class_defs = in_range_def is_upper_def is_lower_def is_digit_def is_letter_def

subsection \<open>\<^verbatim>\<open>strings.Contains\<close>, \<^verbatim>\<open>HasPrefix\<close>, \<^verbatim>\<open>ReplaceAll\<close> of one byte\<close>

fun contains :: "string \<Rightarrow> string \<Rightarrow> bool" where
  "contains [] sub = (sub = [])"
| "contains (c # s) sub = (prefix sub (c # s) \<or> contains s sub)"

definition has_prefix :: "string \<Rightarrow> string \<Rightarrow> bool" where
  "has_prefix s p = prefix p s"

definition trim_prefix :: "string \<Rightarrow> string \<Rightarrow> string" where
  "trim_prefix s p = (if prefix p s then drop (length p) s else s)"

definition replace_byte :: "char \<Rightarrow> char \<Rightarrow> string \<Rightarrow> string" where
  "replace_byte old new s = map (\<lambda>c. if c = old then new else c) s"

lemma contains_iff: "contains s sub \<longleftrightarrow> (\<exists>u v. s = u @ sub @ v)"
proof (induction s sub rule: contains.induct)
  case (1 sub)
  then show ?case by auto
next
  case (2 c s sub)
  show ?case
  proof
    assume "contains (c # s) sub"
    then consider (here) "prefix sub (c # s)" | (later) "contains s sub" by auto
    then show "\<exists>u v. c # s = u @ sub @ v"
    proof cases
      case here
      then show ?thesis by (metis append_Nil prefix_def)
    next
      case later
      then show ?thesis using 2 by (metis append_Cons)
    qed
  next
    assume "\<exists>u v. c # s = u @ sub @ v"
    then obtain u v where uv: "c # s = u @ sub @ v" by blast
    show "contains (c # s) sub"
    proof (cases u)
      case Nil
      with uv have "prefix sub (c # s)" by (auto simp: prefix_def)
      then show ?thesis by simp
    next
      case (Cons d u')
      with uv 2 show ?thesis by auto
    qed
  qed
qed

lemma contains_append: "contains t sub \<Longrightarrow> contains (u @ t @ v) sub"
  by (auto simp: contains_iff) (metis append.assoc)

subsection \<open>\<^verbatim>\<open>strings.ToLower\<close>\<close>

text \<open>
  On ASCII \<^verbatim>\<open>ToLower\<close> maps \<^verbatim>\<open>A\<close>-\<^verbatim>\<open>Z\<close>. Exactly two runes outside ASCII have a lower case
  inside it: the Kelvin sign U+212A (bytes E2 84 AA) becomes \<^verbatim>\<open>k\<close> and the dotted capital
  I U+0130 (bytes C4 B0) becomes \<^verbatim>\<open>i\<close>. Their first bytes are never continuation bytes, so
  wherever the byte sequence occurs it is that rune. Every other byte from 128 on belongs to
  a rune whose lower case is outside ASCII; the model keeps such bytes, and only searches
  for ASCII text in the result.
\<close>

definition kelvin :: string where "kelvin = [CHR 0xE2, CHR 0x84, CHR 0xAA]"
definition dotted_I :: string where "dotted_I = [CHR 0xC4, CHR 0xB0]"

definition lower_byte :: "char \<Rightarrow> char" where
  "lower_byte c = (if is_upper c then char_of (byte_of c + 32) else c)"

fun to_lower :: "string \<Rightarrow> string" where
  "to_lower [] = []"
| "to_lower (c # s) =
     (if prefix kelvin (c # s) then CHR ''k'' # to_lower (drop 2 s)
      else if prefix dotted_I (c # s) then CHR ''i'' # to_lower (drop 1 s)
      else lower_byte c # to_lower s)"

definition ascii :: "string \<Rightarrow> bool" where
  "ascii s = list_all (\<lambda>c. byte_of c < 128) s"

lemma ascii_simps [simp]:
  "ascii []" "ascii (c # s) \<longleftrightarrow> byte_of c < 128 \<and> ascii s" "ascii (s @ t) \<longleftrightarrow> ascii s \<and> ascii t"
  by (simp_all add: ascii_def)

lemma not_prefix_kelvin [simp]: "byte_of c < 128 \<Longrightarrow> \<not> prefix kelvin (c # s)"
  by (auto simp: kelvin_def byte_of_def)

lemma not_prefix_dotted_I [simp]: "byte_of c < 128 \<Longrightarrow> \<not> prefix dotted_I (c # s)"
  by (auto simp: dotted_I_def byte_of_def)

lemma to_lower_ascii: "ascii s \<Longrightarrow> to_lower s = map lower_byte s"
  by (induction s) simp_all

subsection \<open>\<^verbatim>\<open>strings.Split\<close> at one byte, \<^verbatim>\<open>strings.TrimSpace\<close>, \<^verbatim>\<open>strings.TrimRight\<close>\<close>

fun split_on :: "char \<Rightarrow> string \<Rightarrow> string list" where
  "split_on sep [] = [[]]"
| "split_on sep (c # s) =
     (if c = sep then [] # split_on sep s
      else (c # hd (split_on sep s)) # tl (split_on sep s))"

fun join_with :: "string \<Rightarrow> string list \<Rightarrow> string" where
  "join_with sep [] = []"
| "join_with sep [p] = p"
| "join_with sep (p # ps) = p @ sep @ join_with sep ps"

lemma split_on_nonempty [simp]: "split_on sep s \<noteq> []"
  by (induction s) auto

lemma join_split: "join_with [sep] (split_on sep s) = s"
proof (induction s)
  case (Cons c s)
  obtain p ps where ps: "split_on sep s = p # ps"
    by (cases "split_on sep s") auto
  with Cons show ?case by (cases ps) auto
qed simp

lemma split_on_no_sep: "p \<in> set (split_on sep s) \<Longrightarrow> sep \<notin> set p"
proof (induction s arbitrary: p)
  case (Cons c s)
  obtain q qs where "split_on sep s = q # qs"
    by (cases "split_on sep s") auto
  with Cons show ?case by (auto split: if_splits)
qed simp

lemma split_on_no_sep_id: "sep \<notin> set s \<Longrightarrow> split_on sep s = [s]"
  by (induction s) auto

lemma split_on_append:
  "sep \<notin> set p \<Longrightarrow> split_on sep (p @ sep # s) = p # split_on sep s"
  by (induction p) auto

text \<open>The white space of \<^verbatim>\<open>unicode.IsSpace\<close>, as UTF-8.\<close>

definition spaces :: "string list" where
  "spaces = map (map char_of)
     ([[9], [10], [11], [12], [13], [32], [0xC2, 0x85], [0xC2, 0xA0], [0xE1, 0x9A, 0x80],
       [0xE2, 0x80, 0xA8], [0xE2, 0x80, 0xA9], [0xE2, 0x80, 0xAF], [0xE2, 0x81, 0x9F],
       [0xE3, 0x80, 0x80]] @ map (\<lambda>n. [0xE2, 0x80, n]) [0x80 ..< 0x8B] :: nat list list)"

definition leading_space :: "string list \<Rightarrow> string \<Rightarrow> nat" where
  "leading_space ws s = (case find (\<lambda>w. prefix w s) ws of None \<Rightarrow> 0 | Some w \<Rightarrow> length w)"

function trim_left :: "string list \<Rightarrow> string \<Rightarrow> string" where
  "trim_left ws s =
     (if leading_space ws s = 0 then s else trim_left ws (drop (leading_space ws s) s))"
  by pat_completeness auto
termination
proof (relation "measure (\<lambda>(ws, s). length s)")
  fix ws :: "string list" and s :: string
  assume "leading_space ws s \<noteq> 0"
  then have "s \<noteq> []"
    by (auto simp: leading_space_def find_Some_iff split: option.splits)
  with \<open>leading_space ws s \<noteq> 0\<close>
  show "((ws, drop (leading_space ws s) s), (ws, s)) \<in> measure (\<lambda>(ws, s). length s)"
    by (simp add: diff_less)
qed simp

declare trim_left.simps [simp del]

definition trim_space :: "string \<Rightarrow> string" where
  "trim_space s = rev (trim_left (map rev spaces) (rev (trim_left spaces s)))"

definition trim_right_byte :: "char \<Rightarrow> string \<Rightarrow> string" where
  "trim_right_byte c s = rev (dropWhile (\<lambda>d. d = c) (rev s))"

subsection \<open>\<^verbatim>\<open>strconv.Itoa\<close>, \<^verbatim>\<open>FormatInt\<close>, \<^verbatim>\<open>FormatUint\<close> and \<^verbatim>\<open>Atoi\<close>\<close>

definition digit_char :: "nat \<Rightarrow> char" where
  "digit_char d = char_of (48 + d)"

fun format_nat :: "nat \<Rightarrow> string" where
  "format_nat n =
     (if n < 10 then [digit_char n] else format_nat (n div 10) @ [digit_char (n mod 10)])"

declare format_nat.simps [simp del]

definition format_int :: "int \<Rightarrow> string" where
  "format_int i = (if i < 0 then CHR ''-'' # format_nat (nat (- i)) else format_nat (nat i))"

definition digits_value :: "string \<Rightarrow> nat" where
  "digits_value s = foldl (\<lambda>n c. n * 10 + (byte_of c - 48)) 0 s"

lemma digits_value_format_nat [simp]: "digits_value (format_nat n) = n"
proof (induction n rule: format_nat.induct)
  case (1 n)
  show ?case
  proof (cases "n < 10")
    case True
    then show ?thesis
      by (simp add: format_nat.simps [of n] digits_value_def digit_char_def)
  next
    case False
    with 1 show ?thesis
      by (simp add: format_nat.simps [of n] digits_value_def digit_char_def)
  qed
qed

lemma format_nat_inject [simp]: "format_nat m = format_nat n \<longleftrightarrow> m = n"
  by (metis digits_value_format_nat)

lemma format_nat_digits: "c \<in> set (format_nat n) \<Longrightarrow> is_digit c"
proof (induction n rule: format_nat.induct)
  case (1 n)
  then show ?case
    by (cases "n < 10")
       (auto simp: format_nat.simps [of n] digit_char_def byte_class_defs)
qed

text \<open>
  \<^verbatim>\<open>Atoi\<close> returns a value beside its error, and the program reads the value and drops the
  error. Out of range it is the nearest 64-bit integer; the scan stops at the digit that
  overflows, so what follows that digit is not looked at.
\<close>

datatype num_error = ErrSyntax | ErrRange

definition max_uint64 :: int where "max_uint64 = 18446744073709551615"

fun parse_uint :: "string \<Rightarrow> int \<Rightarrow> num_error + int" where
  "parse_uint [] n = Inr n"
| "parse_uint (c # s) n =
     (if \<not> is_digit c then Inl ErrSyntax
      else if max_uint64 div 10 + 1 \<le> n then Inl ErrRange
      else if max_uint64 < n * 10 + (int (byte_of c) - 48) then Inl ErrRange
      else parse_uint s (n * 10 + (int (byte_of c) - 48)))"

definition atoi :: "string \<Rightarrow> int \<times> num_error option" where
  "atoi s =
     (let neg = (case s of c # _ \<Rightarrow> c = CHR ''-'' | [] \<Rightarrow> False);
          digits = (case s of c # t \<Rightarrow> if c = CHR ''-'' \<or> c = CHR ''+'' then t else s | [] \<Rightarrow> [])
      in if digits = [] then (0, Some ErrSyntax)
         else case parse_uint digits 0 of
           Inl ErrSyntax \<Rightarrow> (0, Some ErrSyntax)
         | Inl ErrRange \<Rightarrow> (if neg then - (2 ^ 63) else 2 ^ 63 - 1, Some ErrRange)
         | Inr n \<Rightarrow>
             if \<not> neg \<and> 2 ^ 63 \<le> n then (2 ^ 63 - 1, Some ErrRange)
             else if neg \<and> 2 ^ 63 < n then (- (2 ^ 63), Some ErrRange)
             else (if neg then - n else n, None))"

lemma parse_uint_nonneg: "parse_uint s n = Inr m \<Longrightarrow> 0 \<le> n \<Longrightarrow> 0 \<le> m"
proof (induction s n rule: parse_uint.induct)
  case (2 c s n)
  then show ?case by (auto simp: is_digit_def in_range_def split: if_splits)
qed simp

lemma atoi_in_int64: "- (2 ^ 63) \<le> fst (atoi s) \<and> fst (atoi s) < 2 ^ 63"
  by (auto simp: atoi_def Let_def dest: parse_uint_nonneg split: sum.splits num_error.splits)

subsection \<open>Bytes as words, and hexadecimal text\<close>

type_synonym bytes = "8 word list"

definition bytes_of :: "string \<Rightarrow> bytes" where
  "bytes_of s = map of_char s"

definition hex_alphabet :: string where
  "hex_alphabet = ''0123456789abcdef''"

text \<open>\<^verbatim>\<open>hex.EncodeToString\<close> of the standard library: two digits per byte, high one first.\<close>

definition hex_encode :: "bytes \<Rightarrow> string" where
  "hex_encode bs = concat (map (\<lambda>b. [hex_alphabet ! (unat b div 16), hex_alphabet ! (unat b mod 16)]) bs)"

text \<open>The source's own loop, which fills a preallocated result by index.\<close>

definition fmtHex :: "bytes \<Rightarrow> string" where
  "fmtHex val =
     fold (\<lambda>index result.
         let byteValue = val ! index
         in (result[index * 2 := hex_alphabet ! unat (drop_bit 4 byteValue)])
              [index * 2 + 1 := hex_alphabet ! unat (byteValue AND 0x0f)])
       [0..<length val] (replicate (length val * 2) (CHR 0x00))"

lemma high_nibble: "unat (drop_bit 4 (b :: 8 word)) = unat b div 16"
  by (simp add: drop_bit_eq_div unat_div)

lemma low_nibble: "unat ((b :: 8 word) AND 0x0f) = unat b mod 16"
proof -
  have "b AND 0x0f = take_bit 4 b"
    by (simp add: take_bit_eq_mask mask_eq_exp_minus_1)
  then show ?thesis
    by (simp add: take_bit_eq_mod unat_mod)
qed

lemma length_hex_encode [simp]: "length (hex_encode bs) = 2 * length bs"
  by (induction bs) (simp_all add: hex_encode_def)

lemma hex_encode_simps [simp]:
  "hex_encode [] = []"
  "hex_encode (b # bs) = hex_alphabet ! (unat b div 16) # hex_alphabet ! (unat b mod 16) # hex_encode bs"
  by (simp_all add: hex_encode_def)

lemma hex_encode_append: "hex_encode (xs @ ys) = hex_encode xs @ hex_encode ys"
  by (simp add: hex_encode_def)

lemma fmtHex_step:
  assumes "n < length bs"
  shows "(let byteValue = bs ! n
         in ((hex_encode (take n bs) @ replicate ((length bs - n) * 2) z)
              [n * 2 := hex_alphabet ! unat (drop_bit 4 byteValue)])
              [n * 2 + 1 := hex_alphabet ! unat (byteValue AND 0x0f)])
       = hex_encode (take (Suc n) bs) @ replicate ((length bs - Suc n) * 2) z"
proof -
  have "(length bs - n) * 2 = Suc (Suc ((length bs - Suc n) * 2))"
    using assms by simp
  moreover have "length (hex_encode (take n bs)) = n * 2"
    using assms by simp
  ultimately show ?thesis
    using assms
    by (simp add: list_update_append take_Suc_conv_app_nth hex_encode_append
        high_nibble low_nibble Let_def)
qed

lemma fmtHex_loop:
  assumes "n \<le> length bs"
  shows "fold (\<lambda>index result.
         let byteValue = bs ! index
         in (result[index * 2 := hex_alphabet ! unat (drop_bit 4 byteValue)])
              [index * 2 + 1 := hex_alphabet ! unat (byteValue AND 0x0f)])
       [0..<n] (replicate (length bs * 2) z)
       = hex_encode (take n bs) @ replicate ((length bs - n) * 2) z"
  using assms
proof (induction n)
  case (Suc n)
  then show ?case using fmtHex_step [of n bs z] by simp
qed simp

lemma fmtHex_hex_encode: "fmtHex bs = hex_encode bs"
  using fmtHex_loop [of "length bs" bs "CHR 0x00"] by (simp add: fmtHex_def)

lemma hex_alphabet_less_16: "n < 16 \<Longrightarrow> hex_alphabet ! n \<in> set hex_alphabet"
  by (rule nth_mem) (simp add: hex_alphabet_def)

lemma hex_alphabet_inject:
  "m < 16 \<Longrightarrow> n < 16 \<Longrightarrow> hex_alphabet ! m = hex_alphabet ! n \<longleftrightarrow> m = n"
  by (rule nth_eq_iff_index_eq) (simp_all add: hex_alphabet_def)

lemma unat_byte_less [simp]: "unat (b :: 8 word) div 16 < 16"
proof -
  have "unat b < 2 ^ LENGTH(8)" by (rule unsigned_less)
  then show ?thesis by simp
qed

lemma hex_encode_inject [simp]: "hex_encode xs = hex_encode ys \<longleftrightarrow> xs = ys"
proof (induction xs arbitrary: ys)
  case Nil
  then show ?case by (cases ys) simp_all
next
  case (Cons x xs)
  note IH = Cons.IH
  show ?case
  proof (cases ys)
    case (Cons y ys')
    have "x = y" if "unat x div 16 = unat y div 16" "unat x mod 16 = unat y mod 16"
      using that by (metis div_mult_mod_eq word_unat_eq_iff)
    then show ?thesis
      using IH [of ys'] Cons by (auto simp: hex_alphabet_inject)
  qed simp
qed

lemma hex_encode_alphabet: "c \<in> set (hex_encode bs) \<Longrightarrow> c \<in> set hex_alphabet"
  by (induction bs) (auto simp: hex_alphabet_less_16)

end
