(* ===== verification/Regex.thy ===== *)
theory Regex
  imports GoText
begin

text \<open>
  A model of the part of Go's \<^verbatim>\<open>regexp\<close> that the source's own expression uses: items in
  sequence, greedy repetition, word boundaries, leftmost-first search and replacement. The
  lemmas say what a match is made of (\<open>ends_in_classes\<close>, \<open>ends_has_One\<close>), that it depends
  only on its own symbols and on the two around it (\<open>ends_cong\<close>), and that text and symbols
  convert into each other.
\<close>

subsection \<open>Symbols, items and matches\<close>

text \<open>
  Go matches a string rune by rune. The classes of the e-mail expression are ASCII, but under
  \<^verbatim>\<open>(?i)\<close> Go folds \<^verbatim>\<open>S\<close> with U+017F (bytes C5 BF) and \<^verbatim>\<open>K\<close> with the Kelvin sign U+212A, so
  those two runes are in \<^verbatim>\<open>[A-Z]\<close>. A value is therefore cut into \<^emph>\<open>symbols\<close>: those two byte
  sequences, and every other byte alone. No class of the expression contains another
  byte from 128 on, and \<^verbatim>\<open>\b\<close> treats all of them as no word character, so cutting the
  remaining runes into bytes changes no match.
\<close>

type_synonym symbol = string

definition long_s :: symbol where "long_s = [CHR 0xC5, CHR 0xBF]"

fun symbols :: "string \<Rightarrow> symbol list" where
  "symbols [] = []"
| "symbols (c # s) =
     (if prefix long_s (c # s) then long_s # symbols (drop 1 s)
      else if prefix kelvin (c # s) then kelvin # symbols (drop 2 s)
      else [c] # symbols s)"

text \<open>
  An expression is a sequence of items: a word boundary \<^verbatim>\<open>\b\<close>, one symbol of a class, or a
  greedy repetition of a class with a least count (\<^verbatim>\<open>[..]+\<close> is 1, \<^verbatim>\<open>[..]{2,}\<close> is 2).
\<close>

datatype item = Bound | One "symbol \<Rightarrow> bool" | AtLeast nat "symbol \<Rightarrow> bool"

definition word_char :: "symbol \<Rightarrow> bool" where
  "word_char w = (case w of [c] \<Rightarrow> is_letter c \<or> is_digit c \<or> c = CHR ''_'' | _ \<Rightarrow> False)"

text \<open>Whether there is a word character just before, or at the start of, a position.\<close>

definition word_before :: "symbol option \<Rightarrow> bool" where
  "word_before p = (case p of None \<Rightarrow> False | Some w \<Rightarrow> word_char w)"

definition word_after :: "symbol list \<Rightarrow> bool" where
  "word_after s = (case s of [] \<Rightarrow> False | w # _ \<Rightarrow> word_char w)"

definition before :: "symbol option \<Rightarrow> symbol list \<Rightarrow> symbol option" where
  "before p xs = (if xs = [] then p else Some (last xs))"

text \<open>
  The lengths of the matches at one position, in the order a backtracking matcher
  tries them; Go returns the first. \<open>p\<close> is the symbol before the position.
\<close>

fun ends :: "item list \<Rightarrow> symbol option \<Rightarrow> symbol list \<Rightarrow> nat list" where
  "ends [] p s = [0]"
| "ends (Bound # r) p s = (if word_before p \<noteq> word_after s then ends r p s else [])"
| "ends (One c # r) p s =
     (case s of [] \<Rightarrow> []
      | w # s' \<Rightarrow> if c w then map Suc (ends r (Some w) s') else [])"
| "ends (AtLeast n c # r) p s =
     concat (map (\<lambda>k. map ((+) k) (ends r (before p (take k s)) (drop k s)))
       (rev [n ..< Suc (length (takeWhile c s))]))"

text \<open>\<^verbatim>\<open>MatchString\<close>: a match somewhere in the value.\<close>

fun matches_from :: "item list \<Rightarrow> symbol option \<Rightarrow> symbol list \<Rightarrow> bool" where
  "matches_from r p [] = (ends r p [] \<noteq> [])"
| "matches_from r p (w # s) = (ends r p (w # s) \<noteq> [] \<or> matches_from r (Some w) s)"

text \<open>
  \<^verbatim>\<open>ReplaceAllString\<close>: the leftmost match, then the leftmost after it, and so on. The
  expressions of the source never match the empty string, so a match always moves on.
\<close>

function replace_from :: "item list \<Rightarrow> symbol list \<Rightarrow> symbol option \<Rightarrow> symbol list \<Rightarrow> symbol list" where
  "replace_from r repl p [] = []"
| "replace_from r repl p (w # s) =
     (case ends r p (w # s) of
        Suc k # _ \<Rightarrow> repl @ replace_from r repl (Some (last (take (Suc k) (w # s)))) (drop k s)
      | _ \<Rightarrow> w # replace_from r repl (Some w) s)"
  by pat_completeness auto
termination
  by (relation "measure (\<lambda>(r, repl, p, s). length s)") auto

definition match_string :: "item list \<Rightarrow> string \<Rightarrow> bool" where
  "match_string r s = matches_from r None (symbols s)"

definition replace_all_string :: "item list \<Rightarrow> string \<Rightarrow> string \<Rightarrow> string" where
  "replace_all_string r s repl = concat (replace_from r (symbols repl) None (symbols s))"

subsection \<open>What a match is made of\<close>

lemma in_ends_AtLeast:
  "m \<in> set (ends (AtLeast n c # r) p s) \<longleftrightarrow>
   (\<exists>k j. n \<le> k \<and> k \<le> length (takeWhile c s) \<and> m = k + j \<and>
     j \<in> set (ends r (before p (take k s)) (drop k s)))"
  by (auto simp: less_Suc_eq_le simp del: upt_Suc)

lemma in_ends_One:
  "m \<in> set (ends (One c # r) p s) \<longleftrightarrow>
   (\<exists>w s' j. s = w # s' \<and> c w \<and> m = Suc j \<and> j \<in> set (ends r (Some w) s'))"
  by (cases s) auto

lemma in_ends_Bound:
  "m \<in> set (ends (Bound # r) p s) \<longleftrightarrow>
   word_before p \<noteq> word_after s \<and> m \<in> set (ends r p s)"
  by simp

lemmas in_ends = in_ends_AtLeast in_ends_One in_ends_Bound

lemma takeWhile_le_take: "k \<le> length (takeWhile c s) \<Longrightarrow> w \<in> set (take k s) \<Longrightarrow> c w"
  by (metis set_takeWhileD takeWhile_eq_take take_take min.absorb1 in_set_takeD)

lemma le_takeWhile_iff: "k \<le> length (takeWhile c s) \<longleftrightarrow> k \<le> length s \<and> (\<forall>w\<in>set (take k s). c w)"
proof (induction s arbitrary: k)
  case (Cons a s)
  then show ?case by (cases k) auto
qed simp

lemma ends_le: "n \<in> set (ends r p s) \<Longrightarrow> n \<le> length s"
proof (induction r arbitrary: n p s)
  case (Cons i r)
  show ?case
  proof (cases i)
    case (AtLeast m c)
    with Cons.prems obtain k j where "k \<le> length (takeWhile c s)" "n = k + j"
      "j \<in> set (ends r (before p (take k s)) (drop k s))" by (auto simp only: in_ends)
    with Cons.IH [of j] show ?thesis
      by (fastforce simp: le_takeWhile_iff)
  qed (use Cons in \<open>auto simp: in_ends split: if_splits list.splits\<close>)
qed simp

definition item_class :: "item \<Rightarrow> symbol \<Rightarrow> bool" where
  "item_class i w = (case i of Bound \<Rightarrow> False | One c \<Rightarrow> c w | AtLeast _ c \<Rightarrow> c w)"

lemma ends_in_classes:
  "n \<in> set (ends r p s) \<Longrightarrow> w \<in> set (take n s) \<Longrightarrow> \<exists>i\<in>set r. item_class i w"
proof (induction r arbitrary: n p s)
  case (Cons i r)
  show ?case
  proof (cases i)
    case Bound
    with Cons show ?thesis by (auto split: if_splits)
  next
    case (One c)
    with Cons.prems obtain w' s' j where "s = w' # s'" "c w'" "n = Suc j"
      "j \<in> set (ends r (Some w') s')" by (auto simp only: in_ends)
    with One Cons show ?thesis by (auto simp: item_class_def)
  next
    case (AtLeast m c)
    with Cons.prems obtain k j where k: "k \<le> length (takeWhile c s)" "n = k + j"
      "j \<in> set (ends r (before p (take k s)) (drop k s))" by (auto simp only: in_ends)
    with Cons.prems(2) have "w \<in> set (take k s) \<or> w \<in> set (take j (drop k s))"
      by (simp add: take_add)
    with k AtLeast Cons.IH [OF k(3)] show ?thesis
      by (auto simp: item_class_def dest: takeWhile_le_take)
  qed
qed simp

lemma ends_has_One:
  "n \<in> set (ends r p s) \<Longrightarrow> One c \<in> set r \<Longrightarrow> \<exists>w\<in>set (take n s). c w"
proof (induction r arbitrary: n p s)
  case (Cons i r)
  show ?case
  proof (cases i)
    case Bound
    with Cons show ?thesis by (auto split: if_splits)
  next
    case (One d)
    with Cons.prems obtain w' s' j where "s = w' # s'" "d w'" "n = Suc j"
      "j \<in> set (ends r (Some w') s')" by (auto simp only: in_ends)
    with One Cons show ?thesis by (cases "One c = i") auto
  next
    case (AtLeast m d)
    with Cons.prems obtain k j where k: "n = k + j"
      "j \<in> set (ends r (before p (take k s)) (drop k s))" by (auto simp only: in_ends)
    with Cons AtLeast have "\<exists>w\<in>set (take j (drop k s)). c w" by auto
    with k(1) show ?thesis by (auto simp: take_add)
  qed
qed simp

lemma before_Cons: "before p (w # xs) = before (Some w) xs"
  by (simp add: before_def)

lemma before_Nil [simp]: "before p [] = p"
  by (simp add: before_def)

lemma word_after_simps [simp]: "\<not> word_after []" "word_after (w # s) = word_char w"
  by (simp_all add: word_after_def)

lemma word_before_simps [simp]: "\<not> word_before None" "word_before (Some w) = word_char w"
  by (simp_all add: word_before_def)

lemma nonempty_member: "xs \<noteq> [] \<Longrightarrow> \<exists>n. n \<in> set xs"
  by (cases xs) auto

lemma before_append: "before (before p xs) ys = before p (xs @ ys)"
  by (simp add: before_def)

lemma ends_cong:
  assumes "n \<in> set (ends r p s)" and "word_before p' = word_before p"
    and "take n s' = take n s" and "word_after (drop n s') = word_after (drop n s)"
  shows "n \<in> set (ends r p' s')"
  using assms
proof (induction r arbitrary: n p p' s s')
  case (Cons i r)
  note le = ends_le [OF Cons.prems(1)]
  show ?case
  proof (cases i)
    case Bound
    have "word_after s' = word_after s"
      using Cons.prems(3,4) by (cases n; cases s; cases s') (auto simp: word_after_def)
    with Bound Cons show ?thesis by (auto split: if_splits)
  next
    case (One c)
    with Cons.prems(1) obtain w t j where w: "s = w # t" "c w" "n = Suc j"
      "j \<in> set (ends r (Some w) t)" by (auto simp only: in_ends)
    moreover from w Cons.prems(3) obtain t' where "s' = w # t'" "take j t' = take j t"
      by (cases s') auto
    ultimately show ?thesis
      using One Cons.IH [of j "Some w" t "Some w" t'] Cons.prems(4) by simp
  next
    case (AtLeast m c)
    with Cons.prems(1) obtain k j where k: "m \<le> k" "k \<le> length (takeWhile c s)" "n = k + j"
      and j: "j \<in> set (ends r (before p (take k s)) (drop k s))" by (auto simp only: in_ends)
    have tk: "take k s' = take k s"
      using Cons.prems(3) k(3) by (metis le_add1 min.absorb1 take_take)
    have "length s' \<ge> n"
      using Cons.prems(3) le by (metis length_take min.absorb2 min.cobounded1)
    with tk k have "k \<le> length (takeWhile c s')"
      by (simp add: le_takeWhile_iff)
    moreover have "j \<in> set (ends r (before p' (take k s')) (drop k s'))"
    proof (rule Cons.IH [OF j])
      show "word_before (before p' (take k s')) = word_before (before p (take k s))"
        using tk Cons.prems(2) by (simp add: before_def)
      show "take j (drop k s') = take j (drop k s)"
        using Cons.prems(3) k(3) by (metis take_drop add.commute)
      show "word_after (drop j (drop k s')) = word_after (drop j (drop k s))"
        using Cons.prems(4) k(3) by (simp add: add.commute)
    qed
    ultimately show ?thesis using AtLeast k by (auto simp only: in_ends)
  qed
qed simp

lemma ends_last_Bound:
  "n \<in> set (ends (r @ [Bound]) p s) \<Longrightarrow> word_before (before p (take n s)) \<noteq> word_after (drop n s)"
proof (induction r arbitrary: n p s)
  case Nil
  then show ?case by (auto simp: before_def split: if_splits)
next
  case (Cons i r)
  show ?case
  proof (cases i)
    case Bound
    with Cons show ?thesis by (auto split: if_splits)
  next
    case (One c)
    with Cons.prems obtain w t j where w: "s = w # t" "n = Suc j"
      "j \<in> set (ends (r @ [Bound]) (Some w) t)" by (auto simp only: append_Cons in_ends)
    with Cons.IH [OF w(3)] show ?thesis
      by (auto simp: before_def split: if_splits)
  next
    case (AtLeast m c)
    with Cons.prems obtain k j where k: "n = k + j"
      "j \<in> set (ends (r @ [Bound]) (before p (take k s)) (drop k s))"
      by (auto simp only: append_Cons in_ends)
    have "take n s = take k s @ take j (drop k s)" "drop n s = drop j (drop k s)"
      by (simp add: k(1) take_add) (simp add: k(1) add.commute)
    with Cons.IH [OF k(2)] show ?thesis by (metis before_append)
  qed
qed


lemma replace_from_none:
  "ends r p (w # s) = [] \<Longrightarrow> replace_from r m p (w # s) = w # replace_from r m (Some w) s"
  by simp

declare replace_from.simps [simp del]

lemma replace_from_Nil [simp]: "replace_from r m p [] = []"
  by (simp add: replace_from.simps)

subsection \<open>Text and symbols\<close>

lemma not_prefix_long_s [simp]: "byte_of c < 128 \<Longrightarrow> \<not> prefix long_s (c # s)"
  by (auto simp: long_s_def byte_of_def)

lemma symbols_ascii: "ascii s \<Longrightarrow> symbols s = map (\<lambda>c. [c]) s"
  by (induction s) simp_all

lemma concat_symbols [simp]: "concat (symbols s) = s"
  by (induction s rule: symbols.induct) (auto simp: prefix_def long_s_def kelvin_def)

lemma symbols_ascii_append: "ascii a \<Longrightarrow> symbols (a @ z) = map (\<lambda>c. [c]) a @ symbols z"
  by (induction a) simp_all

lemma symbols_suffix:
  "symbols s = w # t \<Longrightarrow> symbols (concat t) = t"
  by (cases s) (auto split: if_splits)

lemma symbols_drop: "symbols (concat xs) = xs \<Longrightarrow> symbols (concat (drop n xs)) = drop n xs"
proof (induction n arbitrary: xs)
  case (Suc n)
  show ?case
  proof (cases xs)
    case (Cons w t)
    with Suc.prems have "symbols (concat t) = t" by (intro symbols_suffix [of "concat xs" w]) simp
    with Cons Suc.IH show ?thesis by simp
  qed simp
qed simp

lemma symbols_Cons:
  assumes "symbols (w @ concat t) = w # t" and "prefix long_s (w @ z) \<Longrightarrow> prefix long_s (w @ concat t)"
    and "prefix kelvin (w @ z) \<Longrightarrow> prefix kelvin (w @ concat t)"
  shows "symbols (w @ z) = w # symbols z"
proof -
  obtain c u where cu: "w @ concat t = c # u"
    using assms(1) by (cases "w @ concat t") auto
  consider "w = long_s" | "w = kelvin" "\<not> prefix long_s (w @ concat t)"
    | "w = [c]" "\<not> prefix long_s (w @ concat t)" "\<not> prefix kelvin (w @ concat t)"
    using assms(1) cu by (auto split: if_splits)
  then show ?thesis
  proof cases
    case 1
    then show ?thesis by (simp add: long_s_def)
  next
    case 2
    then show ?thesis by (simp add: long_s_def kelvin_def)
  next
    case 3
    with assms(2,3) show ?thesis by auto
  qed
qed

lemma prefix_via_take: "prefix a b \<longleftrightarrow> length a \<le> length b \<and> take (length a) b = a"
  by (auto simp: prefix_def) (metis append_take_drop_id)

text \<open>Up to the first bracket the output of a replacement is its input, byte for byte.\<close>

lemma replace_bytes_agree:
  assumes "\<And>p w t. ends r p (w # t) = [] \<or> (\<exists>j. Suc j \<in> set (ends r p (w # t)) \<and>
      replace_from r m p (w # t) = m @ replace_from r m (Some (last (take (Suc j) (w # t)))) (drop j t))"
    and "concat m = CHR ''['' # b"
    and "CHR ''['' \<notin> set (take n (concat (replace_from r m p xs)))"
  shows "take n (concat (replace_from r m p xs)) = take n (concat xs)"
  using assms(3)
proof (induction xs arbitrary: n p)
  case (Cons w t)
  show ?case
  proof (cases "ends r p (w # t) = []")
    case True
    then show ?thesis
      using Cons by (simp add: replace_from_none)
  next
    case False
    with assms(1) [of p w t] Cons.prems assms(2) have "n = 0"
      by (cases n) auto
    then show ?thesis by simp
  qed
qed simp

end
