(* ===== verification/Redaction.thy ===== *)
theory Redaction
  imports Regex
begin

text \<open>
  \<^verbatim>\<open>internal/redaction/redaction.go\<close>: what the gateway does to the attributes of every
  accepted event before anything is stored or sent. The e-mail expression is the source's own
  regular expression, run by a model of Go's leftmost, greedy-first matching. A tenant's
  expressions are configuration, not code of the repository: a compiled one is a pair of
  functions, whether it matches a value and what replacing its matches gives.

  The main results: the e-mail expression matches nothing in a value that came out of the
  replacement (\<open>email_absent\<close>), a sensitive key never keeps its value whatever its
  case or separators, and the receipt names exactly the changed attributes.
\<close>

subsection \<open>The source's e-mail expression\<close>

definition letter_class :: "symbol \<Rightarrow> bool" where
  "letter_class w = (case w of [c] \<Rightarrow> is_letter c | _ \<Rightarrow> w = long_s \<or> w = kelvin)"

definition one_of :: "string \<Rightarrow> symbol \<Rightarrow> bool" where
  "one_of cs w = (case w of [c] \<Rightarrow> c \<in> set cs | _ \<Rightarrow> False)"

definition digit_class :: "symbol \<Rightarrow> bool" where
  "digit_class w = (case w of [c] \<Rightarrow> is_digit c | _ \<Rightarrow> False)"

text \<open>\<^verbatim>\<open>[A-Z0-9._%+\-]\<close> and \<^verbatim>\<open>[A-Z0-9.\-]\<close>.\<close>

definition local_class :: "symbol \<Rightarrow> bool" where
  "local_class w = (letter_class w \<or> digit_class w \<or> one_of ''._%+-'' w)"

definition domain_class :: "symbol \<Rightarrow> bool" where
  "domain_class w = (letter_class w \<or> digit_class w \<or> one_of ''.-'' w)"

definition emailPattern :: "item list" where
  "emailPattern =
     [Bound, AtLeast 1 local_class, One (one_of ''@''), AtLeast 1 domain_class,
      One (one_of ''.''), AtLeast 2 letter_class, Bound]"

definition redacted_email :: string where
  "redacted_email = ''[REDACTED_EMAIL]''"


subsection \<open>The replaced text holds no e-mail\<close>

lemma one_of_iff: "one_of cs w \<longleftrightarrow> (\<exists>c\<in>set cs. w = [c])"
  by (auto simp: one_of_def split: list.splits)

lemma emailPattern_symbols:
  assumes "n \<in> set (ends emailPattern p s)"
  shows "[CHR ''@''] \<in> set (take n s)" and "[CHR ''['']  \<notin> set (take n s)" and "[CHR '']'']  \<notin> set (take n s)"
    and "0 < n" and "n \<le> length s" and "word_before p \<noteq> word_after s"
    and "word_before (before p (take n s)) \<noteq> word_after (drop n s)"
proof -
  have "\<exists>w\<in>set (take n s). one_of ''@'' w"
    by (rule ends_has_One [OF assms]) (simp add: emailPattern_def)
  then show at: "[CHR ''@''] \<in> set (take n s)"
    by (auto simp: one_of_iff)
  from at show "0 < n" by (cases n) auto
  show "n \<le> length s" using assms by (rule ends_le)
  have no: "w \<notin> set (take n s)" if "\<not> local_class w" "\<not> domain_class w" "\<not> one_of ''@.'' w" for w
    using ends_in_classes [OF assms, of w] that
    by (auto simp: emailPattern_def item_class_def one_of_def domain_class_def split: list.splits)
  show "[CHR ''['']  \<notin> set (take n s)"
    by (rule no) (simp_all add: local_class_def domain_class_def letter_class_def digit_class_def
        one_of_def byte_class_defs byte_of_def)
  show "[CHR '']'']  \<notin> set (take n s)"
    by (rule no) (simp_all add: local_class_def domain_class_def letter_class_def digit_class_def
        one_of_def byte_class_defs byte_of_def)
  show "word_before p \<noteq> word_after s"
    using assms unfolding emailPattern_def by (blast dest: in_ends_Bound [THEN iffD1])
  show "word_before (before p (take n s)) \<noteq> word_after (drop n s)"
    by (rule ends_last_Bound [of n "[Bound, AtLeast 1 local_class, One (one_of ''@''), AtLeast 1 domain_class,
      One (one_of ''.''), AtLeast 2 letter_class]"]) (use assms in \<open>simp only: emailPattern_def append.simps\<close>)
qed


lemma email_ends_inside:
  assumes "xs \<noteq> []" and "last xs = [CHR '']'']" and "[CHR ''@''] \<notin> set xs"
  shows "ends emailPattern p (xs @ t) = []"
proof (rule ccontr)
  assume "ends emailPattern p (xs @ t) \<noteq> []"
  then obtain n where n: "n \<in> set (ends emailPattern p (xs @ t))"
    by (blast dest: nonempty_member)
  note E = emailPattern_symbols [OF n]
  have "n < length xs"
  proof (rule ccontr)
    assume "\<not> n < length xs"
    then have "take n (xs @ t) = xs @ take (n - length xs) t" by simp
    moreover have "[CHR '']''] \<in> set xs" using assms(1,2) by (metis last_in_set)
    ultimately show False using E(3) by simp
  qed
  then show False using E(1) assms(3) by (auto dest: in_set_takeD)
qed

lemma email_scan_mark:
  assumes "last xs = [CHR '']'']" and "[CHR ''@''] \<notin> set xs" and "xs \<noteq> []"
  shows "matches_from emailPattern p (xs @ t) = matches_from emailPattern (Some [CHR '']'']) t"
  using assms
proof (induction xs arbitrary: p)
  case (Cons x xs)
  then have "ends emailPattern p (x # xs @ t) = []"
    using email_ends_inside [of "x # xs" p t] by simp
  with Cons show ?case by (cases "xs = []") auto
qed simp

abbreviation email_mark :: "symbol list" where
  "email_mark \<equiv> symbols redacted_email"

lemma email_mark_eq: "email_mark = map (\<lambda>c. [c]) redacted_email"
  by (simp add: symbols_ascii redacted_email_def byte_of_def)

lemma replace_from_email:
  assumes "ends emailPattern p (w # s) \<noteq> []"
  obtains j where "Suc j \<in> set (ends emailPattern p (w # s))"
    and "replace_from emailPattern m p (w # s) =
      m @ replace_from emailPattern m (Some (last (take (Suc j) (w # s)))) (drop j s)"
proof -
  obtain k ks where k: "ends emailPattern p (w # s) = k # ks"
    using assms by (cases "ends emailPattern p (w # s)") auto
  then have m: "k \<in> set (ends emailPattern p (w # s))" by simp
  with emailPattern_symbols(4) [OF m] obtain j where "k = Suc j" by (cases k) auto
  with k m show thesis by (intro that [of j]) (simp_all add: replace_from.simps)
qed

lemma email_mark_Cons: "\<exists>xs. email_mark = [CHR ''['']  # xs"
  unfolding email_mark_eq by (simp add: redacted_email_def)

lemma not_word_bracket [simp]: "\<not> word_char [CHR ''['']" "\<not> word_char [CHR '']'']"
  by (simp_all add: word_char_def byte_class_defs byte_of_def)

lemma email_replace_agrees:
  assumes "[CHR ''[''] \<notin> set (take n (replace_from emailPattern email_mark p s))"
    and "n \<le> length (replace_from emailPattern email_mark p s)"
    and "word_before (before p (take n (replace_from emailPattern email_mark p s)))
           \<noteq> word_after (drop n (replace_from emailPattern email_mark p s))"
  shows "take n (replace_from emailPattern email_mark p s) = take n s \<and>
    word_after (drop n (replace_from emailPattern email_mark p s)) = word_after (drop n s)"
  using assms
proof (induction s arbitrary: n p)
  case (Cons w s)
  show ?case
  proof (cases "ends emailPattern p (w # s) = []")
    case True
    note out = replace_from_none [OF True]
    show ?thesis
    proof (cases n)
      case (Suc m)
      have "take m (replace_from emailPattern email_mark (Some w) s) = take m s \<and>
        word_after (drop m (replace_from emailPattern email_mark (Some w) s)) = word_after (drop m s)"
        by (rule Cons.IH) (use Cons.prems out Suc in \<open>simp_all add: before_Cons\<close>)
      with out Suc show ?thesis by simp
    qed (simp add: out)
  next
    case False
    then obtain j where j: "Suc j \<in> set (ends emailPattern p (w # s))"
      and out: "replace_from emailPattern email_mark p (w # s) =
        email_mark @ replace_from emailPattern email_mark (Some (last (take (Suc j) (w # s)))) (drop j s)"
      by (rule replace_from_email)
    obtain xs where xs: "email_mark = [CHR ''['']  # xs" using email_mark_Cons by blast
    have "n = 0" using Cons.prems(1) out xs by (cases n) simp_all
    then show ?thesis
      using Cons.prems(3) out xs emailPattern_symbols(6) [OF j] by simp
  qed
qed simp

lemma email_absent_symbols:
  assumes "word_before p' = word_before p \<or> \<not> word_before p' \<and> \<not> word_after s"
  shows "\<not> matches_from emailPattern p' (replace_from emailPattern email_mark p s)"
  using assms
proof (induction s arbitrary: p p' rule: length_induct)
  case (1 s)
  note IH = "1.IH" [rule_format]
  show ?case
  proof (cases s)
    case Nil
    have "n \<notin> set (ends emailPattern p' [])" for n
      using emailPattern_symbols(4,5) [of n p' "[]"] by auto
    then have "ends emailPattern p' [] = []" by (blast dest: nonempty_member)
    with Nil show ?thesis by simp
  next
    case s: (Cons w t)
    show ?thesis
    proof (cases "ends emailPattern p (w # t) = []")
      case True
      let ?out = "replace_from emailPattern email_mark (Some w) t"
      have "\<not> matches_from emailPattern (Some w) ?out"
        by (rule IH) (simp_all add: s)
      moreover have "n \<notin> set (ends emailPattern p' (w # ?out))" for n
      proof
        assume n: "n \<in> set (ends emailPattern p' (w # ?out))"
        note E = emailPattern_symbols [OF n]
        obtain m where m: "n = Suc m" using E(4) by (cases n) auto
        have agree: "take m ?out = take m t \<and> word_after (drop m ?out) = word_after (drop m t)"
          by (rule email_replace_agrees) (use E m in \<open>simp_all add: before_Cons\<close>)
        have "word_before p' = word_before p"
          using 1 s E(6) by auto
        then have "n \<in> set (ends emailPattern p (w # t))"
          by (intro ends_cong [OF n]) (use agree m in simp_all)
        with True show False by simp
      qed
      ultimately show ?thesis
        using s replace_from_none [OF True] by (auto dest: nonempty_member)
    next
      case False
      then obtain j where j: "Suc j \<in> set (ends emailPattern p (w # t))"
        and out: "replace_from emailPattern email_mark p (w # t) =
          email_mark @ replace_from emailPattern email_mark (Some (last (take (Suc j) (w # t)))) (drop j t)"
        by (rule replace_from_email)
      let ?q = "Some (last (take (Suc j) (w # t)))"
      have "word_before ?q \<noteq> word_after (drop j t)"
        using emailPattern_symbols(7) [OF j] by (simp add: before_def)
      then have "\<not> matches_from emailPattern (Some [CHR '']''])
          (replace_from emailPattern email_mark ?q (drop j t))"
        by (intro IH) (auto simp: s simp del: last.simps)
      moreover have "last email_mark = [CHR '']'']" "[CHR ''@''] \<notin> set email_mark" "email_mark \<noteq> []"
        unfolding email_mark_eq by (simp_all add: redacted_email_def)
      ultimately show ?thesis using s out by (simp add: email_scan_mark)
    qed
  qed
qed


lemma email_replace_cases:
  "ends emailPattern p (w # t) = [] \<or> (\<exists>j. Suc j \<in> set (ends emailPattern p (w # t)) \<and>
    replace_from emailPattern m p (w # t) =
      m @ replace_from emailPattern m (Some (last (take (Suc j) (w # t)))) (drop j t))"
  by (metis replace_from_email)

lemma email_replace_prefix:
  assumes "prefix a (w @ concat (replace_from emailPattern email_mark p t))" and "CHR ''['' \<notin> set a"
  shows "prefix a (w @ concat t)"
proof -
  let ?out = "concat (replace_from emailPattern email_mark p t)"
  define n where "n = length a - length w"
  have mark: "concat email_mark = CHR ''['' # tl redacted_email"
    by (simp only: concat_symbols) (simp add: redacted_email_def)
  have a: "a = take (length a) w @ take n ?out" "length a \<le> length w + length ?out"
    using assms(1) by (auto simp: prefix_via_take n_def)
  have "set (take n ?out) \<subseteq> set a" by (subst a(1)) auto
  with assms(2) have "take n ?out = take n (concat t)"
    by (intro replace_bytes_agree [OF email_replace_cases mark]) auto
  with a(1) have *: "a = take (length a) (w @ concat t)" by (simp add: n_def)
  then show ?thesis by (metis take_is_prefix)
qed

lemma symbols_replace_email:
  assumes "symbols (concat xs) = xs"
  shows "symbols (concat (replace_from emailPattern email_mark p xs)) = replace_from emailPattern email_mark p xs"
  using assms
proof (induction xs arbitrary: p rule: length_induct)
  case (1 xs)
  note IH = "1.IH" [rule_format]
  show ?case
  proof (cases xs)
    case xs: (Cons w t)
    have t: "symbols (concat t) = t"
      using "1.prems" xs by (intro symbols_suffix [of "concat xs" w]) simp
    show ?thesis
    proof (cases "ends emailPattern p (w # t) = []")
      case True
      let ?out = "replace_from emailPattern email_mark (Some w) t"
      have "symbols (w @ concat ?out) = w # symbols (concat ?out)"
        by (rule symbols_Cons [of w t])
           (use "1.prems" xs in \<open>auto intro: email_replace_prefix simp: long_s_def kelvin_def\<close>)
      moreover have "symbols (concat ?out) = ?out" by (rule IH) (simp_all add: xs t)
      ultimately show ?thesis using xs True by (simp add: replace_from_none)
    next
      case False
      then obtain j where out: "replace_from emailPattern email_mark p (w # t) =
          email_mark @ replace_from emailPattern email_mark (Some (last (take (Suc j) (w # t)))) (drop j t)"
        by (rule replace_from_email)
      let ?rest = "replace_from emailPattern email_mark (Some (last (take (Suc j) (w # t)))) (drop j t)"
      have "symbols (concat ?rest) = ?rest" by (rule IH) (simp_all add: xs t symbols_drop)
      moreover have "ascii redacted_email" by (simp add: redacted_email_def byte_of_def)
      ultimately show ?thesis
        using xs out by (simp add: symbols_ascii_append symbols_ascii)
    qed
  qed simp
qed

lemma email_absent:
  "\<not> match_string emailPattern (replace_all_string emailPattern s redacted_email)"
proof -
  have "symbols (concat (replace_from emailPattern email_mark None (symbols s)))
      = replace_from emailPattern email_mark None (symbols s)"
    by (rule symbols_replace_email) simp
  then show ?thesis
    by (simp add: match_string_def replace_all_string_def email_absent_symbols)
qed

subsection \<open>\<^verbatim>\<open>Sanitize\<close>\<close>

record receipt =
  PolicyVersion :: string
  RedactedPaths :: "string list"

text \<open>A compiled tenant expression: \<^verbatim>\<open>MatchString\<close> and \<^verbatim>\<open>ReplaceAllString\<close>.\<close>

record regexp =
  MatchString :: "string \<Rightarrow> bool"
  ReplaceAllString :: "string \<Rightarrow> string \<Rightarrow> string"

definition DefaultPolicyVersion :: string where
  "DefaultPolicyVersion = ''v1''"

definition sensitive_markers :: "string list" where
  "sensitive_markers =
     [''authorization'', ''cookie'', ''api-key'', ''apikey'', ''token'', ''secret'', ''password'']"

definition sensitiveKey :: "string \<Rightarrow> bool" where
  "sensitiveKey key =
     (let normalized = to_lower (replace_byte (CHR ''_'') (CHR ''-'') key)
      in list_ex (\<lambda>marker. contains normalized marker) sensitive_markers)"

text \<open>The loop over the patterns: the value so far, and whether anything was redacted.\<close>

fun redact_patterns :: "regexp list \<Rightarrow> string \<Rightarrow> bool \<Rightarrow> string \<times> bool" where
  "redact_patterns [] val redacted = (val, redacted)"
| "redact_patterns (pattern # patterns) val redacted =
     (if MatchString pattern val
      then redact_patterns patterns (ReplaceAllString pattern val ''[REDACTED_PATTERN]'') True
      else redact_patterns patterns val redacted)"

definition redact_value :: "regexp list \<Rightarrow> string \<Rightarrow> string \<times> bool" where
  "redact_value patterns val =
     (if match_string emailPattern val
      then redact_patterns patterns (replace_all_string emailPattern val redacted_email) True
      else redact_patterns patterns val False)"

definition attribute_path :: "string \<Rightarrow> string" where
  "attribute_path key = ''attributes.'' @ key"

fun sanitize_loop ::
  "regexp list \<Rightarrow> attrs \<Rightarrow> attrs \<Rightarrow> string list \<Rightarrow> attrs \<times> string list" where
  "sanitize_loop patterns [] out paths = (out, paths)"
| "sanitize_loop patterns ((key, val) # attributes) out paths =
     (if sensitiveKey key
      then sanitize_loop patterns attributes
             (AList.update key ''[REDACTED]'' out) (paths @ [attribute_path key])
      else (case redact_value patterns val of (redactedValue, redacted) \<Rightarrow>
        if redacted
        then sanitize_loop patterns attributes
               (AList.update key redactedValue out) (paths @ [attribute_path key])
        else sanitize_loop patterns attributes (AList.update key val out) paths))"

definition Sanitize :: "attrs \<Rightarrow> string \<Rightarrow> regexp list \<Rightarrow> attrs \<times> receipt" where
  "Sanitize attributes policyVersion patterns =
     (let version = (if policyVersion = [] then DefaultPolicyVersion else policyVersion);
          (out, paths) = sanitize_loop patterns attributes [] []
      in (out, \<lparr>PolicyVersion = version, RedactedPaths = paths\<rparr>))"

subsection \<open>What becomes of one attribute\<close>

text \<open>The value an attribute has after \<^const>\<open>Sanitize\<close>, and whether it is in the receipt.\<close>

definition clean_value :: "regexp list \<Rightarrow> string \<Rightarrow> string \<Rightarrow> string" where
  "clean_value patterns key val =
     (if sensitiveKey key then ''[REDACTED]'' else fst (redact_value patterns val))"

definition changes :: "regexp list \<Rightarrow> string \<Rightarrow> string \<Rightarrow> bool" where
  "changes patterns key val = (sensitiveKey key \<or> snd (redact_value patterns val))"

lemma redact_patterns_unchanged:
  "redact_patterns patterns val redacted = (v, False) \<Longrightarrow> v = val \<and> \<not> redacted"
  by (induction patterns val redacted rule: redact_patterns.induct) (auto split: if_splits)

lemma redact_value_unchanged: "redact_value patterns val = (v, False) \<Longrightarrow> v = val"
  by (auto simp: redact_value_def dest: redact_patterns_unchanged split: if_splits)

lemma unchanged_clean_value: "\<not> changes patterns key val \<Longrightarrow> clean_value patterns key val = val"
  by (cases "redact_value patterns val")
     (auto simp: changes_def clean_value_def dest: redact_value_unchanged)

lemma sanitize_loop_step:
  "sanitize_loop patterns ((key, val) # attributes) out paths =
     sanitize_loop patterns attributes (AList.update key (clean_value patterns key val) out)
       (if changes patterns key val then paths @ [attribute_path key] else paths)"
  by (cases "redact_value patterns val")
     (auto simp: changes_def clean_value_def dest: redact_value_unchanged)

lemma sanitize_loop_eq:
  "sanitize_loop patterns attributes out paths =
     (put_all (map (\<lambda>(k, v). (k, clean_value patterns k v)) attributes) out,
      paths @ map (\<lambda>(k, v). attribute_path k) (filter (\<lambda>(k, v). changes patterns k v) attributes))"
proof (induction attributes arbitrary: out paths)
  case (Cons a attributes)
  then show ?case
    by (cases a) (simp add: sanitize_loop_step del: sanitize_loop.simps(2))
qed simp

lemma map_of_map_values: "map_of (map (\<lambda>(k, v). (k, f k v)) m) k = map_option (f k) (map_of m k)"
  by (induction m) auto

lemma go_map_map_values [simp]: "go_map (map (\<lambda>(k, v). (k, f k v)) m) = go_map m"
  by (simp add: go_map_def keys_of_def split_def comp_def)

lemma Sanitize_attributes:
  "fst (Sanitize attributes version patterns) =
     put_all (map (\<lambda>(k, v). (k, clean_value patterns k v)) attributes) []"
  by (simp add: Sanitize_def Let_def sanitize_loop_eq)

lemma Sanitize_receipt:
  "snd (Sanitize attributes version patterns) =
     \<lparr>PolicyVersion = (if version = [] then DefaultPolicyVersion else version),
      RedactedPaths = map (\<lambda>(k, v). attribute_path k)
        (filter (\<lambda>(k, v). changes patterns k v) attributes)\<rparr>"
  by (simp add: Sanitize_def Let_def sanitize_loop_eq)

lemma go_map_Sanitize [simp]: "go_map (fst (Sanitize attributes version patterns))"
  by (simp add: Sanitize_attributes)

lemma map_of_Sanitize:
  "go_map attributes \<Longrightarrow>
   map_of (fst (Sanitize attributes version patterns)) key =
     map_option (clean_value patterns key) (map_of attributes key)"
  by (simp add: Sanitize_attributes map_of_put_all_distinct map_of_map_values)

subsection \<open>Sensitive keys\<close>

lemma prefix_append_fresh: "c \<notin> set w \<Longrightarrow> prefix w (a @ c # v) \<longleftrightarrow> prefix w a"
  by (auto simp: prefix_append prefix_Cons)

lemma to_lower_append:
  "byte_of c < 128 \<Longrightarrow> to_lower (u @ c # v) = to_lower u @ to_lower (c # v)"
proof (induction u rule: to_lower.induct)
  case (2 d u)
  have fresh: "c \<notin> set kelvin" "c \<notin> set dotted_I"
    using 2(4) by (auto simp: kelvin_def dotted_I_def byte_of_def)
  have len: "prefix kelvin (d # u) \<Longrightarrow> 2 \<le> length u" "prefix dotted_I (d # u) \<Longrightarrow> 1 \<le> length u"
    by (auto simp: kelvin_def dotted_I_def dest!: prefix_length_le)
  show ?case
    using 2 len fresh [THEN prefix_append_fresh, of "d # u" v]
    by (simp del: to_lower.simps(2) add: to_lower.simps(2) [of d])
qed simp

lemma to_lower_ascii_append: "ascii k \<Longrightarrow> to_lower (k @ v) = to_lower k @ to_lower v"
  by (induction k) simp_all

lemma ascii_replace_byte: "ascii k \<Longrightarrow> byte_of d < 128 \<Longrightarrow> ascii (replace_byte c d k)"
  by (induction k) (auto simp: replace_byte_def)

lemma contains_lower_infix:
  assumes "ascii k" and "k \<noteq> []" and "contains (to_lower k) m"
  shows "contains (to_lower (u @ k @ v)) m"
proof -
  obtain c k' where k: "k = c # k'" using assms(2) by (cases k) auto
  have "to_lower (u @ k @ v) = to_lower u @ to_lower (k @ v)"
    using assms(1) k by (simp add: to_lower_append)
  also have "\<dots> = to_lower u @ to_lower k @ to_lower v"
    using assms(1) by (simp only: to_lower_ascii_append)
  finally show ?thesis using assms(3) by (simp add: contains_append)
qed

lemma sensitiveKey_markers:
  "sensitiveKey key \<longleftrightarrow>
   (\<exists>m\<in>set sensitive_markers. contains (to_lower (replace_byte (CHR ''_'') (CHR ''-'') key)) m)"
  by (simp add: sensitiveKey_def Let_def list_ex_iff)

text \<open>
  An expression exposes an address in a text when it replaces a part of a text without one, and the result has one.
  The value that reaches the expressions is the attribute's with its own addresses replaced.
\<close>

definition exposes_in :: "regexp \<Rightarrow> string \<Rightarrow> bool" where
  "exposes_in p u = (\<not> match_string emailPattern u \<and> MatchString p u \<and>
     match_string emailPattern (ReplaceAllString p u ''[REDACTED_PATTERN]''))"

definition without_email :: "string \<Rightarrow> string" where
  "without_email val =
     (if match_string emailPattern val then replace_all_string emailPattern val redacted_email else val)"

lemma without_email_clean [simp]: "\<not> match_string emailPattern (without_email val)"
  by (simp add: without_email_def email_absent)

lemma redact_value_result: "fst (redact_value patterns val) = fst (redact_patterns patterns (without_email val) b)"
proof -
  have "fst (redact_patterns patterns v b) = fst (redact_patterns patterns v c)" for v b c
    by (induction patterns arbitrary: v b c) auto
  then show ?thesis by (simp add: redact_value_def without_email_def)
qed

text \<open>The expressions make an address only when one of them, at its turn, exposes it.\<close>

lemma redact_patterns_exposed:
  assumes "match_string emailPattern (fst (redact_patterns patterns val redacted))" and "\<not> match_string emailPattern val"
  shows "\<exists>before p after. patterns = before @ p # after \<and> exposes_in p (fst (redact_patterns before val redacted))"
  using assms
proof (induction patterns val redacted rule: redact_patterns.induct)
  case (2 p patterns val redacted)
  show ?case
  proof (cases "exposes_in p val")
    case True
    then show ?thesis by (intro exI [of _ "[]"] exI [of _ p] exI [of _ patterns]) simp
  next
    case False
    have "\<exists>before q after. patterns = before @ q # after \<and>
        exposes_in q (fst (redact_patterns (p # before) val redacted))"
      using 2 False by (cases "MatchString p val") (auto simp: exposes_in_def)
    then show ?thesis by (metis append_Cons)
  qed
qed simp

lemma clean_value_exposed:
  assumes "match_string emailPattern (clean_value patterns key val)"
  shows "\<not> sensitiveKey key \<and> (\<exists>before p after. patterns = before @ p # after \<and>
    exposes_in p (fst (redact_patterns before (without_email val) False)))"
proof -
  have "\<not> match_string emailPattern ''[REDACTED]''" by code_simp
  then have key: "\<not> sensitiveKey key" using assms by (auto simp: clean_value_def)
  then have "match_string emailPattern (fst (redact_patterns patterns (without_email val) False))"
    using assms by (simp add: clean_value_def redact_value_result [of _ _ False])
  from redact_patterns_exposed [OF this without_email_clean] key show ?thesis by blast
qed

lemma byte_of_lower_byte [simp]:
  "byte_of (lower_byte c) = (if is_upper c then byte_of c + 32 else byte_of c)"
  by (simp add: lower_byte_def byte_class_defs)

lemma byte_eqI: "byte_of c = byte_of d \<Longrightarrow> c = d"
  by simp

lemma lower_byte_idem: "lower_byte (lower_byte c) = lower_byte c"
  by (rule byte_eqI) (simp add: byte_class_defs)

lemma lower_byte_underscore: "lower_byte c = CHR ''_'' \<longleftrightarrow> c = CHR ''_''"
proof -
  have "byte_of (lower_byte c) = 95 \<longleftrightarrow> byte_of c = 95"
    by (auto simp: byte_class_defs)
  moreover have "byte_of (CHR ''_'') = 95" by (simp add: byte_of_def)
  ultimately show ?thesis by (metis byte_of_inject)
qed

lemma to_lower_lowered:
  assumes "ascii k"
  shows "to_lower (replace_byte (CHR ''_'') (CHR ''-'') (map lower_byte k))
    = to_lower (replace_byte (CHR ''_'') (CHR ''-'') k)"
proof -
  have "ascii (map lower_byte k)"
    using assms by (induction k) (auto simp: byte_class_defs)
  then have "ascii (replace_byte (CHR ''_'') (CHR ''-'') (map lower_byte k))"
    by (rule ascii_replace_byte) (simp add: byte_of_def)
  moreover have "ascii (replace_byte (CHR ''_'') (CHR ''-'') k)"
    using assms by (rule ascii_replace_byte) (simp add: byte_of_def)
  ultimately show ?thesis
    by (simp add: to_lower_ascii replace_byte_def lower_byte_idem lower_byte_underscore)
qed

subsection \<open>Properties\<close>

text \<open>
  The tenant's expressions run after the search for addresses, which is not repeated: replacing what hid an address
  from it stores the address. Here the expression is \<^verbatim>\<open>_x$\<close>.
\<close>

definition tail_pattern :: regexp where
  "tail_pattern =
     \<lparr>MatchString = (\<lambda>v. suffix ''_x'' v),
      ReplaceAllString = (\<lambda>v r. if suffix ''_x'' v then take (length v - 2) v @ r else v)\<rparr>"

lemma pattern_exposes_email:
  "fst (Sanitize [(''note'', ''person@example.test_x'')] ''v1'' [tail_pattern])
     = [(''note'', ''person@example.test[REDACTED_PATTERN]'')]"
  "match_string emailPattern ''person@example.test[REDACTED_PATTERN]''"
  by code_simp+

text \<open>
  C2. No address survives the sanitizer: if a value of a sanitized event contains an e-mail address that the source's
  expression recognises, the attribute is not a sensitive one and an expression of the tenant put the address there:
  at its turn the value held none, it matched, and its replacement joined the parts around it to an address. So a
  value is free of addresses when there are no tenant expressions, or none that does this to it.
\<close>

theorem sanitize_no_email:
  assumes "go_map attributes" and "map_of (fst (Sanitize attributes version patterns)) key = Some val"
    and "match_string emailPattern val"
  shows "\<not> sensitiveKey key \<and> (\<exists>original before p after. map_of attributes key = Some original \<and>
    patterns = before @ p # after \<and> exposes_in p (fst (redact_patterns before (without_email original) False)))"
  using assms clean_value_exposed by (auto simp: map_of_Sanitize)

definition account_pattern :: regexp where
  "account_pattern =
     \<lparr>MatchString = (\<lambda>v. contains v ''account-7''),
      ReplaceAllString = (\<lambda>v r. if contains v ''account-7'' then r else v)\<rparr>"

definition sample_attributes :: attrs where
  "sample_attributes =
     [(''log.body'', ''to person@example.test, done''), (''Http_Authorization'', ''Bearer x''),
      (''customer'', ''account-7''), (''status'', ''ok'')]"

lemma sample_attributes_go_map: "go_map sample_attributes"
  by (simp add: sample_attributes_def)

lemma account_pattern_exposes: "\<not> exposes_in account_pattern u"
proof -
  have "\<not> match_string emailPattern ''[REDACTED_PATTERN]''" by code_simp
  then show ?thesis by (simp add: account_pattern_def exposes_in_def)
qed

lemma sample_sanitized:
  "Sanitize sample_attributes ''v2'' [account_pattern] =
     ([(''log.body'', ''to [REDACTED_EMAIL], done''), (''Http_Authorization'', ''[REDACTED]''),
       (''customer'', ''[REDACTED_PATTERN]''), (''status'', ''ok'')],
      \<lparr>PolicyVersion = ''v2'',
       RedactedPaths = [''attributes.log.body'', ''attributes.Http_Authorization'', ''attributes.customer'']\<rparr>)"
  by code_simp

lemma sanitize_no_email_witness:
  "map_of (fst (Sanitize sample_attributes ''v2'' [account_pattern])) ''log.body''
     = Some ''to [REDACTED_EMAIL], done'' \<and>
   \<not> match_string emailPattern ''to [REDACTED_EMAIL], done'' \<and>
   match_string emailPattern ''to person@example.test, done'' \<and>
   (\<exists>u. exposes_in tail_pattern u)"
proof (intro conjI)
  show out: "map_of (fst (Sanitize sample_attributes ''v2'' [account_pattern])) ''log.body''
     = Some ''to [REDACTED_EMAIL], done''"
    by (simp add: sample_sanitized)
  show "match_string emailPattern ''to person@example.test, done''" by code_simp
  show "\<not> match_string emailPattern ''to [REDACTED_EMAIL], done''"
  proof
    assume "match_string emailPattern ''to [REDACTED_EMAIL], done''"
    from sanitize_no_email [OF sample_attributes_go_map out this] show False
      by (auto simp: account_pattern_exposes Cons_eq_append_conv)
  qed
  have "map_of (fst (Sanitize [(''note'', ''person@example.test_x'')] ''v1'' [tail_pattern])) ''note''
      = Some ''person@example.test[REDACTED_PATTERN]''" by (simp add: pattern_exposes_email)
  from sanitize_no_email [OF _ this pattern_exposes_email(2)]
  show "\<exists>u. exposes_in tail_pattern u" by (auto simp: go_map_def keys_of_def Cons_eq_append_conv)
qed

lemma sanitize_same_values:
  assumes "map fst a = map fst b"
    and "\<And>i. i < length a \<Longrightarrow> \<not> sensitiveKey (fst (a ! i)) \<Longrightarrow> snd (a ! i) = snd (b ! i)"
  shows "Sanitize a version patterns = Sanitize b version patterns"
proof -
  have len: "length a = length b" using assms(1) by (rule map_eq_imp_length_eq)
  have same: "fst (a ! i) = fst (b ! i)
      \<and> clean_value patterns (fst (a ! i)) (snd (a ! i)) = clean_value patterns (fst (b ! i)) (snd (b ! i))
      \<and> changes patterns (fst (a ! i)) (snd (a ! i)) = changes patterns (fst (b ! i)) (snd (b ! i))"
    if "i < length a" for i
    using that assms len nth_map [of i a fst] nth_map [of i b fst]
    by (cases "sensitiveKey (fst (a ! i))") (auto simp: clean_value_def changes_def)
  have vals: "map (\<lambda>(k, v). (k, clean_value patterns k v)) a = map (\<lambda>(k, v). (k, clean_value patterns k v)) b"
    using same len by (intro nth_equalityI) (auto simp: split_def, metis+)
  have flags: "map (\<lambda>(k, v). (k, changes patterns k v)) a = map (\<lambda>(k, v). (k, changes patterns k v)) b"
    using same len by (intro nth_equalityI) (auto simp: split_def, metis+)
  have paths: "map (\<lambda>(k, v). attribute_path k) (filter (\<lambda>(k, v). changes patterns k v) c)
      = map (\<lambda>(k, r). attribute_path k) (filter snd (map (\<lambda>(k, v). (k, changes patterns k v)) c))" for c
    by (induction c) auto
  have "fst (Sanitize a version patterns) = fst (Sanitize b version patterns)"
    using vals by (simp add: Sanitize_attributes)
  moreover have "snd (Sanitize a version patterns) = snd (Sanitize b version patterns)"
    using flags by (simp add: Sanitize_receipt paths)
  ultimately show ?thesis by (simp add: prod_eq_iff)
qed

text \<open>
  The value of a sensitive attribute never influences what is stored: two inputs with the
  same keys that differ only in the values of sensitive keys give the same attributes and
  the same receipt.
\<close>

theorem sanitize_hides_sensitive_values:
  assumes "map fst a = map fst b"
    and "\<And>i. i < length a \<Longrightarrow> \<not> sensitiveKey (fst (a ! i)) \<Longrightarrow> snd (a ! i) = snd (b ! i)"
  shows "Sanitize a version patterns = Sanitize b version patterns"
  using assms by (rule sanitize_same_values)

lemma sanitize_hides_sensitive_values_witness:
  "Sanitize [(''cookie'', ''a''), (''n'', ''1'')] ''v1'' []
     = Sanitize [(''cookie'', ''secret-session''), (''n'', ''1'')] ''v1'' []"
proof (rule sanitize_hides_sensitive_values)
  fix i assume i: "i < length [(''cookie'', ''a''), (''n'', ''1'')]"
    and "\<not> sensitiveKey (fst ([(''cookie'', ''a''), (''n'', ''1'')] ! i))"
  moreover have "sensitiveKey ''cookie''" by code_simp
  ultimately show "snd ([(''cookie'', ''a''), (''n'', ''1'')] ! i)
      = snd ([(''cookie'', ''secret-session''), (''n'', ''1'')] ! i)"
    by (cases i) auto
qed simp

text \<open>
  The receipt carries the policy version (the default \<^verbatim>\<open>v1\<close> for an empty one) and names
  exactly the attributes that were redacted; every attribute it does not name is stored
  unchanged, and no attribute is added or lost.
\<close>

theorem sanitize_receipt:
  assumes "go_map attributes"
  shows "set (RedactedPaths (snd (Sanitize attributes version patterns)))
           = {attribute_path k |k v. map_of attributes k = Some v \<and> changes patterns k v} \<and>
    PolicyVersion (snd (Sanitize attributes version patterns))
           = (if version = [] then ''v1'' else version) \<and>
    dom (map_of (fst (Sanitize attributes version patterns))) = dom (map_of attributes) \<and>
    (\<forall>k. attribute_path k \<notin> set (RedactedPaths (snd (Sanitize attributes version patterns)))
       \<longrightarrow> map_of (fst (Sanitize attributes version patterns)) k = map_of attributes k)"
proof (intro conjI allI impI)
  show paths: "set (RedactedPaths (snd (Sanitize attributes version patterns)))
           = {attribute_path k |k v. map_of attributes k = Some v \<and> changes patterns k v}"
    using assms by (force simp: Sanitize_receipt go_map_def keys_of_def)
  show "PolicyVersion (snd (Sanitize attributes version patterns))
           = (if version = [] then ''v1'' else version)"
    by (simp add: Sanitize_receipt DefaultPolicyVersion_def)
  show "dom (map_of (fst (Sanitize attributes version patterns))) = dom (map_of attributes)"
    using assms by (auto simp: map_of_Sanitize)
  show "map_of (fst (Sanitize attributes version patterns)) k = map_of attributes k"
    if "attribute_path k \<notin> set (RedactedPaths (snd (Sanitize attributes version patterns)))" for k
    using that assms unfolding paths
    by (cases "map_of attributes k") (auto simp: map_of_Sanitize unchanged_clean_value)
qed

lemma sanitize_receipt_witness:
  "go_map sample_attributes \<and>
   map_of (fst (Sanitize sample_attributes ''v2'' [account_pattern])) ''status'' = Some ''ok''"
proof -
  have "attribute_path ''status'' \<notin> set (RedactedPaths (snd (Sanitize sample_attributes ''v2'' [account_pattern])))"
    by (simp add: sample_sanitized attribute_path_def)
  then have "map_of (fst (Sanitize sample_attributes ''v2'' [account_pattern])) ''status''
      = map_of sample_attributes ''status''"
    using sanitize_receipt [OF sample_attributes_go_map, of "''v2''" "[account_pattern]"] by blast
  then show ?thesis using sample_attributes_go_map by (simp add: sample_attributes_def)
qed

text \<open>
  A key that is sensitive stays sensitive with anything before and after it, in any letter
  case, and with underscores for dashes.
\<close>

theorem sensitive_key_variants:
  assumes "sensitiveKey k" and "ascii k"
  shows "sensitiveKey (u @ k @ v) \<and> sensitiveKey (map lower_byte k) \<and>
    sensitiveKey (replace_byte (CHR ''-'') (CHR ''_'') k)"
proof (intro conjI)
  let ?n = "replace_byte (CHR ''_'') (CHR ''-'')"
  obtain m where m: "m \<in> set sensitive_markers" "contains (to_lower (?n k)) m"
    using assms(1) by (auto simp: sensitiveKey_markers)
  have asc: "ascii (?n k)" using assms(2) by (rule ascii_replace_byte) (simp add: byte_of_def)
  have "k \<noteq> []" using m by (auto simp: replace_byte_def sensitive_markers_def)
  then have "contains (to_lower (?n u @ ?n k @ ?n v)) m"
    by (intro contains_lower_infix asc m(2)) (simp add: replace_byte_def)
  then show "sensitiveKey (u @ k @ v)"
    using m(1) by (auto simp: sensitiveKey_markers replace_byte_def)
  have "to_lower (?n (map lower_byte k)) = to_lower (?n k)"
    using assms(2) by (rule to_lower_lowered)
  then show "sensitiveKey (map lower_byte k)"
    using m by (auto simp: sensitiveKey_markers)
  have "?n (replace_byte (CHR ''-'') (CHR ''_'') k) = ?n k"
    by (simp add: replace_byte_def)
  then show "sensitiveKey (replace_byte (CHR ''-'') (CHR ''_'') k)"
    using assms(1) by (simp add: sensitiveKey_def)
qed

lemma sensitive_key_variants_witness:
  "sensitiveKey (''x.'' @ ''API_KEY'' @ ''.id'') \<and> sensitiveKey (map lower_byte ''API_KEY'')"
proof -
  have "sensitiveKey ''API_KEY''" by code_simp
  moreover have "ascii ''API_KEY''" by (simp add: byte_of_def)
  ultimately show ?thesis
    using sensitive_key_variants [of "''API_KEY''" "''x.''" "''.id''"] by blast
qed

text \<open>
  A gap of the expression: it ends with a word boundary, and an underscore is a word
  character, so an address directly followed by one is stored as it came.
\<close>

theorem email_gap_underscore:
  "Sanitize [(''note'', ''person@example.test_x'')] ''v1'' [] =
     ([(''note'', ''person@example.test_x'')], \<lparr>PolicyVersion = ''v1'', RedactedPaths = []\<rparr>)"
  by code_simp

end
