(* ===== verification/Hashes.thy ===== *)
theory Hashes
  imports GoText
begin

text \<open>
  The two hash functions of Go's standard library that the program calls, on 32-bit words
  with wrap-around: \<^verbatim>\<open>hash/fnv\<close>'s 32-bit FNV-1a, which decides the healthy sample, and
  \<^verbatim>\<open>crypto/sha256\<close>, which API-key digests, log event ids and dead-letter digests use.
\<close>

type_synonym u32 = "32 word"

subsection \<open>\<^verbatim>\<open>fnv.New32a\<close>\<close>

definition fnv_step :: "u32 \<Rightarrow> 8 word \<Rightarrow> u32" where
  "fnv_step h b = (h XOR ucast b) * 16777619"

definition fnv32a :: "string \<Rightarrow> u32" where
  "fnv32a s = foldl fnv_step 2166136261 (bytes_of s)"

subsection \<open>\<^verbatim>\<open>sha256.Sum256\<close>\<close>

definition rotr :: "nat \<Rightarrow> u32 \<Rightarrow> u32" where
  "rotr n x = drop_bit n x OR push_bit (32 - n) x"

definition sha_constants :: "u32 list" where
  "sha_constants =
     [0x428A2F98, 0x71374491, 0xB5C0FBCF, 0xE9B5DBA5, 0x3956C25B, 0x59F111F1,
      0x923F82A4, 0xAB1C5ED5, 0xD807AA98, 0x12835B01, 0x243185BE, 0x550C7DC3,
      0x72BE5D74, 0x80DEB1FE, 0x9BDC06A7, 0xC19BF174, 0xE49B69C1, 0xEFBE4786,
      0x0FC19DC6, 0x240CA1CC, 0x2DE92C6F, 0x4A7484AA, 0x5CB0A9DC, 0x76F988DA,
      0x983E5152, 0xA831C66D, 0xB00327C8, 0xBF597FC7, 0xC6E00BF3, 0xD5A79147,
      0x06CA6351, 0x14292967, 0x27B70A85, 0x2E1B2138, 0x4D2C6DFC, 0x53380D13,
      0x650A7354, 0x766A0ABB, 0x81C2C92E, 0x92722C85, 0xA2BFE8A1, 0xA81A664B,
      0xC24B8B70, 0xC76C51A3, 0xD192E819, 0xD6990624, 0xF40E3585, 0x106AA070,
      0x19A4C116, 0x1E376C08, 0x2748774C, 0x34B0BCB5, 0x391C0CB3, 0x4ED8AA4A,
      0x5B9CCA4F, 0x682E6FF3, 0x748F82EE, 0x78A5636F, 0x84C87814, 0x8CC70208,
      0x90BEFFFA, 0xA4506CEB, 0xBEF9A3F7, 0xC67178F2]"

definition sha_initial :: "u32 list" where
  "sha_initial =
     [0x6A09E667, 0xBB67AE85, 0x3C6EF372, 0xA54FF53A, 0x510E527F, 0x9B05688C,
      0x1F83D9AB, 0x5BE0CD19]"

definition word_bytes :: "nat \<Rightarrow> nat \<Rightarrow> bytes" where
  "word_bytes n x = map (\<lambda>i. of_nat (x div 256 ^ (n - 1 - i))) [0..<n]"

definition sha_pad :: "bytes \<Rightarrow> bytes" where
  "sha_pad m =
     m @ [0x80] @ replicate ((119 - length m mod 64) mod 64) 0 @ word_bytes 8 (8 * length m)"

fun be_words :: "bytes \<Rightarrow> u32 list" where
  "be_words (a # b # c # d # r) =
     (push_bit 24 (ucast a) OR push_bit 16 (ucast b) OR push_bit 8 (ucast c) OR ucast d) # be_words r"
| "be_words _ = []"

text \<open>The message schedule, newest word first.\<close>

fun sha_schedule :: "nat \<Rightarrow> u32 list \<Rightarrow> u32 list" where
  "sha_schedule 0 w = w"
| "sha_schedule (Suc n) w =
     (let s0 = w ! 14; s1 = w ! 1
      in sha_schedule n
        ((w ! 15 + (rotr 7 s0 XOR rotr 18 s0 XOR drop_bit 3 s0) + w ! 6
          + (rotr 17 s1 XOR rotr 19 s1 XOR drop_bit 10 s1)) # w))"

fun sha_round :: "u32 list \<Rightarrow> u32 \<times> u32 \<Rightarrow> u32 list" where
  "sha_round [a, b, c, d, e, f, g, h] (k, w) =
     (let t1 = h + (rotr 6 e XOR rotr 11 e XOR rotr 25 e) + ((e AND f) XOR (NOT e AND g)) + k + w;
          t2 = (rotr 2 a XOR rotr 13 a XOR rotr 22 a) + ((a AND b) XOR (a AND c) XOR (b AND c))
      in [t1 + t2, a, b, c, d + t1, e, f, g])"
| "sha_round s _ = s"

definition sha_block :: "u32 list \<Rightarrow> u32 list \<Rightarrow> u32 list" where
  "sha_block s w =
     map2 (+) s (foldl sha_round s (zip sha_constants (rev (sha_schedule 48 (rev w)))))"

function sha_blocks :: "u32 list \<Rightarrow> u32 list \<Rightarrow> u32 list" where
  "sha_blocks s w =
     (if w = [] then s else sha_blocks (sha_block s (take 16 w)) (drop 16 w))"
  by pat_completeness auto
termination
  by (relation "measure (\<lambda>(s, w). length w)") auto

definition sha256 :: "bytes \<Rightarrow> bytes" where
  "sha256 m = concat (map (\<lambda>w. word_bytes 4 (unat w)) (sha_blocks sha_initial (be_words (sha_pad m))))"

declare sha_blocks.simps [simp del]

subsection \<open>The size of a digest\<close>

lemma length_word_bytes [simp]: "length (word_bytes n x) = n"
  by (simp add: word_bytes_def)

lemma length_sha_round [simp]: "length (sha_round s kw) = length s"
  by (induction s kw rule: sha_round.induct) (simp_all add: Let_def)

lemma length_sha_rounds [simp]: "length (foldl sha_round s kws) = length s"
  by (induction kws arbitrary: s) simp_all

lemma length_sha_block [simp]: "length (sha_block s w) = length s"
  by (simp add: sha_block_def)

lemma length_sha_blocks [simp]: "length (sha_blocks s w) = length s"
proof (induction s w rule: sha_blocks.induct)
  case (1 s w)
  then show ?case by (subst sha_blocks.simps) simp
qed

lemma length_sha256 [simp]: "length (sha256 m) = 32"
  by (simp add: sha256_def length_concat comp_def sum_list_triv sha_initial_def)

end
