(* ===== verification/Ingest.thy ===== *)
theory Ingest
  imports Redaction Hashes
begin

text \<open>
  \<^verbatim>\<open>internal/ingest/gateway.go\<close> without its HTTP handler: events and envelopes, the bounds an
  event must meet, the redaction policy of a request, and \<open>acceptEvents\<close>, which sanitizes a
  whole request before anything durable is called.

  The interfaces of the Go code (authenticator, publisher, stager, policy resolver) are
  fields of \<open>gateway\<close> that hold programs over the state \<open>'s\<close> of whatever implements them; a
  nil interface is \<^const>\<open>None\<close>. Compiling a regular expression is the standard library's:
  \<open>compile\<close> gives the compiled expression, or \<^const>\<open>None\<close> for a syntax error.
\<close>

subsection \<open>Events and envelopes\<close>

definition CurrentEnvelopeVersion :: int where "CurrentEnvelopeVersion = 2"
definition PreviousEnvelopeVersion :: int where "PreviousEnvelopeVersion = 1"
definition maxBodyBytes :: nat where "maxBodyBytes = 1048576"
definition maxAttributes :: nat where "maxAttributes = 64"
definition maxStringBytes :: nat where "maxStringBytes = 4096"
definition maxSpans :: nat where "maxSpans = 200"

lemmas ingest_bounds = maxBodyBytes_def maxAttributes_def maxStringBytes_def maxSpans_def

record event =
  EventID :: string
  Signal :: string
  TraceID :: string
  SpanID :: string
  ParentSpanID :: string
  Name :: string
  Attributes :: attrs

record envelope =
  SchemaVersion :: int
  TenantID :: string
  Event :: event
  Policy :: receipt
  EventKey :: string

definition valid :: "event \<Rightarrow> bool" where
  "valid event =
     (if EventID event = [] \<or> Name event = [] \<or> length (Attributes event) > maxAttributes
         \<or> length (EventID event) > 256 \<or> length (TraceID event) > 128
         \<or> length (SpanID event) > 128 \<or> length (ParentSpanID event) > 128
         \<or> length (Name event) > 512
      then False
      else if Signal event = [] \<or> Signal event = ''trace''
      then (if TraceID event = [] \<or> SpanID event = [] then False
            else list_all (\<lambda>(key, val). \<not> (key = [] \<or> length key > 256 \<or> length val > maxStringBytes))
                   (Attributes event))
      else if Signal event \<noteq> ''log'' then False
      else list_all (\<lambda>(key, val). \<not> (key = [] \<or> length key > 256 \<or> length val > maxStringBytes))
             (Attributes event))"

subsection \<open>API keys\<close>

definition digest :: "string \<Rightarrow> string" where
  "digest val = hex_encode (sha256 (bytes_of val))"

text \<open>\<^verbatim>\<open>APIKeyAuthenticator\<close>: the digest of each tenant's key; a lookup scans the map.\<close>

definition NewAPIKeyAuthenticator :: "(string \<times> string) list \<Rightarrow> (string \<times> string) list" where
  "NewAPIKeyAuthenticator keys = map (\<lambda>(tenant, key). (tenant, digest key)) keys"

definition authenticate_key :: "(string \<times> string) list \<Rightarrow> string \<Rightarrow> string option" where
  "authenticate_key tenantByDigest key =
     map_option fst (find (\<lambda>(tenant, stored). digest key = stored) tenantByDigest)"

subsection \<open>The gateway\<close>

datatype 's stager =
    Stage "envelope \<Rightarrow> ('s, go_error, unit) program"
  | StageBatch "envelope list \<Rightarrow> ('s, go_error, unit) program"

record 's gateway =
  Authenticator :: "(string \<Rightarrow> ('s, go_error, string option) program) option"
  Publisher :: "(envelope \<Rightarrow> ('s, go_error, unit) program) option"
  Stager :: "'s stager option"
  GatewayPolicyVersion :: string
  Patterns :: "regexp list"
  PolicyResolver :: "(string \<Rightarrow> ('s, go_error, string \<times> string list \<times> bool) program) option"

definition add_expression ::
  "(string \<Rightarrow> regexp option) \<Rightarrow> string \<Rightarrow> regexp list \<Rightarrow> go_error + regexp list" where
  "add_expression compile expression patterns =
     (if length expression = 0 \<or> length expression > 512
      then Inl (Errorf ''redaction policy expression invalid'')
      else case compile expression of
        None \<Rightarrow> Inl (Errorf ''redaction policy expression invalid'')
      | Some compiled \<Rightarrow> Inr (patterns @ [compiled]))"

definition policy ::
  "(string \<Rightarrow> regexp option) \<Rightarrow> 's gateway \<Rightarrow> string \<Rightarrow> ('s, go_error, string \<times> regexp list) program" where
  "policy compile g tenant =
     (case PolicyResolver g of
        None \<Rightarrow> ret (GatewayPolicyVersion g, Patterns g)
      | Some resolve \<Rightarrow>
          and_then (resolve tenant) (\<lambda>(resolvedVersion, expressions, found).
            if \<not> found then ret (GatewayPolicyVersion g, Patterns g)
            else if resolvedVersion = [] then fail_with (Errorf ''redaction policy version missing'')
            else case fold_or_fail (add_expression compile) expressions (Patterns g) of
              Inl err \<Rightarrow> fail_with err
            | Inr patterns \<Rightarrow> ret (resolvedVersion, patterns)))"

definition make_envelope :: "string \<Rightarrow> string \<Rightarrow> regexp list \<Rightarrow> event \<Rightarrow> envelope" where
  "make_envelope tenant policyVersion patterns event =
     (let (attributes, receipt) = Sanitize (Attributes event) policyVersion patterns
      in \<lparr>SchemaVersion = CurrentEnvelopeVersion, TenantID = tenant,
          Event = event\<lparr>Attributes := attributes\<rparr>, Policy = receipt,
          EventKey = tenant @ '':'' @ EventID event\<rparr>)"

definition add_envelope ::
  "string \<Rightarrow> string \<Rightarrow> regexp list \<Rightarrow> event \<Rightarrow> envelope list \<Rightarrow> go_error + envelope list" where
  "add_envelope tenant policyVersion patterns event envelopes =
     (if \<not> valid event then Inl ErrInvalidOTLP
      else Inr (envelopes @ [make_envelope tenant policyVersion patterns event]))"

definition deliver :: "'s gateway \<Rightarrow> envelope list \<Rightarrow> ('s, go_error, unit) program" where
  "deliver g envelopes =
     (case Stager g of
        Some (StageBatch batch) \<Rightarrow> batch envelopes
      | Some (Stage stage) \<Rightarrow> each stage envelopes
      | None \<Rightarrow>
          (case Publisher g of
             Some publish \<Rightarrow> each publish envelopes
           | None \<Rightarrow> each (\<lambda>_. fail_with NilPointer) envelopes))"

definition acceptEvents ::
  "(string \<Rightarrow> regexp option) \<Rightarrow> 's gateway \<Rightarrow> string \<Rightarrow> event list \<Rightarrow> ('s, go_error, unit) program" where
  "acceptEvents compile g tenant events =
     and_then (policy compile g tenant) (\<lambda>(policyVersion, patterns).
       case fold_or_fail (add_envelope tenant policyVersion patterns) events [] of
         Inl err \<Rightarrow> fail_with err
       | Inr envelopes \<Rightarrow> deliver g envelopes)"

definition acceptEvent ::
  "(string \<Rightarrow> regexp option) \<Rightarrow> 's gateway \<Rightarrow> string \<Rightarrow> event \<Rightarrow> ('s, go_error, unit) program" where
  "acceptEvent compile g tenant event = acceptEvents compile g tenant [event]"

text \<open>\<^verbatim>\<open>MemoryPublisher\<close>: what was published, and the error to give instead.\<close>

record memory_publisher =
  Envelopes :: "envelope list"
  PublishErr :: "go_error option"

definition memory_publish :: "envelope \<Rightarrow> (memory_publisher, go_error, unit) program" where
  "memory_publish envelope p =
     (case PublishErr p of
        Some err \<Rightarrow> (Inl err, p)
      | None \<Rightarrow> (Inr (), p\<lparr>Envelopes := Envelopes p @ [envelope]\<rparr>))"

subsection \<open>How a request runs\<close>

lemma add_envelopes:
  "fold_or_fail (add_envelope tenant version patterns) events acc =
     (if list_all valid events then Inr (acc @ map (make_envelope tenant version patterns) events)
      else Inl ErrInvalidOTLP)"
  by (induction events arbitrary: acc) (simp_all add: add_envelope_def)

lemma acceptEvents_run:
  assumes "policy compile g tenant s = (Inr (version, patterns), t)"
  shows "acceptEvents compile g tenant events s =
     (if list_all valid events
      then deliver g (map (make_envelope tenant version patterns) events) t
      else (Inl ErrInvalidOTLP, t))"
  using assms by (simp add: acceptEvents_def and_then_Inr add_envelopes)

lemma acceptEvents_no_policy:
  assumes "policy compile g tenant s = (Inl err, t)"
  shows "acceptEvents compile g tenant events s = (Inl err, t)"
  using assms by (simp add: acceptEvents_def and_then_Inl)

lemma make_envelope_simps [simp]:
  "TenantID (make_envelope tenant version patterns event) = tenant"
  "SchemaVersion (make_envelope tenant version patterns event) = CurrentEnvelopeVersion"
  "EventKey (make_envelope tenant version patterns event) = tenant @ '':'' @ EventID event"
  "Policy (make_envelope tenant version patterns event) = snd (Sanitize (Attributes event) version patterns)"
  "Event (make_envelope tenant version patterns event)
     = event\<lparr>Attributes := fst (Sanitize (Attributes event) version patterns)\<rparr>"
  by (simp_all add: make_envelope_def split_def Let_def)

definition usable_expression :: "(string \<Rightarrow> regexp option) \<Rightarrow> string \<Rightarrow> bool" where
  "usable_expression compile expression =
     (0 < length expression \<and> length expression \<le> 512 \<and> compile expression \<noteq> None)"

lemma add_expressions:
  "fold_or_fail (add_expression compile) expressions patterns =
     (if list_all (usable_expression compile) expressions
      then Inr (patterns @ map (\<lambda>e. the (compile e)) expressions)
      else Inl (Errorf ''redaction policy expression invalid''))"
  by (induction expressions arbitrary: patterns)
     (auto simp: add_expression_def usable_expression_def split: option.splits)

lemma policy_prefix:
  assumes "policy compile g tenant s = (Inr (version, patterns), t)"
  shows "prefix (Patterns g) patterns"
  using assms
  by (auto simp: policy_def and_then_def add_expressions
      split: option.splits sum.splits prod.splits if_splits)

subsection \<open>What is stored of a request\<close>

text \<open>
  Events that differ in nothing but the values of sensitive attributes. The bound on the length of a value is checked
  before redaction, so whether a value meets it is not hidden.
\<close>

definition same_but_secrets :: "event \<Rightarrow> event \<Rightarrow> bool" where
  "same_but_secrets e e' =
     (e\<lparr>Attributes := Attributes e'\<rparr> = e' \<and> map fst (Attributes e) = map fst (Attributes e') \<and>
      (\<forall>i < length (Attributes e).
         (sensitiveKey (fst (Attributes e ! i)) \<or> snd (Attributes e ! i) = snd (Attributes e' ! i)) \<and>
         (length (snd (Attributes e ! i)) > maxStringBytes \<longleftrightarrow> length (snd (Attributes e' ! i)) > maxStringBytes)))"

lemma same_but_secrets_envelope:
  assumes "same_but_secrets e e'"
  shows "make_envelope tenant version patterns e = make_envelope tenant version patterns e'"
proof -
  have "Sanitize (Attributes e) version patterns = Sanitize (Attributes e') version patterns"
    using assms by (intro sanitize_same_values) (auto simp: same_but_secrets_def)
  moreover have "e\<lparr>Attributes := x\<rparr> = e'\<lparr>Attributes := x\<rparr>" for x
    using assms by (auto simp: same_but_secrets_def intro: event.equality dest: arg_cong [where f = "Attributes_update (\<lambda>_. x)"])
  moreover have "EventID e = EventID e'"
    using assms by (metis same_but_secrets_def event.select_convs(1) event.surjective event.update_convs(7))
  ultimately show ?thesis by (simp add: make_envelope_def)
qed

lemma list_all_pointwise:
  assumes "length xs = length ys" and "\<And>i. i < length xs \<Longrightarrow> P (xs ! i) = P (ys ! i)"
  shows "list_all P xs = list_all P ys"
  using assms by (simp add: list_all_length)

lemma same_but_secrets_valid:
  assumes "same_but_secrets e e'"
  shows "valid e = valid e'"
proof -
  let ?ok = "\<lambda>(key, val). \<not> (key = [] \<or> length key > 256 \<or> length val > maxStringBytes)"
  have e': "e' = e\<lparr>Attributes := Attributes e'\<rparr>" and keys: "map fst (Attributes e) = map fst (Attributes e')"
    using assms unfolding same_but_secrets_def by (simp_all only: eq_commute)
  have len: "length (Attributes e) = length (Attributes e')" using keys by (rule map_eq_imp_length_eq)
  have "list_all ?ok (Attributes e) = list_all ?ok (Attributes e')"
  proof (rule list_all_pointwise [OF len])
    fix i assume i: "i < length (Attributes e)"
    then have "fst (Attributes e ! i) = fst (Attributes e' ! i)" using keys len by (metis nth_map)
    then show "?ok (Attributes e ! i) = ?ok (Attributes e' ! i)"
      using assms i by (simp add: same_but_secrets_def split_def)
  qed
  then show ?thesis using len by (subst e') (simp add: valid_def)
qed

definition checkout_event :: "string \<Rightarrow> event" where
  "checkout_event secret =
     \<lparr>EventID = ''evt-1'', Signal = '''', TraceID = ''trace-1'', SpanID = ''span-1'', ParentSpanID = '''',
      Name = ''checkout'', Attributes = [(''authorization'', secret), (''status'', ''ok'')]\<rparr>"

definition memory_gateway :: "memory_publisher gateway" where
  "memory_gateway = \<lparr>Authenticator = None, Publisher = Some memory_publish, Stager = None,
     GatewayPolicyVersion = ''v1'', Patterns = [], PolicyResolver = None\<rparr>"

lemma valid_checkout_event: "length secret \<le> 4096 \<Longrightarrow> valid (checkout_event secret)"
  by (simp add: valid_def checkout_event_def ingest_bounds)

text \<open>
  C4. Secrets stop at the gateway: two requests that differ only in the values of sensitive attributes, with the same
  of these values within the bound of 4096 bytes, do the same to every store, broker and policy source behind the
  gateway and return the same result, whether they are accepted or rejected.
\<close>

theorem gateway_hides_secrets:
  assumes "list_all2 same_but_secrets events events'"
  shows "acceptEvents compile g tenant events s = acceptEvents compile g tenant events' s"
proof -
  have same: "map (make_envelope tenant version patterns) events
      = map (make_envelope tenant version patterns) events'" for version patterns
    using assms by (induction rule: list_all2_induct) (simp_all add: same_but_secrets_envelope)
  have valid: "list_all valid events = list_all valid events'"
    using assms by (induction rule: list_all2_induct) (simp_all add: same_but_secrets_valid)
  show ?thesis
  proof (cases "policy compile g tenant s")
    case (Pair r t)
    with valid same show ?thesis
      by (cases r) (auto simp: acceptEvents_run acceptEvents_no_policy)
  qed
qed

lemma gateway_hides_secrets_witness:
  "acceptEvents (\<lambda>_. None) memory_gateway ''tenant-a'' [checkout_event ''Bearer a'']
     = acceptEvents (\<lambda>_. None) memory_gateway ''tenant-a'' [checkout_event ''Bearer other'']"
proof (rule ext, rule gateway_hides_secrets)
  have "sensitiveKey ''authorization''" by code_simp
  then show "list_all2 same_but_secrets [checkout_event ''Bearer a''] [checkout_event ''Bearer other'']"
    by (auto simp: same_but_secrets_def checkout_event_def nth_Cons ingest_bounds split: nat.split)
qed

text \<open>
  C14. All or nothing: the whole request is checked and sanitized before anything durable is
  called. One invalid event rejects it with nothing delivered; otherwise one envelope per event
  is delivered, in order, under the caller's tenant and with the attributes sanitized.
\<close>

theorem acceptEvents_all_or_nothing:
  assumes "policy compile g tenant s = (Inr (version, patterns), t)"
  shows "acceptEvents compile g tenant events s =
     (if list_ex (\<lambda>event. \<not> valid event) events then (Inl ErrInvalidOTLP, t)
      else deliver g
        (map (\<lambda>event. \<lparr>SchemaVersion = 2, TenantID = tenant,
            Event = event\<lparr>Attributes := fst (Sanitize (Attributes event) version patterns)\<rparr>,
            Policy = snd (Sanitize (Attributes event) version patterns),
            EventKey = tenant @ '':'' @ EventID event\<rparr>) events) t)"
proof -
  have "make_envelope tenant version patterns = (\<lambda>event. \<lparr>SchemaVersion = 2, TenantID = tenant,
      Event = event\<lparr>Attributes := fst (Sanitize (Attributes event) version patterns)\<rparr>,
      Policy = snd (Sanitize (Attributes event) version patterns),
      EventKey = tenant @ '':'' @ EventID event\<rparr>)"
    by (simp add: fun_eq_iff make_envelope_def split_def Let_def CurrentEnvelopeVersion_def)
  then show ?thesis
    using acceptEvents_run [OF assms, of events] by (auto simp: list_all_iff list_ex_iff)
qed

lemma acceptEvents_all_or_nothing_witness:
  "acceptEvents (\<lambda>_. None) memory_gateway ''tenant-a''
     [checkout_event ''Bearer a'', (checkout_event ''b'')\<lparr>SpanID := ''''\<rparr>] \<lparr>Envelopes = [], PublishErr = None\<rparr>
   = (Inl ErrInvalidOTLP, \<lparr>Envelopes = [], PublishErr = None\<rparr>)"
proof -
  have "policy (\<lambda>_. None) memory_gateway ''tenant-a'' \<lparr>Envelopes = [], PublishErr = None\<rparr>
      = (Inr (''v1'', []), \<lparr>Envelopes = [], PublishErr = None\<rparr>)"
    by (simp add: policy_def memory_gateway_def)
  from acceptEvents_all_or_nothing [OF this] show ?thesis
    by (simp add: checkout_event_def valid_def)
qed

text \<open>
  C19. Redaction policies only add to the deployment's expressions and fail closed: a policy that
  cannot be read, has no version or holds an unusable expression rejects the request before
  anything is delivered; a usable one extends the deployment's expressions, never replaces them.
\<close>

theorem policy_fails_closed:
  assumes "PolicyResolver g = Some resolve" and "resolve tenant s = (r, t)"
  shows "acceptEvents compile g tenant events s =
     (case r of
        Inl err \<Rightarrow> (Inl err, t)
      | Inr (version, expressions, found) \<Rightarrow>
          if found \<and> version = [] then (Inl (Errorf ''redaction policy version missing''), t)
          else if found \<and> \<not> list_all (usable_expression compile) expressions
          then (Inl (Errorf ''redaction policy expression invalid''), t)
          else if \<not> list_all valid events then (Inl ErrInvalidOTLP, t)
          else deliver g (map (make_envelope tenant (if found then version else GatewayPolicyVersion g)
                 (Patterns g @ (if found then map (\<lambda>e. the (compile e)) expressions else []))) events) t)"
proof (cases r)
  case (Inl err)
  with assms show ?thesis
    by (simp add: policy_def acceptEvents_no_policy and_then_Inl)
next
  case (Inr p)
  obtain version expressions found where p: "p = (version, expressions, found)" by (cases p) auto
  have run: "policy compile g tenant s =
     (if \<not> found then (Inr (GatewayPolicyVersion g, Patterns g), t)
      else if version = [] then (Inl (Errorf ''redaction policy version missing''), t)
      else if list_all (usable_expression compile) expressions
      then (Inr (version, Patterns g @ map (\<lambda>e. the (compile e)) expressions), t)
      else (Inl (Errorf ''redaction policy expression invalid''), t))"
    using assms Inr p by (simp add: policy_def and_then_Inr add_expressions)
  show ?thesis
    using run by (auto simp: Inr p acceptEvents_run acceptEvents_no_policy split: if_splits)
qed

lemma policy_fails_closed_witness:
  "acceptEvents (\<lambda>_. None)
     (memory_gateway\<lparr>PolicyResolver := Some (\<lambda>tenant. ret (''v2'', [''[''], True))\<rparr>)
     ''tenant-a'' [checkout_event ''Bearer a''] \<lparr>Envelopes = [], PublishErr = None\<rparr>
   = (Inl (Errorf ''redaction policy expression invalid''), \<lparr>Envelopes = [], PublishErr = None\<rparr>)"
  by (subst policy_fails_closed [where resolve = "\<lambda>tenant. ret (''v2'', [''[''], True)"])
     (auto simp: usable_expression_def)

subsection \<open>Keys\<close>

lemma scoped_key_inject:
  assumes "c \<notin> set a" and "c \<notin> set b" and "a @ c # x = b @ c # y"
  shows "a = b \<and> x = y"
  using assms
proof (induction a arbitrary: b)
  case Nil
  then show ?case by (cases b) auto
next
  case (Cons d a)
  then show ?case by (cases b) auto
qed

text \<open>
  Event keys separate tenants: for tenant ids without a colon, two envelopes have the same
  key only if they are of the same tenant and the same event id.
\<close>

theorem event_keys_scoped:
  assumes "CHR '':'' \<notin> set tenant" and "CHR '':'' \<notin> set tenant'"
  shows "EventKey (make_envelope tenant version patterns e) = EventKey (make_envelope tenant' version' patterns' e')
     \<longleftrightarrow> tenant = tenant' \<and> EventID e = EventID e'"
  using scoped_key_inject [OF assms, of "EventID e" "EventID e'"] by auto

lemma event_keys_scoped_witness:
  "EventKey (make_envelope ''tenant-a'' ''v1'' [] (checkout_event ''x''))
     \<noteq> EventKey (make_envelope ''tenant-b'' ''v1'' [] (checkout_event ''x''))"
  by (subst event_keys_scoped) (simp_all add: checkout_event_def)

text \<open>
  Tenant ids are not checked for colons, and then keys collide: an event of one tenant takes
  the key of another tenant's event, and with it the other event's place in every table that
  deduplicates by key.
\<close>

theorem event_keys_collide:
  "\<exists>tenant tenant' e e'. tenant \<noteq> tenant' \<and> valid e \<and> valid e' \<and>
     EventKey (make_envelope tenant ''v1'' [] e) = EventKey (make_envelope tenant' ''v1'' [] e')"
proof (intro exI conjI)
  let ?e = "checkout_event ''x''"
  show "''a'' \<noteq> ''a:b''" by simp
  show "valid (?e\<lparr>EventID := ''b:c''\<rparr>)" "valid (?e\<lparr>EventID := ''c''\<rparr>)"
    by (simp_all add: valid_def checkout_event_def ingest_bounds)
  show "EventKey (make_envelope ''a'' ''v1'' [] (?e\<lparr>EventID := ''b:c''\<rparr>))
      = EventKey (make_envelope ''a:b'' ''v1'' [] (?e\<lparr>EventID := ''c''\<rparr>))"
    by simp
qed

lemma authenticate_key_None:
  "authenticate_key (NewAPIKeyAuthenticator keys) key = None
     \<longleftrightarrow> (\<forall>(tenant, k) \<in> set keys. digest k \<noteq> digest key)"
  by (auto simp: authenticate_key_def NewAPIKeyAuthenticator_def find_None_iff)

lemma authenticate_key_Some:
  assumes "authenticate_key (NewAPIKeyAuthenticator keys) key = Some tenant"
  shows "\<exists>k. (tenant, k) \<in> set keys \<and> digest k = digest key"
proof -
  obtain stored where "find (\<lambda>(tenant, stored). digest key = stored) (NewAPIKeyAuthenticator keys)
      = Some (tenant, stored)"
    using assms by (auto simp: authenticate_key_def)
  then have "(tenant, stored) \<in> set (NewAPIKeyAuthenticator keys)" "digest key = stored"
    by (auto simp: find_Some_iff in_set_conv_nth)
  then show ?thesis by (auto simp: NewAPIKeyAuthenticator_def)
qed

text \<open>
  API keys: the authenticator accepts exactly the keys whose SHA-256 is that of a configured
  key, and gives the tenant that key was configured for; what it keeps of a key is its 64
  hexadecimal digits, never the key.
\<close>

theorem api_key_authentication:
  "(authenticate_key (NewAPIKeyAuthenticator keys) key = None
      \<longleftrightarrow> sha256 (bytes_of key) \<notin> (\<lambda>(tenant, k). sha256 (bytes_of k)) ` set keys) \<and>
   set_option (authenticate_key (NewAPIKeyAuthenticator keys) key)
      \<subseteq> {tenant. \<exists>k. (tenant, k) \<in> set keys \<and> sha256 (bytes_of k) = sha256 (bytes_of key)} \<and>
   map (length \<circ> snd) (NewAPIKeyAuthenticator keys) = replicate (length keys) 64"
proof (intro conjI)
  show "authenticate_key (NewAPIKeyAuthenticator keys) key = None
      \<longleftrightarrow> sha256 (bytes_of key) \<notin> (\<lambda>(tenant, k). sha256 (bytes_of k)) ` set keys"
    by (force simp: authenticate_key_None digest_def hex_encode_inject)
  show "set_option (authenticate_key (NewAPIKeyAuthenticator keys) key)
      \<subseteq> {tenant. \<exists>k. (tenant, k) \<in> set keys \<and> sha256 (bytes_of k) = sha256 (bytes_of key)}"
    using authenticate_key_Some [of keys key] by (auto simp: digest_def)
  show "map (length \<circ> snd) (NewAPIKeyAuthenticator keys) = replicate (length keys) 64"
    by (rule nth_equalityI)
       (simp_all add: NewAPIKeyAuthenticator_def split_def digest_def length_hex_encode)
qed
end
