(* ===== verification/PolicyCache.thy ===== *)
theory PolicyCache
  imports Ingest
begin

text \<open>
  \<^verbatim>\<open>internal/ingest/policy_cache.go\<close>: the cache in front of the tenants' redaction policies.
  The source is a program over its own state \<open>'s\<close>; the clock reading \<open>c.now()\<close> of a call is
  an argument, in nanoseconds.

  A call takes the lock twice, to read the entry and to write it, and holds none while it asks
  the source. \<open>CachedRedactionPolicy\<close> is one whole call; \<open>cache_step\<close> is the same code with
  any number of calls interleaved between their locked parts.
\<close>

subsection \<open>The cache\<close>

record cachedPolicy =
  version_of :: string
  expressions_of :: "string list"
  found_of :: bool
  refreshedAt :: int

type_synonym policies = "string \<Rightarrow> cachedPolicy option"
type_synonym answer = "string \<times> string list \<times> bool"

record 's cached_resolver =
  source_state :: 's
  policies_of :: policies

definition NewCachedPolicyResolver :: "'s \<Rightarrow> int \<Rightarrow> int \<times> 's cached_resolver" where
  "NewCachedPolicyResolver source interval =
     (if interval \<le> 0 then 30 * 1000000000 else interval, \<lparr>source_state = source, policies_of = \<lambda>_. None\<rparr>)"

fun validate_expressions :: "(string \<Rightarrow> regexp option) \<Rightarrow> string list \<Rightarrow> go_error option" where
  "validate_expressions compile [] = None"
| "validate_expressions compile (expression # rest) =
     (if length expression = 0 \<or> length expression > 512
      then Some (Errorf ''redaction policy expression invalid'')
      else if compile expression = None then Some (Errorf ''redaction policy expression invalid'')
      else validate_expressions compile rest)"

definition validatePolicy :: "(string \<Rightarrow> regexp option) \<Rightarrow> answer \<Rightarrow> go_error option" where
  "validatePolicy compile answer =
     (let (version, expressions, found) = answer
      in if \<not> found then None
         else if version = [] then Some (Errorf ''redaction policy version missing'')
         else validate_expressions compile expressions)"

definition answer_of :: "cachedPolicy \<Rightarrow> answer" where
  "answer_of cached = (version_of cached, expressions_of cached, found_of cached)"

definition cache_entry :: "answer \<Rightarrow> int \<Rightarrow> cachedPolicy" where
  "cache_entry answer now =
     (let (version, expressions, found) = answer
      in \<lparr>version_of = version, expressions_of = expressions, found_of = found, refreshedAt = now\<rparr>)"

text \<open>What a call does with the source's answer: the answer to give, and the entry to store.\<close>

definition settle ::
  "(string \<Rightarrow> regexp option) \<Rightarrow> int \<Rightarrow> cachedPolicy option \<Rightarrow> go_error + answer
   \<Rightarrow> (go_error + answer) \<times> cachedPolicy option" where
  "settle compile now cached asked =
     (let checked = (case asked of Inl err \<Rightarrow> Inl err
                     | Inr answer \<Rightarrow> (case validatePolicy compile answer of Some err \<Rightarrow> Inl err | None \<Rightarrow> Inr answer))
      in case checked of
           Inl err \<Rightarrow> (case cached of Some c \<Rightarrow> (Inr (answer_of c), None) | None \<Rightarrow> (Inl err, None))
         | Inr answer \<Rightarrow> (Inr (answer_of (cache_entry answer now)), Some (cache_entry answer now)))"

definition CachedRedactionPolicy ::
  "(string \<Rightarrow> regexp option) \<Rightarrow> int \<Rightarrow> (string \<Rightarrow> ('s, go_error, answer) program) \<Rightarrow> int \<Rightarrow> string
   \<Rightarrow> ('s cached_resolver, go_error, answer) program" where
  "CachedRedactionPolicy compile interval source now tenantID c =
     (let cached = policies_of c tenantID
      in if (case cached of Some entry \<Rightarrow> now - refreshedAt entry < interval | None \<Rightarrow> False)
         then (Inr (answer_of (the cached)), c)
         else let (asked, src) = source tenantID (source_state c);
                  (result, next) = settle compile now cached asked;
                  c = c\<lparr>source_state := src\<rparr>
              in (result, case next of None \<Rightarrow> c
                          | Some entry \<Rightarrow> c\<lparr>policies_of := (policies_of c)(tenantID \<mapsto> entry)\<rparr>))"

text \<open>A sequence of calls for one tenant, at the given times.\<close>

fun ask_at ::
  "(string \<Rightarrow> regexp option) \<Rightarrow> int \<Rightarrow> (string \<Rightarrow> ('s, go_error, answer) program) \<Rightarrow> string \<Rightarrow> int list
   \<Rightarrow> 's cached_resolver \<Rightarrow> (go_error + answer) list \<times> 's cached_resolver" where
  "ask_at compile interval source tenantID [] c = ([], c)"
| "ask_at compile interval source tenantID (now # later) c =
     (let (result, c) = CachedRedactionPolicy compile interval source now tenantID c;
          (results, c) = ask_at compile interval source tenantID later c
      in (result # results, c))"

subsection \<open>Interleaved calls\<close>

datatype cache_call =
    Asking string int "cachedPolicy option"
  | Storing string cachedPolicy
  | Returned string "go_error + answer"

text \<open>
  \<open>Hit\<close> and \<open>Miss\<close> are the read-locked lookup, \<open>Answered\<close> the source's answer, which the
  environment chooses, and \<open>Stored\<close> the write-locked update.
\<close>

inductive cache_step ::
  "(string \<Rightarrow> regexp option) \<Rightarrow> int \<Rightarrow> policies \<times> cache_call list \<Rightarrow> policies \<times> cache_call list \<Rightarrow> bool"
  for compile interval where
  Hit: "\<lbrakk>ps tenantID = Some entry; now - refreshedAt entry < interval\<rbrakk>
    \<Longrightarrow> cache_step compile interval (ps, calls) (ps, calls @ [Returned tenantID (Inr (answer_of entry))])"
| Miss: "\<lbrakk>case ps tenantID of Some entry \<Rightarrow> \<not> now - refreshedAt entry < interval | None \<Rightarrow> True\<rbrakk>
    \<Longrightarrow> cache_step compile interval (ps, calls) (ps, calls @ [Asking tenantID now (ps tenantID)])"
| Answered_keep: "\<lbrakk>i < length calls; calls ! i = Asking tenantID now cached;
      settle compile now cached asked = (result, None)\<rbrakk>
    \<Longrightarrow> cache_step compile interval (ps, calls) (ps, calls[i := Returned tenantID result])"
| Answered_new: "\<lbrakk>i < length calls; calls ! i = Asking tenantID now cached;
      settle compile now cached asked = (result, Some entry)\<rbrakk>
    \<Longrightarrow> cache_step compile interval (ps, calls) (ps, calls[i := Storing tenantID entry])"
| Stored: "\<lbrakk>i < length calls; calls ! i = Storing tenantID entry\<rbrakk>
    \<Longrightarrow> cache_step compile interval (ps, calls)
         (ps(tenantID \<mapsto> entry), calls[i := Returned tenantID (Inr (answer_of entry))])"

inductive_cases cache_stepE: "cache_step compile interval (ps, calls) (ps', calls')"

subsection \<open>What a valid answer is\<close>

definition usable_answer :: "(string \<Rightarrow> regexp option) \<Rightarrow> answer \<Rightarrow> bool" where
  "usable_answer compile answer =
     (case answer of (version, expressions, found) \<Rightarrow>
        found \<longrightarrow> version \<noteq> [] \<and> list_all (usable_expression compile) expressions)"

lemma validate_expressions_None:
  "validate_expressions compile expressions = None \<longleftrightarrow> list_all (usable_expression compile) expressions"
  by (induction expressions) (auto simp: usable_expression_def)

lemma validatePolicy_None: "validatePolicy compile answer = None \<longleftrightarrow> usable_answer compile answer"
  by (cases answer) (auto simp: validatePolicy_def usable_answer_def validate_expressions_None)

lemma answer_of_cache_entry [simp]: "answer_of (cache_entry answer now) = answer"
  by (cases answer) (simp add: answer_of_def cache_entry_def)

lemma refreshedAt_cache_entry [simp]: "refreshedAt (cache_entry answer now) = now"
  by (cases answer) (simp add: cache_entry_def)

lemma settle_eq:
  "settle compile now cached asked =
     (case asked of
        Inr answer \<Rightarrow> if usable_answer compile answer then (Inr answer, Some (cache_entry answer now))
          else (case cached of Some c \<Rightarrow> Inr (answer_of c) | None \<Rightarrow> Inl (the (validatePolicy compile answer)), None)
      | Inl err \<Rightarrow> (case cached of Some c \<Rightarrow> Inr (answer_of c) | None \<Rightarrow> Inl err, None))"
  by (simp add: settle_def validatePolicy_None [symmetric] split: sum.split option.split)

definition valid_cache :: "(string \<Rightarrow> regexp option) \<Rightarrow> policies \<Rightarrow> bool" where
  "valid_cache compile ps = (\<forall>entry \<in> ran ps. usable_answer compile (answer_of entry))"

lemma valid_cache_update:
  "valid_cache compile ps \<Longrightarrow> usable_answer compile (answer_of entry) \<Longrightarrow> valid_cache compile (ps(k \<mapsto> entry))"
  by (auto simp: valid_cache_def ran_def)

lemma valid_cache_lookup: "valid_cache compile ps \<Longrightarrow> ps k = Some entry \<Longrightarrow> usable_answer compile (answer_of entry)"
  by (auto simp: valid_cache_def ran_def)

subsection \<open>The gateway over a source of valid policies\<close>

text \<open>
  What the gateway relies on: under an invariant of the source, every answer it gives is
  usable. The gateway then never meets an expression that it has to refuse.
\<close>

locale policy_source =
  fixes compile :: "string \<Rightarrow> regexp option"
    and resolve :: "string \<Rightarrow> ('s, go_error, answer) program"
    and Inv :: "'s \<Rightarrow> bool"
  assumes resolve_usable: "hoare Inv (resolve tenant) (\<lambda>answer s. Inv s \<and> usable_answer compile answer) (\<lambda>_. Inv)"
begin

lemma policy_error_is_the_sources:
  assumes "PolicyResolver g = Some resolve" and "Inv s" and "policy compile g tenant s = (Inl err, t)"
  shows "resolve tenant s = (Inl err, t)"
proof (cases "resolve tenant s")
  case (Pair r t')
  show ?thesis
  proof (cases r)
    case (Inr a)
    obtain v es found where a: "a = (v, es, found)" by (cases a) auto
    have "usable_answer compile a"
      using hoare_InrD [OF resolve_usable assms(2)] Pair Inr by blast
    with assms(1,3) Pair Inr a show ?thesis
      by (auto simp: policy_def and_then_Inr add_expressions usable_answer_def split: if_splits)
  qed (use assms(1,3) Pair in \<open>simp add: policy_def and_then_Inl\<close>)
qed

lemma policy_of_answer:
  assumes "PolicyResolver g = Some resolve" and "Inv s" and "resolve tenant s = (Inr (v, es, True), t)"
  shows "policy compile g tenant s = (Inr (v, Patterns g @ map (\<lambda>e. the (compile e)) es), t)"
proof -
  have "usable_answer compile (v, es, True)"
    using hoare_InrD [OF resolve_usable assms(2,3)] by blast
  then show ?thesis
    using assms by (auto simp: policy_def and_then_Inr add_expressions usable_answer_def)
qed

end

lemma cached_resolve_usable:
  "hoare (valid_cache compile \<circ> policies_of) (CachedRedactionPolicy compile interval source now tenant)
     (\<lambda>answer c. (valid_cache compile \<circ> policies_of) c \<and> usable_answer compile answer)
     (\<lambda>_. valid_cache compile \<circ> policies_of)"
  by (rule hoareI)
     (auto simp: CachedRedactionPolicy_def settle_eq Let_def valid_cache_update dest: valid_cache_lookup
       split: prod.splits option.splits sum.splits if_splits)

interpretation cached: policy_source compile "CachedRedactionPolicy compile interval source now"
    "valid_cache compile \<circ> policies_of"
  for compile interval source now
  by unfold_locales (rule cached_resolve_usable)

subsection \<open>Properties\<close>

text \<open>The source fails or gives unusable policies, in whatever state it is asked.\<close>

definition source_down ::
  "(string \<Rightarrow> regexp option) \<Rightarrow> (string \<Rightarrow> ('s, go_error, answer) program) \<Rightarrow> string \<Rightarrow> bool" where
  "source_down compile source tenant =
     (\<forall>s. case fst (source tenant s) of Inl _ \<Rightarrow> True | Inr answer \<Rightarrow> \<not> usable_answer compile answer)"

lemma cached_hit:
  assumes "policies_of c tenant = Some entry" and "now - refreshedAt entry < interval"
  shows "CachedRedactionPolicy compile interval source now tenant c = (Inr (answer_of entry), c)"
  using assms by (simp add: CachedRedactionPolicy_def)

lemma cached_kept:
  assumes "policies_of c tenant = Some entry"
    and "source_down compile source tenant"
  shows "\<exists>src. CachedRedactionPolicy compile interval source now tenant c
           = (Inr (answer_of entry), c\<lparr>source_state := src\<rparr>)"
proof (cases "now - refreshedAt entry < interval")
  case True
  then have "CachedRedactionPolicy compile interval source now tenant c
      = (Inr (answer_of entry), c\<lparr>source_state := source_state c\<rparr>)"
    using assms(1) by (simp add: cached_hit)
  then show ?thesis by blast
next
  case False
  with assms(1) spec [OF assms(2) [unfolded source_down_def], of "source_state c"] show ?thesis
    by (auto simp: CachedRedactionPolicy_def settle_eq Let_def split: prod.splits sum.splits)
qed

lemma ask_kept:
  assumes "policies_of c tenant = Some entry"
    and "source_down compile source tenant"
  shows "fst (ask_at compile interval source tenant ticks c) = replicate (length ticks) (Inr (answer_of entry))"
  using assms(1)
proof (induction ticks arbitrary: c)
  case (Cons now later)
  obtain src where run: "CachedRedactionPolicy compile interval source now tenant c
      = (Inr (answer_of entry), c\<lparr>source_state := src\<rparr>)"
    using cached_kept [OF Cons.prems assms(2)] by blast
  have "policies_of (c\<lparr>source_state := src\<rparr>) tenant = Some entry" using Cons.prems by simp
  from Cons.IH [OF this] show ?case by (simp add: run split_def)
qed simp

text \<open>
  C20. An outage of the policy source never weakens redaction: while the source fails or gives
  policies that do not validate, every call, at whatever times, gives the tenant's last valid
  policy, and the gateway goes on redacting with it.
\<close>

theorem cache_survives_outage:
  assumes "policies_of c tenant = Some entry" and "found_of entry"
    and "valid_cache compile (policies_of c)"
    and "source_down compile source tenant"
    and "PolicyResolver g = Some (CachedRedactionPolicy compile interval source now)"
  shows "fst (ask_at compile interval source tenant ticks c)
           = replicate (length ticks) (Inr (version_of entry, expressions_of entry, True)) \<and>
         fst (policy compile g tenant c)
           = Inr (version_of entry, Patterns g @ map (\<lambda>e. the (compile e)) (expressions_of entry))"
proof
  have a: "answer_of entry = (version_of entry, expressions_of entry, True)"
    using assms(2) by (simp add: answer_of_def)
  show "fst (ask_at compile interval source tenant ticks c)
      = replicate (length ticks) (Inr (version_of entry, expressions_of entry, True))"
    using ask_kept [OF assms(1,4)] by (simp add: a)
  obtain src where "CachedRedactionPolicy compile interval source now tenant c
      = (Inr (answer_of entry), c\<lparr>source_state := src\<rparr>)"
    using cached_kept [OF assms(1,4)] by blast
  then show "fst (policy compile g tenant c)
      = Inr (version_of entry, Patterns g @ map (\<lambda>e. the (compile e)) (expressions_of entry))"
    using cached.policy_of_answer [OF assms(5)] assms(3) by (simp add: a)
qed

definition warm_cache :: "unit cached_resolver" where
  "warm_cache = \<lparr>source_state = (),
     policies_of = [''tenant-a'' \<mapsto> cache_entry (''v2'', [''acct-[0-9]+''], True) 0]\<rparr>"

lemma warm_cache_entry:
  "policies_of warm_cache ''tenant-a'' = Some (cache_entry (''v2'', [''acct-[0-9]+''], True) 0)"
  "valid_cache (\<lambda>_. Some account_pattern) (policies_of warm_cache)"
  by (auto simp: warm_cache_def valid_cache_def cache_entry_def answer_of_def usable_answer_def
      usable_expression_def ran_def split: if_splits)

lemma cache_survives_outage_witness:
  "fst (ask_at (\<lambda>_. Some account_pattern) 30000000000 (\<lambda>_. fail_with Unavailable) ''tenant-a''
          [31000000000, 62000000000] warm_cache)
     = [Inr (''v2'', [''acct-[0-9]+''], True), Inr (''v2'', [''acct-[0-9]+''], True)]"
  using cache_survives_outage [OF warm_cache_entry(1) _ warm_cache_entry(2),
      where source = "\<lambda>_. fail_with Unavailable" and interval = 30000000000 and now = 0
        and ticks = "[31000000000, 62000000000]"
        and g = "\<lparr>Authenticator = None, Publisher = None, Stager = None, GatewayPolicyVersion = ''v1'',
           Patterns = [], PolicyResolver = Some (CachedRedactionPolicy (\<lambda>_. Some account_pattern)
             30000000000 (\<lambda>_. fail_with Unavailable) 0)\<rparr>"]
  by (simp add: cache_entry_def source_down_def)

lemma ask_hits:
  assumes "policies_of c tenant = Some entry"
    and "list_all (\<lambda>now. now - refreshedAt entry < interval) ticks"
  shows "ask_at compile interval source tenant ticks c
           = (replicate (length ticks) (Inr (answer_of entry)), c)"
  using assms(2) by (induction ticks) (simp_all add: cached_hit assms(1))

text \<open>
  One call of the source serves a tenant for an interval: after a usable answer at time
  \<open>now\<close>, every call less than the interval later gives that answer and leaves the source alone.
\<close>

theorem cache_serves_interval:
  assumes "policies_of c tenant = None" and "source tenant (source_state c) = (Inr answer, src)"
    and "usable_answer compile answer" and "list_all (\<lambda>later. later < now + interval) ticks"
  shows "ask_at compile interval source tenant (now # ticks) c
    = (replicate (Suc (length ticks)) (Inr answer),
       \<lparr>source_state = src, policies_of = (policies_of c)(tenant \<mapsto> cache_entry answer now)\<rparr>)"
proof -
  let ?c = "\<lparr>source_state = src, policies_of = (policies_of c)(tenant \<mapsto> cache_entry answer now)\<rparr>"
  have first: "CachedRedactionPolicy compile interval source now tenant c = (Inr answer, ?c)"
    using assms(1-3) by (simp add: CachedRedactionPolicy_def settle_eq Let_def)
  have "ask_at compile interval source tenant ticks ?c = (replicate (length ticks) (Inr answer), ?c)"
    using assms(4) ask_hits [where c = ?c and tenant = tenant and entry = "cache_entry answer now"
        and ticks = ticks and interval = interval and compile = compile and source = source]
    by (simp add: list_all_iff algebra_simps)
  then show ?thesis by (simp add: first)
qed

lemma cache_serves_interval_witness:
  "fst (ask_at (\<lambda>_. Some account_pattern) 30 (\<lambda>_ n. (Inr (''v2'', [''x''], True), Suc n)) ''t'' [5, 10, 34]
     \<lparr>source_state = 0, policies_of = \<lambda>_. None\<rparr>) = replicate 3 (Inr (''v2'', [''x''], True)) \<and>
   source_state (snd (ask_at (\<lambda>_. Some account_pattern) 30 (\<lambda>_ n. (Inr (''v2'', [''x''], True), Suc n)) ''t''
     [5, 10, 34] \<lparr>source_state = 0, policies_of = \<lambda>_. None\<rparr>)) = 1"
  by (subst (1 2) cache_serves_interval) (auto simp: usable_answer_def usable_expression_def eval_nat_numeral)

fun valid_call :: "(string \<Rightarrow> regexp option) \<Rightarrow> cache_call \<Rightarrow> bool" where
  "valid_call compile (Asking tenant now (Some entry)) = usable_answer compile (answer_of entry)"
| "valid_call compile (Asking tenant now None) = True"
| "valid_call compile (Storing tenant entry) = usable_answer compile (answer_of entry)"
| "valid_call compile (Returned tenant (Inr answer)) = usable_answer compile answer"
| "valid_call compile (Returned tenant (Inl err)) = True"

lemma list_all_update: "list_all P xs \<Longrightarrow> P x \<Longrightarrow> list_all P (xs[i := x])"
  by (auto simp: list_all_iff dest: set_update_subset_insert [THEN subsetD])

lemma cache_step_valid:
  assumes "cache_step compile interval st st'"
    and "valid_cache compile (fst st) \<and> list_all (valid_call compile) (snd st)"
  shows "valid_cache compile (fst st') \<and> list_all (valid_call compile) (snd st')"
  using assms
proof (induction rule: cache_step.induct)
  case (Hit ps tenantID entry now calls)
  then show ?case by (auto dest: valid_cache_lookup)
next
  case (Miss ps tenantID now calls)
  then show ?case by (cases "ps tenantID") (auto dest: valid_cache_lookup)
next
  case (Answered_keep i calls tenantID now cached asked result ps)
  then have "valid_call compile (Asking tenantID now cached)" by (auto simp: list_all_length)
  then show ?case
    using Answered_keep
    by (auto simp: settle_eq intro!: list_all_update split: sum.splits option.splits if_splits)
next
  case (Answered_new i calls tenantID now cached asked result entry ps)
  then show ?case
    by (auto simp: settle_eq intro!: list_all_update split: sum.splits option.splits if_splits)
next
  case (Stored i calls tenantID entry ps)
  then have "valid_call compile (Storing tenantID entry)" by (auto simp: list_all_length)
  then have "valid_cache compile (ps(tenantID \<mapsto> entry))"
    and "list_all (valid_call compile) (calls[i := Returned tenantID (Inr (answer_of entry))])"
    using Stored by (auto intro: valid_cache_update list_all_update)
  then show ?case by (simp add: fun_upd_def)
qed

text \<open>
  C21. However calls interleave between their locked parts, and whatever the source answers, the
  cache only ever holds validated policies and only ever returns validated ones: no partial or
  malformed update becomes visible.
\<close>

theorem cache_interleavings_valid:
  assumes "(cache_step compile interval)\<^sup>*\<^sup>* (\<lambda>_. None, []) (ps, calls)"
  shows "ran ps \<subseteq> {entry. validatePolicy compile (answer_of entry) = None} \<and>
    {answer. Returned tenant (Inr answer) \<in> set calls} \<subseteq> {answer. validatePolicy compile answer = None}"
proof -
  have "valid_cache compile (fst (ps, calls)) \<and> list_all (valid_call compile) (snd (ps, calls))"
    using assms
  proof (induction rule: rtranclp_induct)
    case (step st st')
    show ?case by (rule cache_step_valid [OF step(2,3)])
  qed (simp add: valid_cache_def)
  then show ?thesis
    by (fastforce simp: validatePolicy_None valid_cache_def list_all_iff)
qed

lemma cache_interleavings_valid_witness:
  "{answer. Returned ''t'' (Inr answer) \<in> set [Returned ''t'' (Inr (''v2'', [''x''], True))]}
     \<subseteq> {answer. validatePolicy (\<lambda>_. Some account_pattern) answer = None}"
proof -
  let ?e = "cache_entry (''v2'', [''x''], True) 5"
  let ?step = "cache_step (\<lambda>_. Some account_pattern) 30"
  have "?step (\<lambda>_. None, []) (\<lambda>_. None, [] @ [Asking ''t'' 5 None])"
    by (rule cache_step.Miss [where ps = "\<lambda>_. None" and tenantID = "''t''", simplified])
  moreover have "?step (\<lambda>_. None, [Asking ''t'' 5 None]) (\<lambda>_. None, [Asking ''t'' 5 None][0 := Storing ''t'' ?e])"
    by (rule cache_step.Answered_new [where now = 5 and cached = None and asked = "Inr (''v2'', [''x''], True)"])
       (simp_all add: settle_eq usable_answer_def usable_expression_def)
  moreover have "?step (\<lambda>_. None, [Storing ''t'' ?e])
      ((\<lambda>_. None)(''t'' \<mapsto> ?e), [Storing ''t'' ?e][0 := Returned ''t'' (Inr (answer_of ?e))])"
    by (rule cache_step.Stored) simp_all
  ultimately have "?step\<^sup>*\<^sup>* (\<lambda>_. None, []) ((\<lambda>_. None)(''t'' \<mapsto> ?e), [Returned ''t'' (Inr (''v2'', [''x''], True))])"
    by (auto intro: rtranclp_trans)
  from cache_interleavings_valid [OF this] show ?thesis by blast
qed
end
