(* ===== verification/Otlp.thy ===== *)
theory Otlp
  imports PolicyCache
begin

text \<open>
  \<^verbatim>\<open>internal/ingest/otlp.go\<close> and the adapters of \<^verbatim>\<open>native_otlp.go\<close>: OTLP traces and logs, as JSON
  and as protobuf messages, turned into the platform's events.

  The JSON shapes are the source's own types, with a nil pointer field as \<^const>\<open>None\<close>. The
  protobuf messages are generated code; their records hold the fields the source reads. A nil
  message behaves as an empty one under the generated getters; where the source itself tests
  for nil (resource, status, key value, any value) the field is an option. What libraries
  compute is in \<open>codecs\<close>: decoding, media types, number and enum formatting.
\<close>

subsection \<open>OTLP/HTTP JSON\<close>

record otlpValue =
  StringField :: "string option"
  BoolField :: "bool option"
  IntField :: "string option"
  DoubleField :: "64 word option"

record otlpAttribute =
  Key :: string
  Value :: otlpValue

record otlpSpan =
  JTraceID :: string
  JSpanID :: string
  JParentSpanID :: string
  JName :: string
  JAttributes :: "otlpAttribute list"

record otlpLogRecord =
  LTimeUnixNano :: string
  LTraceID :: string
  LSpanID :: string
  LSeverityText :: string
  LBody :: otlpValue
  LAttributes :: "otlpAttribute list"

record otlpResourceSpan =
  JResource :: "otlpAttribute list"
  ScopeSpans :: "otlpSpan list list"

record otlpResourceLog =
  LResource :: "otlpAttribute list"
  ScopeLogs :: "otlpLogRecord list list"

type_synonym otlpRequest = "otlpResourceSpan list"
type_synonym otlpLogsRequest = "otlpResourceLog list"

subsection \<open>OTLP protobuf messages\<close>

datatype any_value =
    AnyValue_StringValue string
  | AnyValue_BoolValue bool
  | AnyValue_IntValue "64 word"
  | AnyValue_DoubleValue "64 word"
  | AnyValue_Other

record key_value =
  GetKey :: string
  GetValue :: "any_value option"

type_synonym key_values = "key_value option list"

record proto_span =
  PTraceId :: bytes
  PSpanId :: bytes
  PParentSpanId :: bytes
  PName :: string
  PAttributes :: key_values
  PKind :: "32 word"
  PStatus :: "32 word option"

record proto_log =
  PLTimeUnixNano :: "64 word"
  PLTraceId :: bytes
  PLSpanId :: bytes
  PLSeverityText :: string
  PLBody :: "any_value option"
  PLAttributes :: key_values

record 'r proto_resource =
  GetResource :: "key_values option"
  GetScopes :: "'r list list"

type_synonym ExportTraceServiceRequest = "proto_span proto_resource list"
type_synonym ExportLogsServiceRequest = "proto_log proto_resource list"

text \<open>
  A JSON decoder gives the first value of the input and whether nothing but space follows it;
  \<^const>\<open>None\<close> is a decoding error (an unknown field is one).
\<close>

record codecs =
  Compile :: "string \<Rightarrow> regexp option"
  DecodeEvent :: "string \<Rightarrow> (event \<times> bool) option"
  DecodeTraces :: "string \<Rightarrow> (otlpRequest \<times> bool) option"
  DecodeLogs :: "string \<Rightarrow> (otlpLogsRequest \<times> bool) option"
  UnmarshalTraces :: "string \<Rightarrow> ExportTraceServiceRequest option"
  UnmarshalLogs :: "string \<Rightarrow> ExportLogsServiceRequest option"
  ParseMediaType :: "string \<Rightarrow> string option"
  FormatFloat :: "64 word \<Rightarrow> string"
  SpanKindString :: "32 word \<Rightarrow> string"
  StatusCodeString :: "32 word \<Rightarrow> string"

definition format_bool :: "bool \<Rightarrow> string" where
  "format_bool b = (if b then ''true'' else ''false'')"

subsection \<open>Scalar attributes\<close>

definition scalarValue :: "codecs \<Rightarrow> otlpValue \<Rightarrow> string option" where
  "scalarValue cs val =
     (case StringField val of Some s \<Rightarrow> Some s
      | None \<Rightarrow> (case BoolField val of Some b \<Rightarrow> Some (format_bool b)
      | None \<Rightarrow> (case IntField val of Some i \<Rightarrow> Some i
      | None \<Rightarrow> (case DoubleField val of Some d \<Rightarrow> Some (FormatFloat cs d)
      | None \<Rightarrow> None))))"

fun add_scalars :: "codecs \<Rightarrow> otlpAttribute list \<Rightarrow> attrs \<Rightarrow> attrs" where
  "add_scalars cs [] result = result"
| "add_scalars cs (attribute # rest) result =
     (if Key attribute = [] then add_scalars cs rest result
      else case scalarValue cs (Value attribute) of
        Some v \<Rightarrow> add_scalars cs rest (AList.update (Key attribute) v result)
      | None \<Rightarrow> add_scalars cs rest result)"

definition scalarAttributes :: "codecs \<Rightarrow> otlpAttribute list \<Rightarrow> attrs" where
  "scalarAttributes cs attributes = add_scalars cs attributes []"

definition protoScalar :: "codecs \<Rightarrow> any_value option \<Rightarrow> string option" where
  "protoScalar cs val =
     (case val of
        None \<Rightarrow> None
      | Some (AnyValue_StringValue s) \<Rightarrow> Some s
      | Some (AnyValue_BoolValue b) \<Rightarrow> Some (format_bool b)
      | Some (AnyValue_IntValue i) \<Rightarrow> Some (format_int (sint i))
      | Some (AnyValue_DoubleValue d) \<Rightarrow> Some (FormatFloat cs d)
      | Some AnyValue_Other \<Rightarrow> None)"

fun add_key_values :: "codecs \<Rightarrow> key_values \<Rightarrow> attrs \<Rightarrow> attrs" where
  "add_key_values cs [] result = result"
| "add_key_values cs (None # rest) result = add_key_values cs rest result"
| "add_key_values cs (Some attribute # rest) result =
     (if GetKey attribute = [] then add_key_values cs rest result
      else case protoScalar cs (GetValue attribute) of
        Some v \<Rightarrow> add_key_values cs rest (AList.update (GetKey attribute) v result)
      | None \<Rightarrow> add_key_values cs rest result)"

definition mergeProtoAttributes :: "codecs \<Rightarrow> attrs \<Rightarrow> key_values \<Rightarrow> attrs" where
  "mergeProtoAttributes cs base attributes = add_key_values cs attributes (put_all base [])"

definition protoResourceAttributes :: "codecs \<Rightarrow> key_values option \<Rightarrow> attrs" where
  "protoResourceAttributes cs resource =
     (case resource of None \<Rightarrow> [] | Some attributes \<Rightarrow> mergeProtoAttributes cs [] attributes)"

subsection \<open>Events of spans and log records\<close>

definition otlp_span_event :: "codecs \<Rightarrow> attrs \<Rightarrow> otlpSpan \<Rightarrow> event" where
  "otlp_span_event cs resource span =
     (let attributes = put_all resource [];
          attributes = put_all (scalarAttributes cs (JAttributes span)) attributes;
          attributes = AList.update ''telemetry.source'' ''otlp_http_json'' attributes
      in \<lparr>EventID = JTraceID span @ '':'' @ JSpanID span, Signal = ''trace'', TraceID = JTraceID span,
          SpanID = JSpanID span, ParentSpanID = JParentSpanID span, Name = JName span,
          Attributes = attributes\<rparr>)"

definition log_identity :: "string \<Rightarrow> string \<Rightarrow> string \<Rightarrow> nat \<Rightarrow> string" where
  "log_identity trace span time ordinal =
     trace @ '':'' @ span @ '':'' @ time @ '':'' @ format_int (int ordinal)"

definition otlp_log_event :: "codecs \<Rightarrow> attrs \<Rightarrow> nat \<Rightarrow> otlpLogRecord \<Rightarrow> event" where
  "otlp_log_event cs resource count record =
     (let attributes = put_all resource [];
          attributes = put_all (scalarAttributes cs (LAttributes record)) attributes;
          attributes = (if LSeverityText record \<noteq> []
                        then AList.update ''log.severity'' (LSeverityText record) attributes else attributes);
          attributes = (case scalarValue cs (LBody record) of
                          Some v \<Rightarrow> AList.update ''log.body'' v attributes | None \<Rightarrow> attributes);
          attributes = AList.update ''telemetry.source'' ''otlp_http_json'' attributes;
          identity = log_identity (LTraceID record) (LSpanID record) (LTimeUnixNano record) (count + 1);
          digest = sha256 (bytes_of identity)
      in \<lparr>EventID = ''log-'' @ fmtHex (take 8 digest), Signal = ''log'', TraceID = LTraceID record,
          SpanID = LSpanID record, ParentSpanID = [], Name = ''log'', Attributes = attributes\<rparr>)"

definition proto_span_event :: "codecs \<Rightarrow> string \<Rightarrow> attrs \<Rightarrow> proto_span \<Rightarrow> event" where
  "proto_span_event cs source resource span =
     (let attributes = mergeProtoAttributes cs resource (PAttributes span);
          attributes = AList.update ''telemetry.source'' source attributes;
          attributes = AList.update ''span.kind'' (SpanKindString cs (PKind span)) attributes;
          attributes = (case PStatus span of
                          Some code \<Rightarrow> AList.update ''span.status'' (StatusCodeString cs code) attributes
                        | None \<Rightarrow> attributes)
      in \<lparr>EventID = hex_encode (PTraceId span) @ '':'' @ hex_encode (PSpanId span), Signal = ''trace'',
          TraceID = hex_encode (PTraceId span), SpanID = hex_encode (PSpanId span),
          ParentSpanID = hex_encode (PParentSpanId span), Name = PName span, Attributes = attributes\<rparr>)"

definition proto_log_event :: "codecs \<Rightarrow> string \<Rightarrow> attrs \<Rightarrow> nat \<Rightarrow> proto_log \<Rightarrow> event" where
  "proto_log_event cs source resource count record =
     (let attributes = mergeProtoAttributes cs resource (PLAttributes record);
          attributes = AList.update ''telemetry.source'' source attributes;
          attributes = (if PLSeverityText record \<noteq> []
                        then AList.update ''log.severity'' (PLSeverityText record) attributes else attributes);
          attributes = (case protoScalar cs (PLBody record) of
                          Some body \<Rightarrow> AList.update ''log.body'' body attributes | None \<Rightarrow> attributes);
          identity = log_identity (hex_encode (PLTraceId record)) (hex_encode (PLSpanId record))
                       (format_nat (unat (PLTimeUnixNano record))) (count + 1);
          sum = sha256 (bytes_of identity)
      in \<lparr>EventID = ''log-'' @ hex_encode (take 8 sum), Signal = ''log'',
          TraceID = hex_encode (PLTraceId record), SpanID = hex_encode (PLSpanId record),
          ParentSpanID = [], Name = ''log'', Attributes = attributes\<rparr>)"

subsection \<open>The four adapters\<close>

text \<open>The body of the innermost loop: the limit, the event, its check.\<close>

definition add_event :: "(nat \<Rightarrow> 'r \<Rightarrow> event) \<Rightarrow> 'r \<Rightarrow> event list \<Rightarrow> go_error + event list" where
  "add_event event_of r events =
     (if length events \<ge> maxSpans then Inl ErrInvalidOTLP
      else let event = event_of (length events) r
           in if \<not> valid event then Inl ErrInvalidOTLP else Inr (events @ [event]))"

definition accept_collected ::
  "codecs \<Rightarrow> 's gateway \<Rightarrow> string \<Rightarrow> go_error + event list \<Rightarrow> ('s, go_error, unit) program" where
  "accept_collected cs g tenant collected =
     (case collected of
        Inl err \<Rightarrow> fail_with err
      | Inr events \<Rightarrow>
          if length events = 0 then fail_with ErrInvalidOTLP
          else acceptEvents (Compile cs) g tenant events)"

definition collect_otlp_spans :: "codecs \<Rightarrow> otlpRequest \<Rightarrow> go_error + event list" where
  "collect_otlp_spans cs request =
     fold_or_fail (\<lambda>resourceSpan.
         let resource = scalarAttributes cs (JResource resourceSpan)
         in fold_or_fail (fold_or_fail (add_event (\<lambda>_. otlp_span_event cs resource)))
              (ScopeSpans resourceSpan)) request []"

definition collect_otlp_logs :: "codecs \<Rightarrow> otlpLogsRequest \<Rightarrow> go_error + event list" where
  "collect_otlp_logs cs request =
     fold_or_fail (\<lambda>resourceLog.
         let resource = scalarAttributes cs (LResource resourceLog)
         in fold_or_fail (fold_or_fail (add_event (otlp_log_event cs resource)))
              (ScopeLogs resourceLog)) request []"

definition collect_proto_spans :: "codecs \<Rightarrow> string \<Rightarrow> ExportTraceServiceRequest \<Rightarrow> go_error + event list" where
  "collect_proto_spans cs source request =
     fold_or_fail (\<lambda>resourceSpans.
         let resource = protoResourceAttributes cs (GetResource resourceSpans)
         in fold_or_fail (fold_or_fail (add_event (\<lambda>_. proto_span_event cs source resource)))
              (GetScopes resourceSpans)) request []"

definition collect_proto_logs :: "codecs \<Rightarrow> string \<Rightarrow> ExportLogsServiceRequest \<Rightarrow> go_error + event list" where
  "collect_proto_logs cs source request =
     fold_or_fail (\<lambda>resourceLogs.
         let resource = protoResourceAttributes cs (GetResource resourceLogs)
         in fold_or_fail (fold_or_fail (add_event (proto_log_event cs source resource)))
              (GetScopes resourceLogs)) request []"

text \<open>
  A request body is its content, or \<^const>\<open>None\<close> when the connection fails before its end. Reading
  past the limit of \<^verbatim>\<open>http.MaxBytesReader\<close> is an error too, so a JSON decoder never reaches the end
  of the input there.
\<close>

definition MaxBytesReader :: "string option \<Rightarrow> string option" where
  "MaxBytesReader body =
     (case body of Some content \<Rightarrow> if length content > maxBodyBytes then None else Some content
      | None \<Rightarrow> None)"

definition decode_whole :: "(string \<Rightarrow> ('a \<times> bool) option) \<Rightarrow> string option \<Rightarrow> 'a option" where
  "decode_whole decode body =
     (case body of None \<Rightarrow> None
      | Some content \<Rightarrow> (case decode content of Some (a, True) \<Rightarrow> Some a | _ \<Rightarrow> None))"

definition acceptOTLPJSON ::
  "codecs \<Rightarrow> 's gateway \<Rightarrow> string \<Rightarrow> string option \<Rightarrow> ('s, go_error, unit) program" where
  "acceptOTLPJSON cs g tenant body =
     (case decode_whole (DecodeTraces cs) body of
        None \<Rightarrow> fail_with ErrInvalidOTLP
      | Some request \<Rightarrow> accept_collected cs g tenant (collect_otlp_spans cs request))"

definition acceptOTLPLogsJSON ::
  "codecs \<Rightarrow> 's gateway \<Rightarrow> string \<Rightarrow> string option \<Rightarrow> ('s, go_error, unit) program" where
  "acceptOTLPLogsJSON cs g tenant body =
     (case decode_whole (DecodeLogs cs) body of
        None \<Rightarrow> fail_with ErrInvalidOTLP
      | Some request \<Rightarrow> accept_collected cs g tenant (collect_otlp_logs cs request))"

definition acceptTraceRequest ::
  "codecs \<Rightarrow> 's gateway \<Rightarrow> string \<Rightarrow> ExportTraceServiceRequest \<Rightarrow> string \<Rightarrow> ('s, go_error, unit) program" where
  "acceptTraceRequest cs g tenant request source =
     accept_collected cs g tenant (collect_proto_spans cs source request)"

definition acceptLogsRequest ::
  "codecs \<Rightarrow> 's gateway \<Rightarrow> string \<Rightarrow> ExportLogsServiceRequest \<Rightarrow> string \<Rightarrow> ('s, go_error, unit) program" where
  "acceptLogsRequest cs g tenant request source =
     accept_collected cs g tenant (collect_proto_logs cs source request)"

definition readProto :: "(string \<Rightarrow> 'm option) \<Rightarrow> string option \<Rightarrow> 'm option" where
  "readProto unmarshal body =
     (case body of
        None \<Rightarrow> None
      | Some content \<Rightarrow>
          let payload = take (maxBodyBytes + 1) content
          in if length payload = 0 \<or> length payload > maxBodyBytes then None else unmarshal payload)"

definition acceptOTLPTracesProtobuf ::
  "codecs \<Rightarrow> 's gateway \<Rightarrow> string \<Rightarrow> string option \<Rightarrow> ('s, go_error, unit) program" where
  "acceptOTLPTracesProtobuf cs g tenant body =
     (case readProto (UnmarshalTraces cs) body of
        None \<Rightarrow> fail_with ErrInvalidOTLP
      | Some request \<Rightarrow> acceptTraceRequest cs g tenant request ''otlp_http_protobuf'')"

definition acceptOTLPLogsProtobuf ::
  "codecs \<Rightarrow> 's gateway \<Rightarrow> string \<Rightarrow> string option \<Rightarrow> ('s, go_error, unit) program" where
  "acceptOTLPLogsProtobuf cs g tenant body =
     (case readProto (UnmarshalLogs cs) body of
        None \<Rightarrow> fail_with ErrInvalidOTLP
      | Some request \<Rightarrow> acceptLogsRequest cs g tenant request ''otlp_http_protobuf'')"

definition isProtobuf :: "codecs \<Rightarrow> string \<Rightarrow> bool" where
  "isProtobuf cs contentType =
     (case ParseMediaType cs contentType of
        None \<Rightarrow> False
      | Some mediaType \<Rightarrow> mediaType = ''application/x-protobuf'' \<or> mediaType = ''application/protobuf'')"

subsection \<open>The loops as one list of events\<close>

definition numbered :: "(nat \<Rightarrow> 'r \<Rightarrow> event) \<Rightarrow> nat \<Rightarrow> 'r list \<Rightarrow> event list" where
  "numbered f n rs = map2 f [n..<n + length rs] rs"

definition checked_events :: "event list \<Rightarrow> go_error + event list" where
  "checked_events events =
     (if list_all valid events \<and> length events \<le> 200 then Inr events else Inl ErrInvalidOTLP)"

lemma numbered_simps [simp]:
  "numbered f n [] = []"
  "numbered f n (r # rs) = f n r # numbered f (Suc n) rs"
  by (simp_all add: numbered_def upt_conv_Cons del: upt_Suc)

lemma length_numbered [simp]: "length (numbered f n rs) = length rs"
  by (simp add: numbered_def)

lemma numbered_const [simp]: "numbered (\<lambda>_. f) n rs = map f rs"
  by (induction rs arbitrary: n) simp_all

lemma add_events:
  "length acc \<le> maxSpans \<Longrightarrow> fold_or_fail (add_event f) rs acc =
     (if list_all valid (numbered f (length acc) rs) \<and> length acc + length rs \<le> maxSpans
      then Inr (acc @ numbered f (length acc) rs) else Inl ErrInvalidOTLP)"
  by (induction rs arbitrary: acc) (auto simp: add_event_def Let_def)

lemma add_event_pair: "add_event (\<lambda>n (a, x). f a n x) (a, x) = add_event (f a) x"
  by (rule ext) (simp add: add_event_def)

lemma collect_flat:
  "fold_or_fail (\<lambda>r. fold_or_fail (fold_or_fail (add_event (f (h r)))) (scopes r)) request acc
     = fold_or_fail (add_event (\<lambda>n (a, x). f a n x))
         (concat (map (\<lambda>r. map (Pair (h r)) (concat (scopes r))) request)) acc"
proof -
  have inner: "fold_or_fail (fold_or_fail (add_event (f (h r)))) (scopes r)
      = fold_or_fail (add_event (\<lambda>n (a, x). f a n x)) (map (Pair (h r)) (concat (scopes r)))" for r
  proof
    fix acc
    have "fold_or_fail (fold_or_fail (add_event (f (h r)))) (scopes r) acc
        = fold_or_fail (add_event (f (h r))) (concat (scopes r)) acc"
      using fold_or_fail_nested [where g = "\<lambda>x. x"] by simp
    also have "\<dots> = fold_or_fail (add_event (\<lambda>n (a, x). f a n x)) (map (Pair (h r)) (concat (scopes r))) acc"
      by (simp add: fold_or_fail_map add_event_pair)
    finally show "fold_or_fail (fold_or_fail (add_event (f (h r)))) (scopes r) acc
        = fold_or_fail (add_event (\<lambda>n (a, x). f a n x)) (map (Pair (h r)) (concat (scopes r))) acc" .
  qed
  show ?thesis by (simp add: inner fold_or_fail_nested)
qed

text \<open>
  What the four adapters share: a loop over resources, scopes and records that makes one event
  of each record.
\<close>

locale otlp_adapter =
  fixes resource_of :: "'q \<Rightarrow> attrs"
    and scopes_of :: "'q \<Rightarrow> 'r list list"
    and event_of :: "attrs \<Rightarrow> nat \<Rightarrow> 'r \<Rightarrow> event"
    and collect :: "'q list \<Rightarrow> go_error + event list"
  assumes collect_loop: "collect request =
    fold_or_fail (\<lambda>q. fold_or_fail (fold_or_fail (add_event (event_of (resource_of q)))) (scopes_of q)) request []"
begin

lemma collect_checked:
  "collect request = checked_events (numbered (\<lambda>n (a, x). event_of a n x) 0
     (concat (map (\<lambda>q. map (Pair (resource_of q)) (concat (scopes_of q))) request)))"
  by (simp add: collect_loop collect_flat checked_events_def add_events [unfolded maxSpans_def])

lemma collect_sound:
  assumes "collect request = Inr events"
  shows "list_all valid events \<and> length events \<le> 200 \<and>
    length events = length (concat (map (concat \<circ> scopes_of) request))"
  using assms
  by (auto simp: collect_checked checked_events_def length_concat comp_def split: if_splits)

end

interpretation json_spans: otlp_adapter "\<lambda>q. scalarAttributes cs (JResource q)" ScopeSpans
    "\<lambda>a n. otlp_span_event cs a" "collect_otlp_spans cs" for cs
  by unfold_locales (simp add: collect_otlp_spans_def Let_def)

interpretation json_logs: otlp_adapter "\<lambda>q. scalarAttributes cs (LResource q)" ScopeLogs
    "otlp_log_event cs" "collect_otlp_logs cs" for cs
  by unfold_locales (simp add: collect_otlp_logs_def Let_def)

interpretation proto_spans: otlp_adapter "\<lambda>q. protoResourceAttributes cs (GetResource q)" GetScopes
    "\<lambda>a n. proto_span_event cs source a" "collect_proto_spans cs source" for cs source
  by unfold_locales (simp add: collect_proto_spans_def Let_def)

interpretation proto_logs: otlp_adapter "\<lambda>q. protoResourceAttributes cs (GetResource q)" GetScopes
    "proto_log_event cs source" "collect_proto_logs cs source" for cs source
  by unfold_locales (simp add: collect_proto_logs_def Let_def)

lemma accept_checked:
  "accept_collected cs g tenant (checked_events events) s =
     (if events \<noteq> [] \<and> length events \<le> 200 \<and> list_all valid events
      then acceptEvents (Compile cs) g tenant events s else (Inl ErrInvalidOTLP, s))"
  by (auto simp: accept_collected_def checked_events_def)

subsection \<open>Attributes of an event\<close>

text \<open>The scalar attributes of a list, in its order.\<close>

fun scalars :: "codecs \<Rightarrow> otlpAttribute list \<Rightarrow> attrs" where
  "scalars cs [] = []"
| "scalars cs (a # rest) =
     (if Key a = [] then scalars cs rest
      else case scalarValue cs (Value a) of Some v \<Rightarrow> (Key a, v) # scalars cs rest | None \<Rightarrow> scalars cs rest)"

fun proto_scalars :: "codecs \<Rightarrow> key_values \<Rightarrow> attrs" where
  "proto_scalars cs [] = []"
| "proto_scalars cs (None # rest) = proto_scalars cs rest"
| "proto_scalars cs (Some a # rest) =
     (if GetKey a = [] then proto_scalars cs rest
      else case protoScalar cs (GetValue a) of
        Some v \<Rightarrow> (GetKey a, v) # proto_scalars cs rest | None \<Rightarrow> proto_scalars cs rest)"

text \<open>The map in which the last of several values of a key wins.\<close>

definition last_wins :: "attrs \<Rightarrow> string \<Rightarrow> string option" where
  "last_wins kvs = map_of (rev kvs)"

lemma last_wins_append: "last_wins (xs @ ys) = last_wins xs ++ last_wins ys"
  by (simp add: last_wins_def)

lemma add_scalars_eq: "add_scalars cs as base = put_all (scalars cs as) base"
  by (induction as arbitrary: base) (auto split: option.split)

lemma add_key_values_eq: "add_key_values cs as base = put_all (proto_scalars cs as) base"
  by (induction cs as base rule: add_key_values.induct) (auto split: option.split)

lemma map_of_put_all_last: "map_of (put_all new base) = map_of base ++ last_wins new"
  by (simp add: map_of_put_all last_wins_def)

lemma go_map_scalarAttributes [simp]: "go_map (scalarAttributes cs as)"
  by (simp add: scalarAttributes_def add_scalars_eq)

lemma map_of_scalarAttributes: "map_of (scalarAttributes cs as) = last_wins (scalars cs as)"
  by (simp add: scalarAttributes_def add_scalars_eq map_of_put_all_last)

lemma last_wins_go_map: "go_map m \<Longrightarrow> last_wins m = map_of m"
  by (simp add: last_wins_def go_map_def keys_of_def map_of_rev_distinct)

lemma map_of_put_scalars:
  "map_of (put_all (scalarAttributes cs as) base) = map_of base ++ last_wins (scalars cs as)"
  by (simp add: map_of_put_all_last last_wins_go_map map_of_scalarAttributes)

lemma map_of_copy: "go_map m \<Longrightarrow> map_of (put_all m []) = map_of (m :: attrs)"
  by (simp add: map_of_put_all_last last_wins_go_map)

lemma go_map_mergeProto [simp]: "go_map base \<Longrightarrow> go_map (mergeProtoAttributes cs base as)"
  by (simp add: mergeProtoAttributes_def add_key_values_eq)

lemma map_of_mergeProto:
  "go_map base \<Longrightarrow> map_of (mergeProtoAttributes cs base as) = map_of base ++ last_wins (proto_scalars cs as)"
  by (simp add: mergeProtoAttributes_def add_key_values_eq map_of_put_all_last last_wins_go_map)

lemma go_map_protoResource [simp]: "go_map (protoResourceAttributes cs resource)"
  by (simp add: protoResourceAttributes_def split: option.split)

lemma map_of_protoResource:
  "map_of (protoResourceAttributes cs resource)
     = last_wins (case resource of None \<Rightarrow> [] | Some as \<Rightarrow> proto_scalars cs as)"
  by (simp add: protoResourceAttributes_def map_of_mergeProto last_wins_def split: option.split)

lemmas attribute_laws = map_of_put_scalars map_of_copy map_of_scalarAttributes map_of_mergeProto
  map_of_protoResource last_wins_append update_conv'

text \<open>
  The attributes of a span: those of the resource, overridden by the span's own, each key with
  the last scalar value given for it; the source of the telemetry, the kind and the status are
  the gateway's own and cannot be set by the sender.
\<close>

theorem span_attributes:
  "map_of (Attributes (otlp_span_event cs (scalarAttributes cs resource) span))
     = (last_wins (scalars cs (resource) @ scalars cs (JAttributes span)))
         (''telemetry.source'' \<mapsto> ''otlp_http_json'') \<and>
   map_of (Attributes (proto_span_event cs source (protoResourceAttributes cs (Some kvs)) pspan))
     = ((last_wins (proto_scalars cs kvs @ proto_scalars cs (PAttributes pspan)))
         (''telemetry.source'' \<mapsto> source, ''span.kind'' \<mapsto> SpanKindString cs (PKind pspan)))
       ++ (case PStatus pspan of None \<Rightarrow> Map.empty | Some code \<Rightarrow> [''span.status'' \<mapsto> StatusCodeString cs code])"
  by (auto simp: otlp_span_event_def proto_span_event_def Let_def attribute_laws split: option.split)

text \<open>
  A log record keeps its body and severity as the attributes \<^verbatim>\<open>log.body\<close> and \<^verbatim>\<open>log.severity\<close>,
  where the redaction finds them, whatever attributes of those names the sender gives.
\<close>

theorem log_attributes:
  "map_of (Attributes (otlp_log_event cs (scalarAttributes cs resource) n record))
     = ((last_wins (scalars cs resource @ scalars cs (LAttributes record)))
         ++ (if LSeverityText record = [] then Map.empty else [''log.severity'' \<mapsto> LSeverityText record])
         ++ (case scalarValue cs (LBody record) of None \<Rightarrow> Map.empty | Some body \<Rightarrow> [''log.body'' \<mapsto> body]))
       (''telemetry.source'' \<mapsto> ''otlp_http_json'') \<and>
   map_of (Attributes (proto_log_event cs source (protoResourceAttributes cs (Some kvs)) n precord))
     = (last_wins (proto_scalars cs kvs @ proto_scalars cs (PLAttributes precord)))
         (''telemetry.source'' \<mapsto> source)
         ++ (if PLSeverityText precord = [] then Map.empty else [''log.severity'' \<mapsto> PLSeverityText precord])
         ++ (case protoScalar cs (PLBody precord) of None \<Rightarrow> Map.empty | Some body \<Rightarrow> [''log.body'' \<mapsto> body])"
  by (auto simp: otlp_log_event_def proto_log_event_def Let_def attribute_laws split: option.split)

subsection \<open>What the adapters accept\<close>

text \<open>The event of each span or log record of a request, in the order of the request.\<close>

definition otlp_span_events :: "codecs \<Rightarrow> otlpRequest \<Rightarrow> event list" where
  "otlp_span_events cs request =
     concat (map (\<lambda>q. map (otlp_span_event cs (scalarAttributes cs (JResource q))) (concat (ScopeSpans q))) request)"

definition proto_span_events :: "codecs \<Rightarrow> string \<Rightarrow> ExportTraceServiceRequest \<Rightarrow> event list" where
  "proto_span_events cs source request =
     concat (map (\<lambda>q. map (proto_span_event cs source (protoResourceAttributes cs (GetResource q)))
                        (concat (GetScopes q))) request)"

definition log_records :: "('q \<Rightarrow> attrs) \<Rightarrow> ('q \<Rightarrow> 'r list list) \<Rightarrow> 'q list \<Rightarrow> (attrs \<times> 'r) list" where
  "log_records resource scopes request =
     concat (map (\<lambda>q. map (Pair (resource q)) (concat (scopes q))) request)"

definition otlp_log_events :: "codecs \<Rightarrow> otlpLogsRequest \<Rightarrow> event list" where
  "otlp_log_events cs request =
     numbered (\<lambda>n (resource, record). otlp_log_event cs resource n record) 0
       (log_records (\<lambda>q. scalarAttributes cs (LResource q)) ScopeLogs request)"

definition proto_log_events :: "codecs \<Rightarrow> string \<Rightarrow> ExportLogsServiceRequest \<Rightarrow> event list" where
  "proto_log_events cs source request =
     numbered (\<lambda>n (resource, record). proto_log_event cs source resource n record) 0
       (log_records (\<lambda>q. protoResourceAttributes cs (GetResource q)) GetScopes request)"

lemma collected_events:
  "collect_otlp_spans cs traces = checked_events (otlp_span_events cs traces)"
  "collect_otlp_logs cs logs = checked_events (otlp_log_events cs logs)"
  "collect_proto_spans cs source ptraces = checked_events (proto_span_events cs source ptraces)"
  "collect_proto_logs cs source plogs = checked_events (proto_log_events cs source plogs)"
  by (simp_all add: json_spans.collect_checked json_logs.collect_checked proto_spans.collect_checked
      proto_logs.collect_checked otlp_span_events_def otlp_log_events_def proto_span_events_def
      proto_log_events_def log_records_def map_concat comp_def)

text \<open>
  C16. A trace request is accepted as a whole or not at all. The nested loops over resources,
  scopes and spans produce one event per span; the request goes on to redaction and delivery
  exactly when there are between 1 and 200 of them and all are valid, and is otherwise rejected
  with nothing read or written: an oversized or malformed body, trailing data, too many spans.
\<close>

theorem traces_accepted:
  "acceptOTLPJSON cs g tenant body s =
     (case decode_whole (DecodeTraces cs) body of
        None \<Rightarrow> (Inl ErrInvalidOTLP, s)
      | Some request \<Rightarrow>
          let events = otlp_span_events cs request
          in if events \<noteq> [] \<and> length events \<le> 200 \<and> list_all valid events
             then acceptEvents (Compile cs) g tenant events s else (Inl ErrInvalidOTLP, s)) \<and>
   acceptTraceRequest cs g tenant request source s =
     (let events = proto_span_events cs source request
      in if events \<noteq> [] \<and> length events \<le> 200 \<and> list_all valid events
         then acceptEvents (Compile cs) g tenant events s else (Inl ErrInvalidOTLP, s))"
  by (simp add: acceptOTLPJSON_def acceptTraceRequest_def collected_events accept_checked Let_def
      split: option.split)

text \<open>
  C17. Log requests: the same whole-request rule, with each record's ordinal in the request, over all
  its resources and scopes, as part of its identity.
\<close>

theorem logs_accepted:
  "acceptOTLPLogsJSON cs g tenant body s =
     (case decode_whole (DecodeLogs cs) body of
        None \<Rightarrow> (Inl ErrInvalidOTLP, s)
      | Some request \<Rightarrow>
          let events = otlp_log_events cs request
          in if events \<noteq> [] \<and> length events \<le> 200 \<and> list_all valid events
             then acceptEvents (Compile cs) g tenant events s else (Inl ErrInvalidOTLP, s)) \<and>
   acceptLogsRequest cs g tenant request source s =
     (let events = proto_log_events cs source request
      in if events \<noteq> [] \<and> length events \<le> 200 \<and> list_all valid events
         then acceptEvents (Compile cs) g tenant events s else (Inl ErrInvalidOTLP, s))"
  by (simp add: acceptOTLPLogsJSON_def acceptLogsRequest_def collected_events accept_checked Let_def
      split: option.split)

lemma colon_not_hex: "CHR '':'' \<notin> set (hex_encode bs)"
  using hex_encode_alphabet [of "CHR '':''" bs] by (auto simp: hex_alphabet_def)

text \<open>
  The event id of a protobuf span identifies it: two spans have the same event id exactly when
  they have the same trace id and span id, so deduplication by event id never drops another
  span.
\<close>

theorem proto_event_id:
  "EventID (proto_span_event cs source a x) = EventID (proto_span_event cs source' b y)
     \<longleftrightarrow> PTraceId x = PTraceId y \<and> PSpanId x = PSpanId y"
proof -
  have "hex_encode (PTraceId x) @ CHR '':'' # hex_encode (PSpanId x)
        = hex_encode (PTraceId y) @ CHR '':'' # hex_encode (PSpanId y)
      \<longleftrightarrow> PTraceId x = PTraceId y \<and> PSpanId x = PSpanId y"
    by (auto dest: scoped_key_inject [OF colon_not_hex colon_not_hex])
  then show ?thesis by (simp add: proto_span_event_def Let_def split: option.split)
qed

text \<open>
  The event id of a log record does not: it is a digest of the trace id, the span id, the
  timestamp and the ordinal only. Two records without trace, span and timestamp that come
  first in their requests have the same event id, whatever they say, and the second one is
  taken for a retry of the first.
\<close>

theorem log_event_id_ignores_content:
  "EventID (otlp_log_event cs a n (record\<lparr>LBody := body, LAttributes := as, LSeverityText := sev\<rparr>))
     = EventID (otlp_log_event cs b n record) \<and>
   EventID (proto_log_event cs source a n (precord\<lparr>PLBody := pbody, PLAttributes := pas\<rparr>))
     = EventID (proto_log_event cs source b n precord)"
  by (simp add: otlp_log_event_def proto_log_event_def Let_def)

lemma go_map_events [simp]:
  "go_map (Attributes (otlp_span_event cs a span))"
  "go_map (Attributes (otlp_log_event cs a n record))"
  "go_map b \<Longrightarrow> go_map (Attributes (proto_span_event cs source b pspan))"
  "go_map b \<Longrightarrow> go_map (Attributes (proto_log_event cs source b n precord))"
  by (simp_all add: otlp_span_event_def otlp_log_event_def proto_span_event_def proto_log_event_def
      Let_def split: option.split)
end
