(* ===== verification/GatewayHttp.thy ===== *)
theory GatewayHttp
  imports Otlp
begin

text \<open>
  The two front ends of the gateway: \<^verbatim>\<open>Gateway.ServeHTTP\<close> of \<^verbatim>\<open>gateway.go\<close> and the gRPC services of
  \<^verbatim>\<open>native_otlp.go\<close>. A request is what the handler reads of it; a response is the status and body it
  writes. gRPC status errors are the codes the source uses.
\<close>

subsection \<open>HTTP\<close>

record http_request =
  Method :: string
  Path :: string
  APIKey :: string
  ContentType :: string
  Body :: "string option"

text \<open>\<^verbatim>\<open>http.Error\<close> writes plain text; accepted requests are answered with a JSON object.\<close>

datatype payload = PlainText string | JsonObject attrs

record http_response =
  Status :: nat
  Payload :: payload

definition http_error :: "string \<Rightarrow> nat \<Rightarrow> http_response" where
  "http_error message status = \<lparr>Status = status, Payload = PlainText message\<rparr>"

definition NotFound :: http_response where
  "NotFound = http_error ''404 page not found'' 404"

definition accepted :: "attrs \<Rightarrow> http_response" where
  "accepted obj = \<lparr>Status = 202, Payload = JsonObject obj\<rparr>"

text \<open>The tail of the two OTLP routes.\<close>

definition otlp_response :: "go_error + unit \<Rightarrow> http_response" where
  "otlp_response result =
     (case result of
        Inl acceptErr \<Rightarrow>
          if errors_is acceptErr ErrInvalidOTLP then http_error ''invalid telemetry envelope'' 400
          else http_error ''durable publish unavailable'' 503
      | Inr _ \<Rightarrow> accepted [])"

definition event_response :: "event \<Rightarrow> go_error + unit \<Rightarrow> http_response" where
  "event_response event result =
     (case result of
        Inl err \<Rightarrow> http_error ''durable publish unavailable'' 503
      | Inr _ \<Rightarrow> accepted [(''eventId'', EventID event), (''status'', ''accepted'')])"

text \<open>The handler after authentication: the three routes.\<close>

definition serve_tenant :: "codecs \<Rightarrow> 's gateway \<Rightarrow> http_request \<Rightarrow> string \<Rightarrow> 's \<Rightarrow> http_response \<times> 's" where
  "serve_tenant cs g r tenant s =
     (let body = MaxBytesReader (Body r) in
      if Path r = ''/v1/traces'' then
        let (result, s) = (if isProtobuf cs (ContentType r)
                           then acceptOTLPTracesProtobuf cs g tenant body s
                           else acceptOTLPJSON cs g tenant body s)
        in (otlp_response result, s)
      else if Path r = ''/v1/logs'' then
        let (result, s) = (if isProtobuf cs (ContentType r)
                           then acceptOTLPLogsProtobuf cs g tenant body s
                           else acceptOTLPLogsJSON cs g tenant body s)
        in (otlp_response result, s)
      else case decode_whole (DecodeEvent cs) body of
        None \<Rightarrow> (http_error ''invalid telemetry envelope'' 400, s)
      | Some event \<Rightarrow>
          if \<not> valid event then (http_error ''invalid telemetry envelope'' 400, s)
          else let (result, s) = acceptEvent (Compile cs) g tenant event s
               in (event_response event result, s))"

definition ServeHTTP :: "codecs \<Rightarrow> 's gateway \<Rightarrow> http_request \<Rightarrow> 's \<Rightarrow> http_response \<times> 's" where
  "ServeHTTP cs g r s =
     (if Method r \<noteq> ''POST'' \<or> (Path r \<noteq> ''/v1/ingest'' \<and> Path r \<noteq> ''/v1/traces'' \<and> Path r \<noteq> ''/v1/logs'')
      then (NotFound, s)
      else case Authenticator g of
        None \<Rightarrow> (http_error ''gateway unavailable'' 503, s)
      | Some authenticate \<Rightarrow>
          if Publisher g = None \<and> Stager g = None then (http_error ''gateway unavailable'' 503, s)
          else case authenticate (APIKey r) s of
            (Inl err, s) \<Rightarrow> (http_error ''gateway unavailable'' 503, s)
          | (Inr None, s) \<Rightarrow> (http_error ''unauthorized'' 401, s)
          | (Inr (Some tenant), s) \<Rightarrow> serve_tenant cs g r tenant s)"

subsection \<open>gRPC\<close>

datatype grpc_status =
    Status_InvalidArgument string
  | Status_Unavailable string
  | Status_Unauthenticated string

text \<open>\<^verbatim>\<open>metadata.MD\<close>: the values of a key; a nil map has none.\<close>

type_synonym metadata = "string \<Rightarrow> string list"

definition firstMetadata :: "metadata \<Rightarrow> string \<Rightarrow> string" where
  "firstMetadata md key = (case find (\<lambda>v. v \<noteq> []) (md (to_lower key)) of Some v \<Rightarrow> v | None \<Rightarrow> [])"

definition grpcError :: "go_error \<Rightarrow> grpc_status" where
  "grpcError err =
     (if err = ErrInvalidOTLP then Status_InvalidArgument ''invalid telemetry envelope''
      else Status_Unavailable ''durable publish unavailable'')"

definition grpc_authenticate ::
  "(string \<Rightarrow> ('s, go_error, string option) program) \<Rightarrow> metadata \<Rightarrow> ('s, grpc_status, string) program" where
  "grpc_authenticate authenticator md s =
     (case authenticator (firstMetadata md ''x-paop-api-key'') s of
        (Inl err, s) \<Rightarrow> (Inl (Status_Unavailable ''gateway unavailable''), s)
      | (Inr None, s) \<Rightarrow> (Inl (Status_Unauthenticated ''unauthorized''), s)
      | (Inr (Some tenant), s) \<Rightarrow> (Inr tenant, s))"

definition to_status :: "('s, go_error, unit) program \<Rightarrow> ('s, grpc_status, unit) program" where
  "to_status m s = (case m s of (Inl err, s) \<Rightarrow> (Inl (grpcError err), s) | (Inr u, s) \<Rightarrow> (Inr u, s))"

text \<open>A gateway without an authenticator panics here: the interface is nil.\<close>

definition Export ::
  "codecs \<Rightarrow> 's gateway \<Rightarrow> metadata \<Rightarrow> ExportTraceServiceRequest \<Rightarrow> ('s, grpc_status, unit) program option" where
  "Export cs g md request =
     map_option (\<lambda>authenticator.
         and_then (grpc_authenticate authenticator md) (\<lambda>tenant.
           to_status (acceptTraceRequest cs g tenant request ''otlp_grpc''))) (Authenticator g)"

definition ExportLogs ::
  "codecs \<Rightarrow> 's gateway \<Rightarrow> metadata \<Rightarrow> ExportLogsServiceRequest \<Rightarrow> ('s, grpc_status, unit) program option" where
  "ExportLogs cs g md request =
     map_option (\<lambda>authenticator.
         and_then (grpc_authenticate authenticator md) (\<lambda>tenant.
           to_status (acceptLogsRequest cs g tenant request ''otlp_grpc''))) (Authenticator g)"

subsection \<open>How an authenticated request runs\<close>

definition well_formed :: "event list \<Rightarrow> bool" where
  "well_formed events = (events \<noteq> [] \<and> length events \<le> 200 \<and> list_all valid events)"

text \<open>
  The events of a request: the one event of \<^verbatim>\<open>/v1/ingest\<close>, and one event for each span or log record of the two
  OTLP routes. \<^const>\<open>None\<close> is a body that cannot be read or decoded as a whole.
\<close>

definition request_events :: "codecs \<Rightarrow> http_request \<Rightarrow> event list option" where
  "request_events cs r =
     (let body = MaxBytesReader (Body r) in
      if Path r = ''/v1/traces'' then
        (if isProtobuf cs (ContentType r)
         then map_option (proto_span_events cs ''otlp_http_protobuf'') (readProto (UnmarshalTraces cs) body)
         else map_option (otlp_span_events cs) (decode_whole (DecodeTraces cs) body))
      else if Path r = ''/v1/logs'' then
        (if isProtobuf cs (ContentType r)
         then map_option (proto_log_events cs ''otlp_http_protobuf'') (readProto (UnmarshalLogs cs) body)
         else map_option (otlp_log_events cs) (decode_whole (DecodeLogs cs) body))
      else map_option (\<lambda>event. [event]) (decode_whole (DecodeEvent cs) body))"

text \<open>A front end either rejects the request at once or hands all its events on, well-formed as they are.\<close>

definition hands_on :: "codecs \<Rightarrow> 's gateway \<Rightarrow> string \<Rightarrow> event list option \<Rightarrow> ('s, go_error, unit) program \<Rightarrow> bool" where
  "hands_on cs g tenant wanted m =
     (\<forall>s. m s = (Inl ErrInvalidOTLP, s) \<or>
       (\<exists>events. wanted = Some events \<and> well_formed events \<and> m s = acceptEvents (Compile cs) g tenant events s))"

lemma hands_on_checked: "hands_on cs g tenant (Some events) (accept_collected cs g tenant (checked_events events))"
  by (auto simp: hands_on_def accept_checked well_formed_def)

lemma hands_on_fail: "hands_on cs g tenant wanted (fail_with ErrInvalidOTLP)"
  by (simp add: hands_on_def)

lemma adapters_hand_on:
  "hands_on cs g tenant (map_option (proto_span_events cs ''otlp_http_protobuf'') (readProto (UnmarshalTraces cs) body))
     (acceptOTLPTracesProtobuf cs g tenant body)"
  "hands_on cs g tenant (map_option (otlp_span_events cs) (decode_whole (DecodeTraces cs) body))
     (acceptOTLPJSON cs g tenant body)"
  "hands_on cs g tenant (map_option (proto_log_events cs ''otlp_http_protobuf'') (readProto (UnmarshalLogs cs) body))
     (acceptOTLPLogsProtobuf cs g tenant body)"
  "hands_on cs g tenant (map_option (otlp_log_events cs) (decode_whole (DecodeLogs cs) body))
     (acceptOTLPLogsJSON cs g tenant body)"
  "hands_on cs g tenant (Some (proto_span_events cs source trequest)) (acceptTraceRequest cs g tenant trequest source)"
  "hands_on cs g tenant (Some (proto_log_events cs source lrequest)) (acceptLogsRequest cs g tenant lrequest source)"
  by (simp_all add: acceptOTLPTracesProtobuf_def acceptOTLPJSON_def acceptOTLPLogsProtobuf_def
      acceptOTLPLogsJSON_def acceptTraceRequest_def acceptLogsRequest_def collected_events
      hands_on_checked hands_on_fail split: option.split)

lemma hands_on_result:
  assumes "hands_on cs g tenant wanted m" and "m s = (r, t)"
  shows "r = Inl ErrInvalidOTLP \<and> t = s \<or>
    (\<exists>events. wanted = Some events \<and> well_formed events \<and> acceptEvents (Compile cs) g tenant events s = (r, t))"
  using assms unfolding hands_on_def by (metis prod.inject)

lemma status_of [simp]:
  "Status (http_error message n) = n" "Status NotFound = 404" "Status (accepted obj) = 202"
  by (simp_all add: http_error_def NotFound_def accepted_def)

lemma Status_otlp_response:
  "Status (otlp_response result) =
     (case result of Inr _ \<Rightarrow> 202 | Inl err \<Rightarrow> if errors_is err ErrInvalidOTLP then 400 else 503)"
  by (simp add: otlp_response_def split: sum.split)

lemma Status_event_response:
  "Status (event_response event result) = (case result of Inr _ \<Rightarrow> 202 | Inl err \<Rightarrow> 503)"
  by (simp add: event_response_def split: sum.split)

definition runs_events ::
  "codecs \<Rightarrow> 's gateway \<Rightarrow> string \<Rightarrow> event list option \<Rightarrow> 's \<Rightarrow> http_response \<Rightarrow> 's \<Rightarrow> bool" where
  "runs_events cs g tenant wanted s response t =
     (\<exists>events. wanted = Some events \<and> well_formed events \<and>
        (acceptEvents (Compile cs) g tenant events s = (Inr (), t) \<and> Status response = 202 \<or>
         (\<exists>err. acceptEvents (Compile cs) g tenant events s = (Inl err, t) \<and>
            (Status response = 503 \<or> Status response = 400 \<and> errors_is err ErrInvalidOTLP))))"

lemma serve_otlp:
  assumes "hands_on cs g tenant wanted m" and "m s = (result, t)"
  shows "Status (otlp_response result) = 400 \<and> t = s \<or> runs_events cs g tenant wanted s (otlp_response result) t"
  using hands_on_result [OF assms]
  by (cases result) (auto simp: Status_otlp_response runs_events_def)

lemma serve_tenant_otlp:
  assumes "Path r = ''/v1/traces'' \<or> Path r = ''/v1/logs''"
  obtains m where "hands_on cs g tenant (request_events cs r) m"
    "serve_tenant cs g r tenant s = (case m s of (result, t) \<Rightarrow> (otlp_response result, t))"
  using assms
proof (elim disjE)
  assume "Path r = ''/v1/traces''"
  then show thesis
    using adapters_hand_on(1,2) that
    by (cases "isProtobuf cs (ContentType r)") (simp add: serve_tenant_def request_events_def, blast)+
next
  assume "Path r = ''/v1/logs''"
  then show thesis
    using adapters_hand_on(3,4) that
    by (cases "isProtobuf cs (ContentType r)") (simp add: serve_tenant_def request_events_def, blast)+
qed

lemma serve_tenant_cases:
  assumes "serve_tenant cs g r tenant s = (response, t)"
  shows "Status response = 400 \<and> t = s \<or> runs_events cs g tenant (request_events cs r) s response t"
proof (cases "Path r = ''/v1/traces'' \<or> Path r = ''/v1/logs''")
  case True
  then obtain m where m: "hands_on cs g tenant (request_events cs r) m"
    "serve_tenant cs g r tenant s = (case m s of (result, t) \<Rightarrow> (otlp_response result, t))"
    by (rule serve_tenant_otlp)
  obtain result t' where run: "m s = (result, t')" by fastforce
  have "response = otlp_response result" "t = t'" using assms m(2) run by simp_all
  with serve_otlp [OF m(1) run] show ?thesis by simp
next
  case False
  show ?thesis
  proof (cases "decode_whole (DecodeEvent cs) (MaxBytesReader (Body r))")
    case (Some event)
    obtain result t' where run: "acceptEvents (Compile cs) g tenant [event] s = (result, t')" by fastforce
    have "request_events cs r = Some [event]" using False Some by (simp add: request_events_def)
    then have "runs_events cs g tenant (request_events cs r) s (event_response event result) t'" if "valid event"
      using run that unfolding runs_events_def
      by (cases result; intro exI [of _ "[event]"]) (auto simp: well_formed_def Status_event_response)
    with assms False Some run show ?thesis
      by (auto simp: serve_tenant_def Let_def acceptEvent_def split: if_splits)
  qed (use assms False in \<open>auto simp: serve_tenant_def Let_def\<close>)
qed

lemma ServeHTTP_cases:
  assumes "ServeHTTP cs g r s = (response, t)"
  obtains
    (unrouted) "Status response \<in> {404, 503}" "t = s"
  | (unauthenticated) authenticate a where "Authenticator g = Some authenticate"
      "authenticate (APIKey r) s = (a, t)" "\<forall>tenant. a \<noteq> Inr (Some tenant)"
      "Status response = (case a of Inl _ \<Rightarrow> 503 | Inr _ \<Rightarrow> 401)"
  | (invalid) authenticate tenant where "Authenticator g = Some authenticate"
      "authenticate (APIKey r) s = (Inr (Some tenant), t)" "Status response = 400"
  | (run) authenticate tenant s' where "Authenticator g = Some authenticate"
      "authenticate (APIKey r) s = (Inr (Some tenant), s')" "runs_events cs g tenant (request_events cs r) s' response t"
proof (cases "Status response \<in> {404, 503} \<and> t = s")
  case False
  then obtain authenticate where auth: "Authenticator g = Some authenticate"
    using assms by (auto simp: ServeHTTP_def split: if_splits option.splits)
  obtain a s' where a: "authenticate (APIKey r) s = (a, s')" by fastforce
  show ?thesis
  proof (cases "\<exists>tenant. a = Inr (Some tenant)")
    case True
    then obtain tenant where "a = Inr (Some tenant)" by blast
    with assms auth a False have "serve_tenant cs g r tenant s' = (response, t)"
      by (auto simp: ServeHTTP_def split: if_splits)
    from serve_tenant_cases [OF this] \<open>a = Inr (Some tenant)\<close> show ?thesis
      using auth a invalid run by blast
  next
    case False
    with assms auth a \<open>\<not> (Status response \<in> {404, 503} \<and> t = s)\<close>
    have "t = s' \<and> Status response = (case a of Inl _ \<Rightarrow> 503 | Inr _ \<Rightarrow> 401)"
      by (auto simp: ServeHTTP_def split: if_splits sum.splits option.splits)
    with auth a False show ?thesis using unauthenticated by blast
  qed
qed (use unrouted in blast)

subsection \<open>Properties\<close>

definition sample_codecs :: codecs where
  "sample_codecs = \<lparr>Compile = \<lambda>_. None, DecodeEvent = \<lambda>content. Some (checkout_event content, True),
     DecodeTraces = \<lambda>_. None, DecodeLogs = \<lambda>_. None, UnmarshalTraces = \<lambda>_. None, UnmarshalLogs = \<lambda>_. None,
     ParseMediaType = Some, FormatFloat = \<lambda>_. ''1.5'', SpanKindString = \<lambda>_. ''SPAN_KIND_SERVER'',
     StatusCodeString = \<lambda>_. ''STATUS_CODE_OK''\<rparr>"

definition open_gateway :: "memory_publisher gateway" where
  "open_gateway = memory_gateway\<lparr>Authenticator := Some (\<lambda>_. ret (Some ''tenant-a''))\<rparr>"

definition ingest_request :: http_request where
  "ingest_request = \<lparr>Method = ''POST'', Path = ''/v1/ingest'', APIKey = ''k'', ContentType = '''',
     Body = Some ''Bearer a''\<rparr>"

definition empty_broker :: memory_publisher where
  "empty_broker = \<lparr>Envelopes = [], PublishErr = None\<rparr>"

text \<open>
  A request that the authenticator does not resolve to a tenant reaches nothing but the
  authenticator: its body is not read as telemetry, no policy is fetched and nothing is
  delivered. The answer is 401, or 503 when the authenticator itself fails.
\<close>

theorem unauthenticated_stops:
  assumes "Authenticator g = Some authenticate"
    and "authenticate (APIKey r) s = (a, s')" and "\<forall>tenant. a \<noteq> Inr (Some tenant)"
  shows "snd (ServeHTTP cs g r s) \<in> {s, s'} \<and> Status (fst (ServeHTTP cs g r s)) \<in> {404, 503, 401} \<and>
    fst (ServeHTTP cs g r s) = fst (ServeHTTP cs g (r\<lparr>Body := other\<rparr>) s)"
  using assms
  by (auto simp: ServeHTTP_def split: sum.splits option.splits)

lemma unauthenticated_stops_witness:
  "Status (fst (ServeHTTP sample_codecs (open_gateway\<lparr>Authenticator := Some (\<lambda>_. ret None)\<rparr>)
     ingest_request empty_broker)) \<in> {404, 503, 401}"
  using unauthenticated_stops [where g = "open_gateway\<lparr>Authenticator := Some (\<lambda>_. ret None)\<rparr>"
      and authenticate = "\<lambda>_. ret None" and s = empty_broker and s' = empty_broker and a = "Inr None"
      and r = ingest_request]
  by simp

text \<open>
  C18. 202 means delivered, and means everything: it is answered only after the authenticator named a tenant, the body
  decoded as a whole into between 1 and 200 valid events, and all of them, one for each span or log record of the
  request, were accepted in one call under that tenant with every delivery successful. No client can choose the
  tenant it writes to, and no part of a request is dropped.
\<close>

theorem accepted_means_delivered:
  assumes "ServeHTTP cs g r s = (response, t)" and "Status response = 202"
  shows "\<exists>authenticate tenant s' events. Authenticator g = Some authenticate \<and>
    authenticate (APIKey r) s = (Inr (Some tenant), s') \<and> request_events cs r = Some events \<and>
    events \<noteq> [] \<and> length events \<le> 200 \<and> list_all valid events \<and>
    acceptEvents (Compile cs) g tenant events s' = (Inr (), t)"
  using assms(1)
proof (cases rule: ServeHTTP_cases)
  case (run authenticate tenant s')
  then show ?thesis
    using assms(2) by (auto simp: runs_events_def well_formed_def)
qed (use assms(2) in \<open>auto split: sum.splits\<close>)

lemma ingest_request_run:
  "ServeHTTP sample_codecs open_gateway ingest_request \<lparr>Envelopes = [], PublishErr = None\<rparr> =
     (accepted [(''eventId'', ''evt-1''), (''status'', ''accepted'')],
      \<lparr>Envelopes = [make_envelope ''tenant-a'' ''v1'' [] (checkout_event ''Bearer a'')], PublishErr = None\<rparr>)"
proof -
  have "valid (checkout_event ''Bearer a'')" by (simp add: valid_checkout_event)
  then show ?thesis
    by (simp add: ServeHTTP_def serve_tenant_def open_gateway_def memory_gateway_def ingest_request_def
        sample_codecs_def MaxBytesReader_def decode_whole_def ingest_bounds acceptEvent_def acceptEvents_def
        policy_def add_envelope_def deliver_def and_then_def memory_publish_def event_response_def Let_def
        checkout_event_def)
qed

lemma accepted_means_delivered_witness:
  "\<exists>authenticate tenant s'. Authenticator open_gateway = Some authenticate \<and>
    authenticate ''k'' \<lparr>Envelopes = [], PublishErr = None\<rparr> = (Inr (Some tenant), s') \<and>
    request_events sample_codecs ingest_request = Some [checkout_event ''Bearer a''] \<and>
    fst (acceptEvents (\<lambda>_. None) open_gateway tenant [checkout_event ''Bearer a''] s') = Inr ()"
proof -
  have events: "request_events sample_codecs ingest_request = Some [checkout_event ''Bearer a'']"
    by (simp add: request_events_def ingest_request_def sample_codecs_def decode_whole_def MaxBytesReader_def ingest_bounds)
  have "APIKey ingest_request = ''k''" "Compile sample_codecs = (\<lambda>_. None)"
    by (simp_all add: ingest_request_def sample_codecs_def)
  then show ?thesis using accepted_means_delivered [OF ingest_request_run] events by auto
qed

definition no_otlp_errors :: "('s, go_error, 'a) program \<Rightarrow> bool" where
  "no_otlp_errors m = hoare (\<lambda>_. True) m (\<lambda>_ _. True) (\<lambda>e _. \<not> errors_is e ErrInvalidOTLP)"

lemma policy_no_otlp_errors:
  assumes "\<And>resolve. PolicyResolver g = Some resolve \<Longrightarrow> no_otlp_errors (resolve tenant)"
    and "policy compile g tenant s = (Inl err, t)"
  shows "\<not> errors_is err ErrInvalidOTLP"
  using assms
  by (auto simp: policy_def and_then_def add_expressions no_otlp_errors_def hoare_def
      split: option.splits sum.splits prod.splits if_splits)

text \<open>
  A request answered with 400 leaves no trace: when the policy source and the delivery do not
  themselves return the parser's error, the only thing that has run is the authenticator.
\<close>

theorem rejected_leaves_no_trace:
  assumes "ServeHTTP cs g r s = (response, t)" and "Status response = 400"
    and "\<And>resolve tenant. PolicyResolver g = Some resolve \<Longrightarrow> no_otlp_errors (resolve tenant)"
    and "\<And>envelopes. no_otlp_errors (deliver g envelopes)"
  shows "\<exists>authenticate tenant. Authenticator g = Some authenticate \<and>
    authenticate (APIKey r) s = (Inr (Some tenant), t)"
  using assms(1)
proof (cases rule: ServeHTTP_cases)
  case (run authenticate tenant s')
  then obtain events err where events: "well_formed events"
      "acceptEvents (Compile cs) g tenant events s' = (Inl err, t)" "errors_is err ErrInvalidOTLP"
    using assms(2) by (auto simp: runs_events_def)
  obtain p t' where p: "policy (Compile cs) g tenant s' = (p, t')" by fastforce
  have False
  proof (cases p)
    case (Inl e)
    with p events show False
      using policy_no_otlp_errors [of g tenant] assms(3) by (auto simp: acceptEvents_no_policy)
  next
    case (Inr a)
    obtain version patterns where "a = (version, patterns)" by fastforce
    with p Inr events have "deliver g (map (make_envelope tenant version patterns) events) t' = (Inl err, t)"
      by (simp add: acceptEvents_run well_formed_def)
    from hoare_InlD [OF assms(4) [unfolded no_otlp_errors_def] TrueI this] events(3)
    show False by simp
  qed
  then show ?thesis ..
qed (use assms(2) in \<open>auto split: sum.splits\<close>)

definition staging_gateway :: "nat gateway" where
  "staging_gateway = \<lparr>Authenticator = Some (\<lambda>_ n. (Inr (Some ''tenant-a''), Suc n)), Publisher = None,
     Stager = Some (StageBatch (\<lambda>_. fail_with Unavailable)), GatewayPolicyVersion = ''v1'', Patterns = [],
     PolicyResolver = None\<rparr>"

lemma rejected_leaves_no_trace_witness:
  "snd (ServeHTTP sample_codecs staging_gateway (ingest_request\<lparr>Path := ''/v1/traces''\<rparr>) 0) = 1"
proof -
  let ?r = "ingest_request\<lparr>Path := ''/v1/traces''\<rparr>"
  have run: "ServeHTTP sample_codecs staging_gateway ?r 0
      = (http_error ''invalid telemetry envelope'' 400, snd (ServeHTTP sample_codecs staging_gateway ?r 0))"
    by (simp add: ServeHTTP_def serve_tenant_def staging_gateway_def ingest_request_def sample_codecs_def
        isProtobuf_def MaxBytesReader_def ingest_bounds acceptOTLPJSON_def decode_whole_def otlp_response_def)
  show ?thesis
    using rejected_leaves_no_trace [OF run]
    by (auto simp: staging_gateway_def deliver_def no_otlp_errors_def hoare_def)
qed

text \<open>
  The gRPC services apply the rules of the HTTP adapters: for a caller the authenticator
  knows, a trace request with 1 to 200 valid spans is delivered under the caller's tenant and
  answered with the outcome of the delivery; any other is refused as an invalid argument with
  nothing delivered, and an unknown caller is refused before the request is looked at.
\<close>

theorem grpc_export:
  assumes "Authenticator g = Some authenticate"
    and "authenticate (firstMetadata md ''x-paop-api-key'') s = (a, s')"
  shows "map_option (\<lambda>m. m s) (Export cs g md request) = Some
     (case a of
        Inl err \<Rightarrow> (Inl (Status_Unavailable ''gateway unavailable''), s')
      | Inr None \<Rightarrow> (Inl (Status_Unauthenticated ''unauthorized''), s')
      | Inr (Some tenant) \<Rightarrow>
          let events = proto_span_events cs ''otlp_grpc'' request
          in if events \<noteq> [] \<and> length events \<le> 200 \<and> list_all valid events
             then (case acceptEvents (Compile cs) g tenant events s' of
                     (Inl err, t) \<Rightarrow> (Inl (grpcError err), t) | (Inr u, t) \<Rightarrow> (Inr u, t))
             else (Inl (Status_InvalidArgument ''invalid telemetry envelope''), s'))"
proof -
  have auth: "grpc_authenticate authenticate md s =
      (case a of Inl err \<Rightarrow> (Inl (Status_Unavailable ''gateway unavailable''), s')
       | Inr None \<Rightarrow> (Inl (Status_Unauthenticated ''unauthorized''), s') | Inr (Some tenant) \<Rightarrow> (Inr tenant, s'))"
    by (simp add: grpc_authenticate_def assms(2) split: sum.split option.split)
  show ?thesis
    by (auto simp: Export_def assms(1) and_then_def auth to_status_def acceptTraceRequest_def
        collected_events accept_checked grpcError_def Let_def split: sum.split option.split prod.split)
qed

definition grpc_gateway :: "memory_publisher gateway" where
  "grpc_gateway = memory_gateway\<lparr>Authenticator :=
     Some (\<lambda>key. ret (if key = ''secret'' then Some ''tenant-a'' else None))\<rparr>"

lemma grpc_export_witness:
  "map_option (\<lambda>m. m empty_broker) (Export sample_codecs grpc_gateway
      (\<lambda>key. if key = ''x-paop-api-key'' then ['''', ''wrong''] else []) [])
   = Some (Inl (Status_Unauthenticated ''unauthorized''), empty_broker)"
proof -
  have "firstMetadata (\<lambda>key. if key = ''x-paop-api-key'' then ['''', ''wrong''] else []) ''x-paop-api-key'' = ''wrong''"
    by (simp add: firstMetadata_def, code_simp)
  then show ?thesis
    by (subst grpc_export [where authenticate = "\<lambda>key. ret (if key = ''secret'' then Some ''tenant-a'' else None)"
          and a = "Inr None" and s' = empty_broker])
       (simp_all add: grpc_gateway_def)
qed
end
