(* ===== verification/Postgres.thy ===== *)
theory Postgres
  imports Ingest "HOL-Library.Multiset"
begin

text \<open>
  The PostgreSQL database of \<^verbatim>\<open>internal/metadata\<close>: the tables of \<^verbatim>\<open>db/migrations\<close> as lists of rows in
  storage order, and what a client sees of a session.

  A statement is a function on the database that either fails on a constraint or returns its
  result with the changed database. Each statement, each \<^verbatim>\<open>BEGIN\<close> and each \<^verbatim>\<open>COMMIT\<close> consumes one
  \<open>tick\<close> of the session's script, which says how long it took, whether it got through, and which
  rows other sessions have locked (for \<^verbatim>\<open>skip locked\<close>); past its end nothing fails. A transaction
  sees one time, \<^verbatim>\<open>now()\<close>, and leaves the database alone unless it commits; a commit can take
  effect and still be reported as an error. Transactions run one after the other here: the
  row locks and the advisory locks they take are what makes the concurrent ones equivalent to
  that. Serial ids are the storage order. Envelopes go to \<^verbatim>\<open>jsonb\<close> and back unchanged.
\<close>

subsection \<open>Tables\<close>

record api_key_row =
  ak_tenant :: string
  ak_hash :: string
  ak_disabled_at :: "int option"

record policy_row =
  rp_tenant :: string
  rp_version :: string
  rp_expression :: string
  rp_created_at :: int

record audit_row =
  au_tenant :: "string option"
  au_action :: string
  au_metadata :: attrs
  au_created_at :: int

datatype delivery_status = Pending | Persisted | LossEvidenced

record ledger_row =
  lg_key :: string
  lg_tenant :: string
  lg_status :: delivery_status
  lg_attempts :: nat
  lg_error :: "string option"
  lg_updated_at :: int

record dead_letter_row =
  dl_tenant :: "string option"
  dl_event_key :: "string option"
  dl_version :: int
  dl_reason :: string
  dl_digest :: string
  dl_partition :: int
  dl_offset :: int
  dl_created_at :: int

record retention_row =
  rt_tenant :: string
  rt_days :: int

record trace_row =
  tr_tenant :: string
  tr_trace :: string
  tr_first_seen :: int
  tr_last_seen :: int
  tr_generation :: int
  tr_span_count :: nat
  tr_lease_owner :: "string option"
  tr_lease_expires :: "int option"
  tr_decision :: "string option"
  tr_decided_at :: "int option"

record buffer_row =
  bf_key :: string
  bf_tenant :: string
  bf_trace :: string
  bf_envelope :: envelope
  bf_received_at :: int

record decision_row =
  dc_tenant :: string
  dc_trace :: string
  dc_reason :: string
  dc_retained :: bool
  dc_span_count :: nat
  dc_created_at :: int

record outbox_row =
  ob_key :: string
  ob_tenant :: string
  ob_envelope :: envelope
  ob_attempts :: nat
  ob_lease_owner :: "string option"
  ob_lease_expires :: "int option"
  ob_published_at :: "int option"
  ob_created_at :: int

record event_key_row =
  ek_key :: string
  ek_tenant :: string
  ek_trace :: string
  ek_created_at :: int

record db =
  tenants :: "string list"
  api_keys :: "api_key_row list"
  redaction_policies :: "policy_row list"
  audit_events :: "audit_row list"
  ledger :: "ledger_row list"
  dead_letters :: "dead_letter_row list"
  retention :: "retention_row list"
  tail_traces :: "trace_row list"
  tail_buffers :: "buffer_row list"
  tail_decisions :: "decision_row list"
  tail_outbox :: "outbox_row list"
  tail_event_keys :: "event_key_row list"

subsection \<open>Sessions\<close>

datatype outcome = Done | Refused | Unacked

record tick =
  took :: outcome
  elapsed :: nat
  held :: "string \<Rightarrow> string list \<Rightarrow> bool"

definition quiet_tick :: tick where
  "quiet_tick = \<lparr>took = Done, elapsed = 0, held = \<lambda>_ _. False\<rparr>"

record pg =
  database :: db
  clock :: int
  script :: "tick list"

text \<open>A statement: given the locks of others and \<^verbatim>\<open>now()\<close>.\<close>

type_synonym 'a sql = "(string \<Rightarrow> string list \<Rightarrow> bool) \<Rightarrow> int \<Rightarrow> db \<Rightarrow> go_error + 'a \<times> db"

definition next_tick :: "pg \<Rightarrow> tick \<times> pg" where
  "next_tick s =
     (case script s of
        [] \<Rightarrow> (quiet_tick, s)
      | t # ts \<Rightarrow> (t, s\<lparr>script := ts, clock := clock s + int (elapsed t)\<rparr>))"

text \<open>A statement of a transaction that began at \<open>now\<close>.\<close>

definition tx_stmt :: "int \<Rightarrow> 'a sql \<Rightarrow> (pg, go_error, 'a) program" where
  "tx_stmt now f s =
     (let (t, s) = next_tick s
      in if took t \<noteq> Done then (Inl Unavailable, s)
         else case f (held t) now (database s) of
           Inl err \<Rightarrow> (Inl err, s)
         | Inr (a, d) \<Rightarrow> (Inr a, s\<lparr>database := d\<rparr>))"

text \<open>A statement on its own is a transaction on its own.\<close>

definition autocommit :: "'a sql \<Rightarrow> (pg, go_error, 'a) program" where
  "autocommit f s =
     (let (t, s) = next_tick s
      in if took t = Refused then (Inl Unavailable, s)
         else case f (held t) (clock s) (database s) of
           Inl err \<Rightarrow> (Inl err, s)
         | Inr (a, d) \<Rightarrow> (if took t = Unacked then Inl Unavailable else Inr a, s\<lparr>database := d\<rparr>))"

text \<open>
  \<^verbatim>\<open>BeginTx\<close>, the body, \<^verbatim>\<open>Commit\<close> when the body returns a value, and the deferred \<^verbatim>\<open>Rollback\<close> when it
  returns an error.
\<close>

definition in_tx :: "(int \<Rightarrow> (pg, go_error, 'a) program) \<Rightarrow> (pg, go_error, 'a) program" where
  "in_tx body s =
     (let (t, s) = next_tick s
      in if took t \<noteq> Done then (Inl Unavailable, s)
         else case body (clock s) s of
           (Inl err, s') \<Rightarrow> (Inl err, s'\<lparr>database := database s\<rparr>)
         | (Inr a, s') \<Rightarrow>
             let (c, s'') = next_tick s'
             in case took c of
                  Done \<Rightarrow> (Inr a, s'')
                | Unacked \<Rightarrow> (Inl Unavailable, s'')
                | Refused \<Rightarrow> (Inl Unavailable, s''\<lparr>database := database s\<rparr>))"

subsection \<open>Statements\<close>

definition select :: "(db \<Rightarrow> 'a) \<Rightarrow> 'a sql" where
  "select q = (\<lambda>_ _ d. Inr (q d, d))"

definition update_where :: "('r \<Rightarrow> bool) \<Rightarrow> ('r \<Rightarrow> 'r) \<Rightarrow> 'r list \<Rightarrow> 'r list" where
  "update_where p f rows = map (\<lambda>r. if p r then f r else r) rows"

definition delete_where :: "('r \<Rightarrow> bool) \<Rightarrow> 'r list \<Rightarrow> 'r list" where
  "delete_where p rows = filter (\<lambda>r. \<not> p r) rows"

definition count_where :: "('r \<Rightarrow> bool) \<Rightarrow> 'r list \<Rightarrow> nat" where
  "count_where p rows = length (filter p rows)"

text \<open>\<^verbatim>\<open>order by\<close> ascending; rows that tie stay in storage order.\<close>

definition ordered_by :: "('r \<Rightarrow> 'k :: linorder) \<Rightarrow> 'r list \<Rightarrow> 'r list" where
  "ordered_by k rows = sort_key k rows"

lemma set_update_where: "set (update_where p f rows) = (\<lambda>r. if p r then f r else r) ` set rows"
  by (simp add: update_where_def)

lemma ball_update_where:
  "(\<forall>x \<in> set (update_where p f rows). P x) \<longleftrightarrow> (\<forall>r \<in> set rows. P (if p r then f r else r))"
  by (auto simp: update_where_def)

lemma bex_update_where:
  "(\<exists>x \<in> set (update_where p f rows). P x) \<longleftrightarrow> (\<exists>r \<in> set rows. P (if p r then f r else r))"
  by (auto simp: update_where_def)

lemma set_delete_where [simp]: "set (delete_where p rows) = {r \<in> set rows. \<not> p r}"
  by (auto simp: delete_where_def)

lemma length_update_where [simp]: "length (update_where p f rows) = length rows"
  by (simp add: update_where_def)

lemma map_update_where:
  "(\<And>r. p r \<Longrightarrow> g (f r) = g r) \<Longrightarrow> map g (update_where p f rows) = map g rows"
  by (simp add: update_where_def)

lemma distinct_delete_where: "distinct (map g rows) \<Longrightarrow> distinct (map g (delete_where p rows))"
  by (simp add: delete_where_def distinct_map_filter)

lemma filter_delete_where [simp]: "filter q (delete_where p rows) = filter (\<lambda>r. \<not> p r \<and> q r) rows"
  by (simp add: delete_where_def conj_commute)

lemma count_where_0 [simp]: "count_where p rows = 0 \<longleftrightarrow> (\<forall>r \<in> set rows. \<not> p r)"
  by (auto simp: count_where_def filter_empty_conv)

lemma count_where_append [simp]: "count_where p (xs @ ys) = count_where p xs + count_where p ys"
  by (simp add: count_where_def)

lemma count_where_delete: "count_where q (delete_where p rows) = count_where (\<lambda>r. \<not> p r \<and> q r) rows"
  by (simp add: count_where_def)

lemma count_where_cong: "(\<And>r. r \<in> set rows \<Longrightarrow> p r = q r) \<Longrightarrow> count_where p rows = count_where q rows"
  by (metis count_where_def filter_cong)

lemma count_where_mono: "(\<And>r. p r \<Longrightarrow> q r) \<Longrightarrow> count_where p rows \<le> count_where q rows"
  by (induction rows) (auto simp: count_where_def)

lemma set_ordered_by [simp]: "set (ordered_by k rows) = set rows"
  by (simp add: ordered_by_def)

lemma find_SomeD: "find p xs = Some x \<Longrightarrow> x \<in> set xs \<and> p x"
  by (auto simp: find_Some_iff)

lemma find_unique:
  assumes "x \<in> set xs" and "p x" and "\<And>y. y \<in> set xs \<Longrightarrow> p y \<Longrightarrow> y = x"
  shows "find p xs = Some x"
proof -
  have "find p xs \<noteq> None" using assms(1,2) by (auto simp: find_None_iff)
  then obtain y where "find p xs = Some y" by blast
  with find_SomeD [OF this] assms(3) show ?thesis by simp
qed

subsection \<open>Reasoning about transactions\<close>

text \<open>
  \<open>yields m d a d'\<close>: some run of \<open>m\<close> from the database \<open>d\<close> returns \<open>a\<close> and leaves \<open>d'\<close>. What a
  transaction does to the database when it succeeds follows from what its statements do.
\<close>

definition yields :: "(pg, go_error, 'a) program \<Rightarrow> db \<Rightarrow> 'a \<Rightarrow> db \<Rightarrow> bool" where
  "yields m d a d' = (\<exists>s s'. m s = (Inr a, s') \<and> database s = d \<and> database s' = d')"

named_theorems yields_elims \<open>what a successful run of a construct is made of\<close>
named_theorems timely_rules \<open>programs under which the clock never goes back\<close>

lemma next_tick_simps:
  "next_tick s = (t, s') \<Longrightarrow> database s' = database s \<and> clock s \<le> clock s'"
  by (auto simp: next_tick_def split: list.splits)

lemma next_tick_empty [simp]: "script s = [] \<Longrightarrow> next_tick s = (quiet_tick, s)"
  by (simp add: next_tick_def)

lemma quiet_tick_simps [simp]: "took quiet_tick = Done" "elapsed quiet_tick = 0" "held quiet_tick = (\<lambda>_ _. False)"
  by (simp_all add: quiet_tick_def)

lemma yields_tx_stmt [yields_elims]:
  assumes "yields (tx_stmt now f) d a d'"
  obtains locked where "f locked now d = Inr (a, d')"
proof -
  obtain s s' where s: "tx_stmt now f s = (Inr a, s')" "database s = d" "database s' = d'"
    using assms by (auto simp: yields_def)
  obtain t s1 where t: "next_tick s = (t, s1)" by fastforce
  have "f (held t) now d = Inr (a, d')"
    using s t next_tick_simps [OF t]
    by (auto simp: tx_stmt_def Let_def split: if_splits sum.splits prod.splits)
  then show thesis by (rule that)
qed

lemma yields_select:
  assumes "yields (tx_stmt now (select q)) d a d'"
  obtains "a = q d" "d' = d"
  using assms by (auto simp: select_def elim!: yields_tx_stmt)

lemma yields_and_then [yields_elims]:
  assumes "yields (and_then m k) d b d'"
  obtains a d1 where "yields m d a d1" "yields (k a) d1 b d'"
  using assms unfolding yields_def and_then_def
  by (fastforce split: sum.splits prod.splits)

lemma yields_ret [yields_elims]:
  assumes "yields (ret a) d b d'"
  obtains "b = a" "d' = d"
  using assms by (auto simp: yields_def)

lemma yields_fail_with [simp]: "\<not> yields (fail_with e) d a d'"
  by (auto simp: yields_def)

lemma yields_each:
  assumes "yields (each f xs) d u d'" and "P 0 d"
    and "\<And>i d1 d2. i < length xs \<Longrightarrow> P i d1 \<Longrightarrow> yields (f (xs ! i)) d1 () d2 \<Longrightarrow> P (Suc i) d2"
  shows "P (length xs) d'"
  using assms
proof (induction xs arbitrary: d P)
  case (Cons x xs)
  obtain d1 where x: "yields (f x) d () d1" and xs: "yields (each f xs) d1 u d'"
    using Cons.prems(1) by (auto elim!: yields_and_then)
  have "P (Suc 0) d1" using Cons.prems(3) [of 0 d d1] Cons.prems(2) x by simp
  then show ?case
    using Cons.IH [OF xs, of "\<lambda>i. P (Suc i)"] Cons.prems(3) [of "Suc i" for i] by fastforce
qed (auto elim: yields_ret)

lemma yields_each_invariant:
  assumes "yields (each f xs) d u d'" and "I d"
    and "\<And>x d1 d2. x \<in> set xs \<Longrightarrow> I d1 \<Longrightarrow> yields (f x) d1 () d2 \<Longrightarrow> I d2"
  shows "I d'"
  using assms(1)
  by (rule yields_each [where P = "\<lambda>_. I"]) (use assms(2,3) nth_mem in blast)+

definition timely :: "(pg, go_error, 'a) program \<Rightarrow> bool" where
  "timely m = (\<forall>s. clock s \<le> clock (snd (m s)))"

lemma timely_ret [timely_rules]: "timely (ret a)"
  by (simp add: timely_def)

lemma timely_fail_with [timely_rules]: "timely (fail_with e)"
  by (simp add: timely_def)

lemma timely_tx_stmt [timely_rules]: "timely (tx_stmt now f)"
  unfolding timely_def tx_stmt_def
  by (auto simp: Let_def split: prod.split sum.split dest!: next_tick_simps)

lemma timely_and_then [timely_rules]:
  assumes "timely m" and "\<And>a. timely (k a)"
  shows "timely (and_then m k)"
  unfolding timely_def
proof
  fix s
  obtain r s1 where m: "m s = (r, s1)" by fastforce
  have "clock s \<le> clock s1" using assms(1) m by (metis timely_def snd_conv)
  moreover have "clock s1 \<le> clock (snd (k a s1))" for a using assms(2) by (simp add: timely_def)
  ultimately show "clock s \<le> clock (snd (and_then m k s))"
    using m by (cases r) (auto simp: and_then_def intro: order_trans)
qed

lemma timely_each [timely_rules]: "(\<And>x. timely (f x)) \<Longrightarrow> timely (each f xs)"
  by (induction xs) (auto intro: timely_rules)

lemma timely_if [timely_rules]: "timely m \<Longrightarrow> timely n \<Longrightarrow> timely (if b then m else n)"
  by simp

lemma timely_option [timely_rules]:
  "timely m \<Longrightarrow> (\<And>a. timely (n a)) \<Longrightarrow> timely (case x of None \<Rightarrow> m | Some a \<Rightarrow> n a)"
  by (simp split: option.split)

lemma timely_prod [timely_rules]: "(\<And>a b. timely (n a b)) \<Longrightarrow> timely (case x of (a, b) \<Rightarrow> n a b)"
  by (simp split: prod.split)

lemma timely_Let [timely_rules]: "(\<And>a. timely (n a)) \<Longrightarrow> timely (let a = x in n a)"
  by simp

text \<open>A transaction changes nothing, or does all that its body does, at one time.\<close>

lemma in_tx_cases:
  assumes "in_tx body s = (r, s')" and "\<And>now. timely (body now)"
  obtains (unchanged) "\<exists>err. r = Inl err" "database s' = database s" "clock s \<le> clock s'"
  | (all) a now where "yields (body now) (database s) a (database s')"
      "clock s \<le> now" "now \<le> clock s'" "r = Inr a \<or> r = Inl Unavailable"
proof -
  obtain t s0 where t: "next_tick s = (t, s0)" by fastforce
  note ts = next_tick_simps [OF t]
  obtain b s1 where b: "body (clock s0) s0 = (b, s1)" by fastforce
  have s1: "clock s0 \<le> clock s1" using assms(2) b by (metis timely_def snd_conv)
  obtain c s2 where c: "next_tick s1 = (c, s2)" by fastforce
  note cs = next_tick_simps [OF c]
  show thesis
  proof (cases "took t \<noteq> Done")
    case True
    then show thesis using assms(1) t ts by (intro unchanged) (auto simp: in_tx_def Let_def)
  next
    case False
    show thesis
    proof (cases b)
      case (Inl err)
      then show thesis using assms(1) t ts b s1 False
        by (intro unchanged) (auto simp: in_tx_def Let_def)
    next
      case (Inr a)
      have y: "yields (body (clock s0)) (database s) a (database s1)"
        using b Inr ts by (auto simp: yields_def)
      show thesis
        using assms(1) t ts b s1 c cs False Inr y
        by (cases "took c") (auto simp: in_tx_def Let_def intro: unchanged all)
    qed
  qed
qed

lemma autocommit_cases:
  assumes "autocommit f s = (r, s')"
  obtains (unchanged) "\<exists>err. r = Inl err" "database s' = database s" "clock s \<le> clock s'"
  | (all) a locked where "f locked (clock s') (database s) = Inr (a, database s')"
      "clock s \<le> clock s'" "r = Inr a \<or> r = Inl Unavailable"
proof -
  obtain t s0 where t: "next_tick s = (t, s0)" by fastforce
  note ts = next_tick_simps [OF t]
  have "(\<exists>err. r = Inl err) \<and> database s' = database s \<and> clock s \<le> clock s' \<or>
    (\<exists>a locked. f locked (clock s') (database s) = Inr (a, database s') \<and>
       clock s \<le> clock s' \<and> (r = Inr a \<or> r = Inl Unavailable))"
    using assms t ts
    by (cases "took t"; cases "f (held t) (clock s0) (database s0)")
       (auto simp: autocommit_def Let_def split: prod.splits)
  then show thesis using unchanged all by blast
qed

text \<open>Without faults.\<close>

lemma tx_stmt_quiet [program_simps]:
  "script s = [] \<Longrightarrow> tx_stmt now f s =
     (case f (\<lambda>_ _. False) now (database s) of
        Inl err \<Rightarrow> (Inl err, s) | Inr (a, d) \<Rightarrow> (Inr a, s\<lparr>database := d\<rparr>))"
  by (simp add: tx_stmt_def)

lemma autocommit_quiet [program_simps]:
  "script s = [] \<Longrightarrow> autocommit f s =
     (case f (\<lambda>_ _. False) (clock s) (database s) of
        Inl err \<Rightarrow> (Inl err, s) | Inr (a, d) \<Rightarrow> (Inr a, s\<lparr>database := d\<rparr>))"
  by (simp add: autocommit_def split: sum.split)

lemma in_tx_quiet [program_simps]:
  "script s = [] \<Longrightarrow> body (clock s) s = (Inr a, s') \<Longrightarrow> script s' = [] \<Longrightarrow> in_tx body s = (Inr a, s')"
  by (simp add: in_tx_def)

end
