(* ===== verification/Metadata.thy ===== *)
theory Metadata
  imports Postgres "HOL-Library.Option_ord"
begin

text \<open>
  \<^verbatim>\<open>internal/metadata/store.go\<close>: tenants and their keys, redaction policies, the delivery ledger, dead
  letters, retention and the audit log. The ledger is the authority over what has been written
  to ClickHouse; its states are ordered by what may follow what.
\<close>

record RetentionPolicy =
  PolicyTenantID :: string
  PolicyDays :: int

record AuditEvent =
  AuditAction :: string
  SafeMetadata :: attrs
  AuditCreatedAt :: int

subsection \<open>Tenants and keys\<close>

definition HashAPIKey :: "string \<Rightarrow> string" where
  "HashAPIKey key = hex_encode (sha256 (bytes_of key))"

definition Tenant :: "string \<Rightarrow> (pg, go_error, string option) program" where
  "Tenant key = autocommit (select (\<lambda>d.
     map_option ak_tenant
       (find (\<lambda>k. ak_hash k = HashAPIKey key \<and> ak_disabled_at k = None) (api_keys d))))"

definition insert_tenant :: "string \<Rightarrow> unit sql" where
  "insert_tenant tenantID = (\<lambda>_ now d.
     Inr ((), if tenantID \<in> set (tenants d) then d else d\<lparr>tenants := tenants d @ [tenantID]\<rparr>))"

definition insert_api_key :: "string \<Rightarrow> string \<Rightarrow> unit sql" where
  "insert_api_key tenantID keyHash = (\<lambda>_ now d.
     if list_ex (\<lambda>k. ak_hash k = keyHash) (api_keys d) then Inr ((), d)
     else if tenantID \<notin> set (tenants d) then Inl (Constraint ''api_keys_tenant_id_fkey'')
     else Inr ((), d\<lparr>api_keys := api_keys d @
       [\<lparr>ak_tenant = tenantID, ak_hash = keyHash, ak_disabled_at = None\<rparr>]\<rparr>))"

definition CreateTenantKey :: "string \<Rightarrow> string \<Rightarrow> (pg, go_error, unit) program" where
  "CreateTenantKey tenantID keyHash =
     in_tx (\<lambda>now. and_then (tx_stmt now (insert_tenant tenantID)) (\<lambda>_.
                   tx_stmt now (insert_api_key tenantID keyHash)))"

subsection \<open>Redaction policies\<close>

text \<open>
  \<open>rank\<close> is the database's collation: the place of a text in its sort order. Of several policy
  rows with the latest time the first in storage order is the one \<^verbatim>\<open>limit 1\<close> gives.
\<close>

definition latest_policy :: "(string \<Rightarrow> int) \<Rightarrow> string \<Rightarrow> db \<Rightarrow> (string \<times> string) list" where
  "latest_policy rank tenantID d =
     (let own = filter (\<lambda>p. rp_tenant p = tenantID) (redaction_policies d)
      in case ordered_by (\<lambda>p. - rp_created_at p) own of
           [] \<Rightarrow> []
         | latest # _ \<Rightarrow>
             map (\<lambda>p. (rp_version p, rp_expression p))
               (ordered_by (\<lambda>p. rank (rp_expression p)) (filter (\<lambda>p. rp_version p = rp_version latest) own)))"

definition add_policy_row ::
  "string \<times> string \<Rightarrow> string \<times> string list \<Rightarrow> go_error + string \<times> string list" where
  "add_policy_row row acc =
     (let (currentVersion, expression) = row; (version, expressions) = acc
      in if length expression = 0 \<or> length expression > 512
         then Inl (Errorf ''stored redaction expression invalid'')
         else Inr (currentVersion, expressions @ [expression]))"

definition RedactionPolicy ::
  "(string \<Rightarrow> int) \<Rightarrow> string \<Rightarrow> (pg, go_error, string \<times> string list \<times> bool) program" where
  "RedactionPolicy rank tenantID =
     and_then (autocommit (select (latest_policy rank tenantID))) (\<lambda>rows.
       case fold_or_fail add_policy_row rows ([], []) of
         Inl err \<Rightarrow> fail_with err
       | Inr (version, expressions) \<Rightarrow> ret (version, expressions, version \<noteq> []))"

subsection \<open>The delivery ledger\<close>

definition is_delivery :: "string \<Rightarrow> ledger_row \<Rightarrow> bool" where
  "is_delivery eventKey r = (lg_key r = eventKey)"

text \<open>
  \<^verbatim>\<open>insert ... on conflict do update ... where status = 'pending' returning status\<close>: \<^const>\<open>None\<close> is no row.
\<close>

definition claim_delivery :: "string \<Rightarrow> string \<Rightarrow> delivery_status option sql" where
  "claim_delivery eventKey tenantID = (\<lambda>_ now d.
     case find (is_delivery eventKey) (ledger d) of
       None \<Rightarrow>
         if tenantID \<notin> set (tenants d) then Inl (Constraint ''delivery_ledger_tenant_id_fkey'')
         else Inr (Some Pending, d\<lparr>ledger := ledger d @
           [\<lparr>lg_key = eventKey, lg_tenant = tenantID, lg_status = Pending, lg_attempts = 1,
             lg_error = None, lg_updated_at = now\<rparr>]\<rparr>)
     | Some r \<Rightarrow>
         if lg_status r \<noteq> Pending then Inr (None, d)
         else Inr (Some Pending, d\<lparr>ledger := update_where (is_delivery eventKey)
           (\<lambda>r. r\<lparr>lg_attempts := lg_attempts r + 1, lg_updated_at := now\<rparr>) (ledger d)\<rparr>))"

definition ClaimDelivery :: "string \<Rightarrow> string \<Rightarrow> (pg, go_error, bool) program" where
  "ClaimDelivery eventKey tenantID =
     and_then (autocommit (claim_delivery eventKey tenantID)) (\<lambda>status.
       case status of None \<Rightarrow> ret False | Some status \<Rightarrow> ret (status = Pending))"

definition settle_delivery :: "string \<Rightarrow> delivery_status \<Rightarrow> string option \<Rightarrow> nat sql" where
  "settle_delivery eventKey status errorClass = (\<lambda>_ now d.
     let chosen = (\<lambda>r. is_delivery eventKey r \<and> lg_status r = Pending)
     in Inr (count_where chosen (ledger d), d\<lparr>ledger := update_where chosen
          (\<lambda>r. r\<lparr>lg_status := status, lg_error := errorClass, lg_updated_at := now\<rparr>) (ledger d)\<rparr>))"

definition MarkPersisted :: "string \<Rightarrow> (pg, go_error, unit) program" where
  "MarkPersisted eventKey =
     and_then (autocommit (settle_delivery eventKey Persisted None)) (\<lambda>changed.
       if changed \<noteq> 1 then fail_with (Errorf ''delivery ledger not pending'') else ret ())"

definition RecordLoss :: "string \<Rightarrow> string \<Rightarrow> (pg, go_error, unit) program" where
  "RecordLoss eventKey errorClass =
     and_then (autocommit (settle_delivery eventKey LossEvidenced (Some errorClass))) (\<lambda>_. ret ())"

subsection \<open>Dead letters, retention and audit\<close>

definition insert_dead_letter ::
  "string option \<Rightarrow> string option \<Rightarrow> int \<Rightarrow> string \<Rightarrow> string \<Rightarrow> int \<Rightarrow> int \<Rightarrow> unit sql" where
  "insert_dead_letter tenant eventKey schemaVersion reason payloadSHA256 part offset = (\<lambda>_ now d.
     if reason \<notin> {''unknown_schema_version'', ''malformed_envelope''}
     then Inl (Constraint ''telemetry_dead_letters_reason_check'')
     else if list_ex (\<lambda>l. dl_partition l = part \<and> dl_offset l = offset) (dead_letters d) then Inr ((), d)
     else if (case tenant of None \<Rightarrow> False | Some t \<Rightarrow> t \<notin> set (tenants d))
     then Inl (Constraint ''telemetry_dead_letters_tenant_id_fkey'')
     else Inr ((), d\<lparr>dead_letters := dead_letters d @
       [\<lparr>dl_tenant = tenant, dl_event_key = eventKey, dl_version = schemaVersion, dl_reason = reason,
         dl_digest = payloadSHA256, dl_partition = part, dl_offset = offset, dl_created_at = now\<rparr>]\<rparr>))"

definition RecordDeadLetter ::
  "string \<Rightarrow> string \<Rightarrow> int \<Rightarrow> string \<Rightarrow> string \<Rightarrow> int \<Rightarrow> int \<Rightarrow> (pg, go_error, unit) program" where
  "RecordDeadLetter tenantID eventKey schemaVersion reason payloadSHA256 part offset =
     (let nullableTenant = (if tenantID \<noteq> [] then Some tenantID else None);
          nullableKey = (if eventKey \<noteq> [] then Some eventKey else None)
      in autocommit (insert_dead_letter nullableTenant nullableKey schemaVersion reason payloadSHA256 part offset))"

definition RetentionPolicies :: "(pg, go_error, RetentionPolicy list) program" where
  "RetentionPolicies = autocommit (select (\<lambda>d.
     map (\<lambda>t. \<lparr>PolicyTenantID = t, PolicyDays =
       (case find (\<lambda>r. rt_tenant r = t) (retention d) of None \<Rightarrow> 30 | Some r \<Rightarrow> rt_days r)\<rparr>) (tenants d)))"

definition insert_audit :: "string \<Rightarrow> string \<Rightarrow> attrs \<Rightarrow> unit sql" where
  "insert_audit tenantID action safeMetadata = (\<lambda>_ now d.
     if tenantID \<notin> set (tenants d) then Inl (Constraint ''audit_events_tenant_id_fkey'')
     else Inr ((), d\<lparr>audit_events := audit_events d @
       [\<lparr>au_tenant = Some tenantID, au_action = action, au_metadata = safeMetadata, au_created_at = now\<rparr>]\<rparr>))"

definition RecordAudit :: "string \<Rightarrow> string \<Rightarrow> attrs \<Rightarrow> (pg, go_error, unit) program" where
  "RecordAudit tenantID action safeMetadata = autocommit (insert_audit tenantID action safeMetadata)"

definition AuditEvents :: "string \<Rightarrow> int \<Rightarrow> (pg, go_error, AuditEvent list) program" where
  "AuditEvents tenantID limit =
     (let limit = (if limit < 1 \<or> limit > 100 then 100 else limit)
      in autocommit (select (\<lambda>d.
           map (\<lambda>r. \<lparr>AuditAction = au_action r, SafeMetadata = au_metadata r, AuditCreatedAt = au_created_at r\<rparr>)
             (take (nat limit) (rev (filter (\<lambda>r. au_tenant r = Some tenantID) (audit_events d)))))))"

subsection \<open>The order of delivery states\<close>

instantiation delivery_status :: order
begin

definition less_eq_delivery_status :: "delivery_status \<Rightarrow> delivery_status \<Rightarrow> bool" where
  "less_eq_delivery_status a b = (a = Pending \<or> a = b)"

definition less_delivery_status :: "delivery_status \<Rightarrow> delivery_status \<Rightarrow> bool" where
  "less_delivery_status a b = (a = Pending \<and> b \<noteq> Pending)"

instance
  by standard (auto simp: less_eq_delivery_status_def less_delivery_status_def)

end

lemma Pending_least [simp]: "Pending \<le> b"
  by (simp add: less_eq_delivery_status_def)

lemma settled_final: "a \<le> b \<Longrightarrow> a \<noteq> Pending \<Longrightarrow> b = (a :: delivery_status)"
  by (auto simp: less_eq_delivery_status_def)

text \<open>The abstraction of the ledger: the state of each event key, \<^const>\<open>None\<close> for one never claimed.\<close>

definition delivery_of :: "db \<Rightarrow> string \<Rightarrow> delivery_status option" where
  "delivery_of d eventKey = map_option lg_status (find (is_delivery eventKey) (ledger d))"

lemma find_append: "find p (xs @ ys) = (case find p xs of None \<Rightarrow> find p ys | Some x \<Rightarrow> Some x)"
  by (induction xs) auto

lemma find_update_where:
  "(\<And>r. p (f r) = p r) \<Longrightarrow> find p (update_where q f rows) = map_option (\<lambda>r. if q r then f r else r) (find p rows)"
  by (induction rows) (auto simp: update_where_def)

lemma delivery_update:
  assumes "\<And>r. lg_key (f r) = lg_key r"
  shows "delivery_of (d\<lparr>ledger := update_where q f (ledger d)\<rparr>) k
    = map_option (\<lambda>r. lg_status (if q r then f r else r)) (find (is_delivery k) (ledger d))"
proof -
  have "find (is_delivery k) (update_where q f (ledger d))
      = map_option (\<lambda>r. if q r then f r else r) (find (is_delivery k) (ledger d))"
    by (rule find_update_where) (simp add: is_delivery_def assms)
  then show ?thesis by (simp add: delivery_of_def option.map_comp comp_def)
qed

lemma find_is_delivery_key: "find (is_delivery k) rows = Some r \<Longrightarrow> r \<in> set rows \<and> lg_key r = k"
  by (auto simp: find_Some_iff is_delivery_def)

lemma claim_delivery_effect:
  assumes "claim_delivery key tenantID locked now d = Inr (status, d')"
  shows "delivery_of d' = (if delivery_of d key = None then (delivery_of d)(key := Some Pending) else delivery_of d)"
    and "status = Some Pending \<and> delivery_of d' key = Some Pending \<or>
     status = None \<and> d' = d \<and> delivery_of d key \<noteq> None \<and> delivery_of d key \<noteq> Some Pending"
proof -
  show eq: "delivery_of d' = (if delivery_of d key = None then (delivery_of d)(key := Some Pending) else delivery_of d)"
  proof (cases "find (is_delivery key) (ledger d)")
    case None
    with assms show ?thesis
      by (auto simp: claim_delivery_def delivery_of_def fun_eq_iff find_append is_delivery_def
          split: if_splits option.splits)
  next
    case (Some r)
    then show ?thesis
      using assms
      by (cases "lg_status r = Pending")
         (auto simp: claim_delivery_def fun_eq_iff delivery_update, auto simp: delivery_of_def if_distrib cong: if_cong)
  qed
  show "status = Some Pending \<and> delivery_of d' key = Some Pending \<or>
     status = None \<and> d' = d \<and> delivery_of d key \<noteq> None \<and> delivery_of d key \<noteq> Some Pending"
    using assms eq
    by (auto simp: claim_delivery_def delivery_of_def split: if_splits option.splits)
qed

lemma settle_delivery_effect:
  assumes "settle_delivery key status err locked now d = Inr (changed, d')"
  shows "delivery_of d' = (if delivery_of d key = Some Pending then (delivery_of d)(key := Some status) else delivery_of d)"
    and "distinct (map lg_key (ledger d)) \<Longrightarrow> changed \<noteq> 0 \<longleftrightarrow> delivery_of d key = Some Pending"
proof -
  have d': "d' = d\<lparr>ledger := update_where (\<lambda>r. is_delivery key r \<and> lg_status r = Pending)
      (\<lambda>r. r\<lparr>lg_status := status, lg_error := err, lg_updated_at := now\<rparr>) (ledger d)\<rparr>"
    and changed: "changed = count_where (\<lambda>r. is_delivery key r \<and> lg_status r = Pending) (ledger d)"
    using assms by (auto simp: settle_delivery_def Let_def)
  show "delivery_of d' = (if delivery_of d key = Some Pending then (delivery_of d)(key := Some status) else delivery_of d)"
  proof
    fix k
    have "delivery_of d' k = map_option (\<lambda>r. if lg_key r = key \<and> lg_status r = Pending then status else lg_status r)
        (find (is_delivery k) (ledger d))"
      by (simp add: d' delivery_update is_delivery_def if_distrib cong: if_cong)
    also have "\<dots> = (if k = key \<and> delivery_of d key = Some Pending then Some status else delivery_of d k)"
    proof (cases "find (is_delivery k) (ledger d)")
      case (Some r)
      then have "lg_key r = k" using find_is_delivery_key by blast
      then show ?thesis using Some by (cases "k = key") (simp_all add: delivery_of_def)
    qed (auto simp: delivery_of_def)
    finally show "delivery_of d' k
        = (if delivery_of d key = Some Pending then (delivery_of d)(key := Some status) else delivery_of d) k"
      by simp
  qed
  show "changed \<noteq> 0 \<longleftrightarrow> delivery_of d key = Some Pending" if unique: "distinct (map lg_key (ledger d))"
  proof -
    have "find (is_delivery key) (ledger d) = Some r" if "r \<in> set (ledger d)" "is_delivery key r" for r
    proof -
      have "find (is_delivery key) (ledger d) \<noteq> None" using that by (auto simp: find_None_iff)
      then obtain r' where "find (is_delivery key) (ledger d) = Some r'" by blast
      with find_is_delivery_key [OF this] that unique show ?thesis
        by (auto simp: distinct_map inj_on_def is_delivery_def)
    qed
    then show ?thesis
      by (auto simp: changed delivery_of_def is_delivery_def dest: find_is_delivery_key)
  qed
qed

lemma ledger_unique:
  assumes "distinct (map lg_key (ledger d))"
  shows "claim_delivery key tenantID locked now d = Inr (a, d') \<Longrightarrow> distinct (map lg_key (ledger d'))"
    and "settle_delivery key status err locked now d = Inr (b, d') \<Longrightarrow> distinct (map lg_key (ledger d'))"
  using assms
  by (auto simp: claim_delivery_def settle_delivery_def Let_def map_update_where find_None_iff is_delivery_def image_iff
      split: option.splits if_splits)

subsection \<open>The ledger under faults\<close>

lemma ClaimDelivery_cases:
  assumes "ClaimDelivery key tenantID s = (r, s')"
  obtains (unchanged) "\<exists>err. r = Inl err" "database s' = database s"
  | (settled) "r = Inr False \<or> r = Inl Unavailable" "database s' = database s"
      "delivery_of (database s) key \<noteq> None" "delivery_of (database s) key \<noteq> Some Pending"
  | (claimed) "r = Inr True \<or> r = Inl Unavailable" "delivery_of (database s') key = Some Pending"
      "delivery_of (database s') = (if delivery_of (database s) key = None
         then (delivery_of (database s))(key := Some Pending) else delivery_of (database s))"
proof -
  obtain q t where q: "autocommit (claim_delivery key tenantID) s = (q, t)" by fastforce
  then have t: "s' = t" "r = (case q of Inl e \<Rightarrow> Inl e | Inr status \<Rightarrow> Inr (status = Some Pending))"
    using assms by (auto simp: ClaimDelivery_def and_then_def split: sum.splits option.splits)
  from q show thesis
  proof (cases rule: autocommit_cases)
    case (all a locked)
    note eff = claim_delivery_effect [OF all(1)]
    from eff(2) show thesis
      using eff(1) all(3) t settled claimed by (auto split: if_splits)
  qed (use t unchanged in auto)
qed

lemma settle_cases:
  assumes "autocommit (settle_delivery key status err) s = (r, s')"
  obtains (unchanged) "\<exists>err. r = Inl err" "database s' = database s"
  | (settled) changed where "r = Inr changed \<or> r = Inl Unavailable"
      "delivery_of (database s') = (if delivery_of (database s) key = Some Pending
         then (delivery_of (database s))(key := Some status) else delivery_of (database s))"
      "distinct (map lg_key (ledger (database s))) \<Longrightarrow>
         changed \<noteq> 0 \<longleftrightarrow> delivery_of (database s) key = Some Pending"
  using assms
proof (cases rule: autocommit_cases)
  case (all a locked)
  show thesis
    by (rule settled [OF all(3) settle_delivery_effect(1) [OF all(1)] settle_delivery_effect(2) [OF all(1)]])
qed (use unchanged in auto)

lemma ClaimDelivery_forward:
  assumes "ClaimDelivery key tenantID s = (r, s')"
  shows "delivery_of (database s) k \<le> delivery_of (database s') k"
  using assms by (cases rule: ClaimDelivery_cases) (simp_all split: if_split)

lemma settle_forward:
  assumes "autocommit (settle_delivery key status err) s = (r, s')"
  shows "delivery_of (database s) k \<le> delivery_of (database s') k"
  using assms by (cases rule: settle_cases) (simp_all split: if_split)

lemma MarkPersisted_settles:
  "MarkPersisted key s = (r, s') \<Longrightarrow> \<exists>q. autocommit (settle_delivery key Persisted None) s = (q, s') \<and>
     (r = Inr () \<longrightarrow> q = Inr 1)"
  by (auto simp: MarkPersisted_def and_then_def split: sum.splits prod.splits if_splits)

lemma RecordLoss_settles:
  "RecordLoss key err s = (r, s') \<Longrightarrow> \<exists>q. autocommit (settle_delivery key LossEvidenced (Some err)) s = (q, s')"
  by (auto simp: RecordLoss_def and_then_def split: sum.splits prod.splits)

text \<open>
  C30. Delivery states only move forward: whatever fails on the way, claiming an event, marking it
  persisted and recording its loss never lose an event's entry and never reopen a settled one.
\<close>

theorem ledger_moves_forward:
  "delivery_of (database s) k \<le> delivery_of (database (snd (ClaimDelivery key tenantID s))) k \<and>
   delivery_of (database s) k \<le> delivery_of (database (snd (MarkPersisted key s))) k \<and>
   delivery_of (database s) k \<le> delivery_of (database (snd (RecordLoss key errorClass s))) k"
  using ClaimDelivery_forward MarkPersisted_settles RecordLoss_settles settle_forward
  by (metis prod.collapse)

text \<open>
  The contract of the ledger, as its client needs it: a claim is granted only for an unsettled
  event and refused only for a settled one, and a mark that succeeds settles a pending event.
\<close>

locale delivery_ledger =
  fixes claim :: "string \<Rightarrow> string \<Rightarrow> ('s, go_error, bool) program"
    and mark :: "string \<Rightarrow> ('s, go_error, unit) program"
    and state_of :: "'s \<Rightarrow> string \<Rightarrow> delivery_status option"
    and sane :: "'s \<Rightarrow> bool"
  assumes claim_granted: "claim key tenant s = (Inr True, s') \<Longrightarrow> state_of s' key = Some Pending"
    and claim_refused: "claim key tenant s = (Inr False, s') \<Longrightarrow>
      state_of s key \<noteq> None \<and> state_of s key \<noteq> Some Pending \<and> state_of s' = state_of s"
    and claim_forward: "claim key tenant s = (a, s') \<Longrightarrow> state_of s k \<le> state_of s' k"
    and mark_settles: "sane s \<Longrightarrow> mark key s = (Inr (), s') \<Longrightarrow>
      state_of s key = Some Pending \<and> state_of s' key = Some Persisted"
    and mark_forward: "mark key s = (b, s') \<Longrightarrow> state_of s k \<le> state_of s' k"
    and claim_sane: "sane s \<Longrightarrow> claim key tenant s = (a, s') \<Longrightarrow> sane s'"
    and mark_sane: "sane s \<Longrightarrow> mark key s = (b, s') \<Longrightarrow> sane s'"
begin

lemma settled_refused:
  assumes "state_of s key = Some Persisted" and "claim key tenant s = (a, s')"
  shows "a \<noteq> Inr True"
proof
  assume "a = Inr True"
  then have "state_of s' key = Some Pending" using claim_granted assms(2) by blast
  moreover have "Some Persisted \<le> state_of s' key" using claim_forward [OF assms(2), of key] assms(1) by simp
  ultimately show False by (simp add: less_eq_delivery_status_def)
qed

end

definition ledger_sane :: "pg \<Rightarrow> bool" where
  "ledger_sane s = distinct (map lg_key (ledger (database s)))"

lemma ClaimDelivery_sane:
  assumes "ledger_sane s" and "ClaimDelivery key tenantID s = (r, s')"
  shows "ledger_sane s'"
proof -
  obtain q where "autocommit (claim_delivery key tenantID) s = (q, s')"
    using assms(2) by (auto simp: ClaimDelivery_def and_then_def split: sum.splits prod.splits option.splits)
  then show ?thesis
    using assms(1) ledger_unique(1) by (cases rule: autocommit_cases) (auto simp: ledger_sane_def)
qed

lemma settle_sane:
  assumes "ledger_sane s" and "autocommit (settle_delivery key status err) s = (q, s')"
  shows "ledger_sane s'"
  using assms(2) by (cases rule: autocommit_cases) (use assms(1) ledger_unique(2) in \<open>auto simp: ledger_sane_def\<close>)

interpretation pg_ledger: delivery_ledger ClaimDelivery MarkPersisted "delivery_of \<circ> database" ledger_sane
proof unfold_locales
  fix key tenant k :: string and s s' :: pg and a :: "go_error + bool" and b :: "go_error + unit"
  show "(delivery_of \<circ> database) s' key = Some Pending" if "ClaimDelivery key tenant s = (Inr True, s')"
    using that by (cases rule: ClaimDelivery_cases) auto
  show "(delivery_of \<circ> database) s key \<noteq> None \<and> (delivery_of \<circ> database) s key \<noteq> Some Pending \<and>
      (delivery_of \<circ> database) s' = (delivery_of \<circ> database) s" if "ClaimDelivery key tenant s = (Inr False, s')"
    using that by (cases rule: ClaimDelivery_cases) auto
  show "(delivery_of \<circ> database) s k \<le> (delivery_of \<circ> database) s' k" if "ClaimDelivery key tenant s = (a, s')"
    using ClaimDelivery_forward [OF that] by simp
  show "(delivery_of \<circ> database) s k \<le> (delivery_of \<circ> database) s' k" if "MarkPersisted key s = (b, s')"
    using MarkPersisted_settles [OF that] settle_forward by auto
  show "ledger_sane s'" if "ledger_sane s" "ClaimDelivery key tenant s = (a, s')"
    using ClaimDelivery_sane that by blast
  show "ledger_sane s'" if "ledger_sane s" "MarkPersisted key s = (b, s')"
    using MarkPersisted_settles [OF that(2)] settle_sane [OF that(1)] by blast
  show "(delivery_of \<circ> database) s key = Some Pending \<and> (delivery_of \<circ> database) s' key = Some Persisted"
    if sane: "ledger_sane s" and run: "MarkPersisted key s = (Inr (), s')"
  proof -
    have "autocommit (settle_delivery key Persisted None) s = (Inr 1, s')"
      using MarkPersisted_settles [OF run] by blast
    then show ?thesis
      using sane by (cases rule: settle_cases) (auto simp: ledger_sane_def)
  qed
qed

text \<open>
  C31. An event that is persisted is never handed out for another write: whatever the database does,
  a claim of it is not granted, and its state stays.
\<close>

theorem persisted_never_claimed:
  assumes "delivery_of (database s) key = Some Persisted" and "ClaimDelivery key tenantID s = (r, s')"
  shows "r \<noteq> Inr True \<and> delivery_of (database s') key = Some Persisted"
proof
  show "r \<noteq> Inr True" by (rule pg_ledger.settled_refused) (use assms in auto)
  show "delivery_of (database s') key = Some Persisted"
    using ClaimDelivery_forward [OF assms(2), of key] assms(1) settled_final
    by (cases "delivery_of (database s') key") auto
qed

definition empty_db :: db where
  "empty_db = \<lparr>tenants = [], api_keys = [], redaction_policies = [], audit_events = [], ledger = [],
     dead_letters = [], retention = [], tail_traces = [], tail_buffers = [], tail_decisions = [],
     tail_outbox = [], tail_event_keys = []\<rparr>"

definition delivered_row :: ledger_row where
  "delivered_row = \<lparr>lg_key = ''tenant-a:e'', lg_tenant = ''tenant-a'', lg_status = Persisted, lg_attempts = 1,
     lg_error = None, lg_updated_at = 0\<rparr>"

lemma persisted_never_claimed_witness:
  "fst (ClaimDelivery ''tenant-a:e'' ''tenant-a''
     \<lparr>database = empty_db\<lparr>tenants := [''tenant-a''], ledger := [delivered_row]\<rparr>, clock = 5, script = []\<rparr>) \<noteq> Inr True"
  using persisted_never_claimed [OF _ prod.collapse [symmetric]]
  by (simp add: delivery_of_def empty_db_def delivered_row_def is_delivery_def)

subsection \<open>Keys and dead letters\<close>

definition key_created :: "string \<Rightarrow> string \<Rightarrow> db \<Rightarrow> db \<Rightarrow> bool" where
  "key_created tenantID keyHash d d' =
     (tenantID \<in> set (tenants d') \<and>
      api_keys d' = (if list_ex (\<lambda>k. ak_hash k = keyHash) (api_keys d) then api_keys d
        else api_keys d @ [\<lparr>ak_tenant = tenantID, ak_hash = keyHash, ak_disabled_at = None\<rparr>]) \<and>
      d' = d\<lparr>tenants := tenants d', api_keys := api_keys d'\<rparr> \<and> set (tenants d) \<subseteq> set (tenants d'))"

lemma create_key_yields:
  assumes "yields (and_then (tx_stmt now (insert_tenant tenantID)) (\<lambda>_. tx_stmt now (insert_api_key tenantID keyHash))) d u d'"
  shows "key_created tenantID keyHash d d'"
  using assms
  by (auto simp: insert_tenant_def insert_api_key_def key_created_def elim!: yields_and_then yields_tx_stmt
      split: if_splits)

lemma CreateTenantKey_effect:
  assumes "CreateTenantKey tenantID keyHash s = (r, s')"
  shows "(database s' = database s \<and> (\<exists>err. r = Inl err) \<or> key_created tenantID keyHash (database s) (database s')) \<and>
    clock s \<le> clock s'"
proof -
  have timely: "timely (and_then (tx_stmt now (insert_tenant tenantID)) (\<lambda>_. tx_stmt now (insert_api_key tenantID keyHash)))" for now
    by (intro timely_rules)
  show ?thesis
    using assms [unfolded CreateTenantKey_def] timely
  proof (cases rule: in_tx_cases)
    case (all a now)
    then show ?thesis using create_key_yields [OF all(1)] by simp
  qed auto
qed

text \<open>
  A key that was created authenticates its tenant: once \<^const>\<open>CreateTenantKey\<close> has stored the hash
  of a new key, looking the key up gives that tenant, and only a key with the same SHA-256 does.
\<close>

theorem created_key_authenticates:
  assumes "CreateTenantKey tenantID (HashAPIKey key) s = (Inr (), s')" and "script s' = []"
    and "\<not> list_ex (\<lambda>k. ak_hash k = HashAPIKey key) (api_keys (database s))"
  shows "fst (Tenant key s') = Inr (Some tenantID) \<and>
    (sha256 (bytes_of other) \<noteq> sha256 (bytes_of key) \<longrightarrow>
       fst (Tenant other s') = Inr (map_option ak_tenant
         (find (\<lambda>k. ak_hash k = HashAPIKey other \<and> ak_disabled_at k = None) (api_keys (database s)))))"
proof -
  have new: "find (\<lambda>k. ak_hash k = HashAPIKey key \<and> ak_disabled_at k = None) (api_keys (database s)) = None"
    using assms(3) by (auto simp: find_None_iff list_ex_iff)
  have keys: "api_keys (database s') = api_keys (database s) @
      [\<lparr>ak_tenant = tenantID, ak_hash = HashAPIKey key, ak_disabled_at = None\<rparr>]"
    using CreateTenantKey_effect [OF assms(1)] assms(3) by (simp add: key_created_def)
  have look: "fst (Tenant k s') = Inr (map_option ak_tenant
      (find (\<lambda>row. ak_hash row = HashAPIKey k \<and> ak_disabled_at row = None) (api_keys (database s'))))" for k
    using assms(2) by (simp add: Tenant_def autocommit_quiet select_def)
  show ?thesis
    unfolding look by (simp add: keys find_append new) (auto simp: HashAPIKey_def split: option.split)
qed

lemma created_key_authenticates_witness:
  "fst (Tenant ''k1'' (snd (CreateTenantKey ''tenant-a'' (HashAPIKey ''k1'')
     \<lparr>database = empty_db, clock = 0, script = []\<rparr>))) = Inr (Some ''tenant-a'')"
proof -
  let ?s = "\<lparr>database = empty_db, clock = 0, script = []\<rparr>"
  have "CreateTenantKey ''tenant-a'' (HashAPIKey ''k1'') ?s
      = (Inr (), ?s\<lparr>database := empty_db\<lparr>tenants := [''tenant-a''],
          api_keys := [\<lparr>ak_tenant = ''tenant-a'', ak_hash = HashAPIKey ''k1'', ak_disabled_at = None\<rparr>]\<rparr>\<rparr>)"
    by (simp add: CreateTenantKey_def in_tx_quiet and_then_Inr tx_stmt_quiet insert_tenant_def insert_api_key_def
        empty_db_def)
  then show ?thesis
    using created_key_authenticates [of "''tenant-a''" "''k1''" ?s] by (simp add: empty_db_def)
qed

definition letters_unique :: "db \<Rightarrow> bool" where
  "letters_unique d = distinct (map (\<lambda>l. (dl_partition l, dl_offset l)) (dead_letters d))"

lemma insert_dead_letter_effect:
  assumes "insert_dead_letter tenant key version reason payload_digest part offset locked now d = Inr (u, d')"
  shows "dead_letters d' = dead_letters d \<or>
    (\<exists>l. dead_letters d' = dead_letters d @ [l] \<and> dl_digest l = payload_digest \<and>
       (dl_partition l, dl_offset l) = (part, offset) \<and>
       (part, offset) \<notin> (\<lambda>l. (dl_partition l, dl_offset l)) ` set (dead_letters d))"
  using assms by (auto simp: insert_dead_letter_def list_ex_iff split: if_splits)

text \<open>
  A rejected message leaves one dead letter however often it is redelivered: the log holds at most
  one entry per broker position, an entry is never changed, and what it stores of the
  payload is the digest it was given.
\<close>

theorem dead_letters_once:
  assumes "letters_unique (database s)"
    and "RecordDeadLetter tenantID key version reason payload_digest part offset s = (r, s')"
  shows "letters_unique (database s') \<and> prefix (dead_letters (database s)) (dead_letters (database s')) \<and>
    length (dead_letters (database s')) \<le> length (dead_letters (database s)) + 1 \<and>
    dl_digest ` (set (dead_letters (database s')) - set (dead_letters (database s))) \<subseteq> {payload_digest}"
  using assms(2) [unfolded RecordDeadLetter_def Let_def]
proof (cases rule: autocommit_cases)
  case (all a locked)
  from insert_dead_letter_effect [OF all(1)] assms(1) show ?thesis
    by (auto simp: letters_unique_def)
qed (use assms(1) in auto)

lemma dead_letters_once_witness:
  "letters_unique (database (snd (RecordDeadLetter '''' '''' 0 ''malformed_envelope'' ''d'' 0 7
     \<lparr>database = empty_db, clock = 0, script = []\<rparr>)))"
  using dead_letters_once [OF _ prod.collapse [symmetric], of "\<lparr>database = empty_db, clock = 0, script = []\<rparr>"]
  by (simp add: letters_unique_def empty_db_def)
end
