(* ===== verification/ClickHouse.thy ===== *)
theory ClickHouse
  imports Metadata
begin

text \<open>
  \<^verbatim>\<open>internal/telemetry/clickhouse.go\<close>: what the platform sends to ClickHouse and what it makes of the
  answers. The HTTP transport is a program from a request to a status and a body. JSON
  texts, the parsing of URLs and the formatting of times are parameters; the loops over
  decoded values, the error paths and every request are the source's.
\<close>

subsection \<open>Requests\<close>

record ch_request =
  ChURL :: string
  ChParams :: attrs
  ChContentType :: string
  ChBody :: string

record telemetry_row =
  RowTenantID :: string
  RowEventKey :: string
  RowEventID :: string
  RowSignalType :: string
  RowTraceID :: string
  RowSpanID :: string
  RowParentSpanID :: string
  RowName :: string
  AttributesJSON :: string
  RowPolicyVersion :: string
  RowRedactedPaths :: "string list"
  RowIngestedAt :: string

record Span =
  SpanEventKey :: string
  SpanEventID :: string
  SpanSignalType :: string
  SpanTraceID :: string
  SpanSpanID :: string
  SpanParentSpanID :: string
  SpanName :: string
  SpanAttributes :: attrs
  SpanPolicyVersion :: string
  SpanRedactedPaths :: "string list"
  SpanIngestedAt :: string

record UsageMetrics =
  WindowHours :: int
  SpanCount :: int
  ErrorCount :: int
  TraceCount :: int
  LogCount :: int

record Dependency =
  Source :: string
  Target :: string
  EdgeCount :: int

text \<open>
  The standard library's part. \<open>decode_rows\<close> and \<open>decode_edges\<close> are a \<^verbatim>\<open>json.Decoder\<close> read to its end: the
  values it gives and whether the end was \<^verbatim>\<open>io.EOF\<close>.
\<close>

record ch_codecs =
  ParseURL :: "string \<Rightarrow> (string \<times> attrs) option"
  MarshalAttributes :: "attrs \<Rightarrow> string"
  UnmarshalAttributes :: "string \<Rightarrow> attrs option"
  MarshalRow :: "telemetry_row \<Rightarrow> string"
  DecodeRows :: "string \<Rightarrow> telemetry_row list \<times> bool"
  DecodeUsage :: "string \<Rightarrow> UsageMetrics option"
  DecodeEdges :: "string \<Rightarrow> Dependency list \<times> bool"
  FormatTime :: "int \<Rightarrow> string"

type_synonym 's transport = "ch_request \<Rightarrow> ('s, go_error, nat \<times> string) program"

definition NewClickHouse :: "string \<Rightarrow> string" where
  "NewClickHouse endpoint = trim_right_byte (CHR 0x2F) endpoint"

definition signalType :: "event \<Rightarrow> string" where
  "signalType event = (if Signal event = ''log'' then ''log'' else ''trace'')"

definition quote :: string where "quote = [CHR 0x27]"

definition insert_path :: string where
  "insert_path = ''/?query=INSERT%20INTO%20telemetry.spans%20FORMAT%20JSONEachRow''"

definition trace_query :: string where
  "trace_query = ''SELECT event_key,event_id,signal_type,trace_id,span_id,parent_span_id,name,attributes_json,''
     @ ''policy_version,redacted_paths,toString(ingested_at) AS ingested_at FROM telemetry.spans FINAL ''
     @ ''WHERE tenant_id = {tenant:String} AND trace_id = {trace:String} ORDER BY ingested_at ASC FORMAT JSONEachRow''"

definition usage_query :: string where
  "usage_query = ''SELECT countIf(signal_type = '' @ quote @ ''trace'' @ quote @ '') AS span_count,''
     @ ''uniqExactIf(trace_id, signal_type = '' @ quote @ ''trace'' @ quote @ '') AS trace_count,''
     @ ''countIf(signal_type = '' @ quote @ ''trace'' @ quote @ '' AND (toInt32OrZero(JSONExtractString(attributes_json, ''
     @ quote @ ''http.status_code'' @ quote @ '')) >= 500 OR JSONExtractString(attributes_json, ''
     @ quote @ ''error'' @ quote @ '') = '' @ quote @ ''true'' @ quote @ '')) AS error_count,''
     @ ''countIf(signal_type = '' @ quote @ ''log'' @ quote @ '') AS log_count FROM telemetry.spans FINAL ''
     @ ''WHERE tenant_id = {tenant:String} AND ingested_at >= now() - INTERVAL 24 HOUR ''
     @ ''SETTINGS output_format_json_quote_64bit_integers = 0 FORMAT JSONEachRow''"

definition dependency_query :: string where
  "dependency_query = ''SELECT JSONExtractString(attributes_json, '' @ quote @ ''service.name'' @ quote @ '') AS source,''
     @ ''JSONExtractString(attributes_json, '' @ quote @ ''peer.service'' @ quote @ '') AS target,''
     @ ''count() AS edge_count FROM telemetry.spans FINAL WHERE tenant_id = {tenant:String} AND signal_type = ''
     @ quote @ ''trace'' @ quote @ '' AND ingested_at >= now() - INTERVAL 24 HOUR AND source != '' @ quote @ quote
     @ '' AND target != '' @ quote @ quote @ '' GROUP BY source,target ORDER BY edge_count DESC ''
     @ ''SETTINGS output_format_json_quote_64bit_integers = 0 FORMAT JSONEachRow''"

definition expire_query :: string where
  "expire_query = ''ALTER TABLE telemetry.spans DELETE WHERE tenant_id = {tenant:String} ''
     @ ''AND ingested_at < {cutoff:DateTime64(3)}''"

definition erase_query :: string where
  "erase_query = ''ALTER TABLE telemetry.spans DELETE WHERE tenant_id = {tenant:String}''"

definition status_class_error :: "nat \<Rightarrow> go_error" where
  "status_class_error status = Errorf (''clickhouse status class '' @ format_nat (status div 100))"

text \<open>\<^verbatim>\<open>client.Do\<close> and the check of the status class.\<close>

definition do_request :: "'s transport \<Rightarrow> ch_request \<Rightarrow> ('s, go_error, string) program" where
  "do_request send request =
     and_then (send request) (\<lambda>(status, body).
       if status div 100 \<noteq> 2 then fail_with (status_class_error status) else ret body)"

text \<open>\<^verbatim>\<open>url.Parse\<close>, \<^verbatim>\<open>values.Set\<close> of the query and its parameters, and the request without a body.\<close>

definition parameterized ::
  "ch_codecs \<Rightarrow> 's transport \<Rightarrow> string \<Rightarrow> string \<Rightarrow> attrs \<Rightarrow> ('s, go_error, string) program" where
  "parameterized codecs send endpoint query params =
     (case ParseURL codecs (endpoint @ ''/'') of
        None \<Rightarrow> fail_with (Errorf ''parse'')
      | Some (base, values) \<Rightarrow>
          do_request send \<lparr>ChURL = base,
            ChParams = fold (\<lambda>(name, val). AList.update name val) params (AList.update ''query'' query values),
            ChContentType = [], ChBody = []\<rparr>)"

subsection \<open>Writing\<close>

definition row_of :: "ch_codecs \<Rightarrow> string \<Rightarrow> envelope \<Rightarrow> telemetry_row" where
  "row_of codecs now envelope =
     \<lparr>RowTenantID = TenantID envelope, RowEventKey = EventKey envelope, RowEventID = EventID (Event envelope),
      RowSignalType = signalType (Event envelope), RowTraceID = TraceID (Event envelope),
      RowSpanID = SpanID (Event envelope), RowParentSpanID = ParentSpanID (Event envelope),
      RowName = Name (Event envelope), AttributesJSON = MarshalAttributes codecs (Attributes (Event envelope)),
      RowPolicyVersion = PolicyVersion (Policy envelope), RowRedactedPaths = RedactedPaths (Policy envelope),
      RowIngestedAt = now\<rparr>"

definition Persist :: "ch_codecs \<Rightarrow> 's transport \<Rightarrow> string \<Rightarrow> int \<Rightarrow> envelope \<Rightarrow> ('s, go_error, unit) program" where
  "Persist codecs send endpoint now envelope =
     (let payload = MarshalRow codecs (row_of codecs (FormatTime codecs now) envelope)
      in case ParseURL codecs (endpoint @ insert_path) of
           None \<Rightarrow> fail_with (Errorf ''parse'')
         | Some (base, values) \<Rightarrow>
             and_then (do_request send \<lparr>ChURL = base, ChParams = values,
               ChContentType = ''application/json'', ChBody = payload @ [CHR 0x0A]\<rparr>) (\<lambda>_. ret ()))"

definition Execute :: "ch_codecs \<Rightarrow> 's transport \<Rightarrow> string \<Rightarrow> string \<Rightarrow> ('s, go_error, unit) program" where
  "Execute codecs send endpoint statement =
     (case ParseURL codecs (endpoint @ ''/'') of
        None \<Rightarrow> fail_with (Errorf ''parse'')
      | Some (base, values) \<Rightarrow>
          and_then (do_request send \<lparr>ChURL = base, ChParams = values, ChContentType = [], ChBody = statement\<rparr>)
            (\<lambda>_. ret ()))"

definition DeleteOlderThan ::
  "ch_codecs \<Rightarrow> 's transport \<Rightarrow> string \<Rightarrow> string \<Rightarrow> int \<Rightarrow> ('s, go_error, unit) program" where
  "DeleteOlderThan codecs send endpoint tenantID cutoff =
     and_then (parameterized codecs send endpoint expire_query
       [(''param_tenant'', tenantID), (''param_cutoff'', FormatTime codecs cutoff)]) (\<lambda>_. ret ())"

definition DeleteTenantTelemetry :: "ch_codecs \<Rightarrow> 's transport \<Rightarrow> string \<Rightarrow> string \<Rightarrow> ('s, go_error, unit) program" where
  "DeleteTenantTelemetry codecs send endpoint tenantID =
     and_then (parameterized codecs send endpoint erase_query [(''param_tenant'', tenantID)]) (\<lambda>_. ret ())"

subsection \<open>Reading\<close>

definition add_span :: "ch_codecs \<Rightarrow> telemetry_row \<Rightarrow> Span list \<Rightarrow> go_error + Span list" where
  "add_span codecs stored spans =
     (case UnmarshalAttributes codecs (AttributesJSON stored) of
        None \<Rightarrow> Inl (Errorf ''json'')
      | Some attributes \<Rightarrow> Inr (spans @
          [\<lparr>SpanEventKey = RowEventKey stored, SpanEventID = RowEventID stored, SpanSignalType = RowSignalType stored,
            SpanTraceID = RowTraceID stored, SpanSpanID = RowSpanID stored, SpanParentSpanID = RowParentSpanID stored,
            SpanName = RowName stored, SpanAttributes = attributes, SpanPolicyVersion = RowPolicyVersion stored,
            SpanRedactedPaths = RowRedactedPaths stored, SpanIngestedAt = RowIngestedAt stored\<rparr>]))"

definition QueryTrace ::
  "ch_codecs \<Rightarrow> 's transport \<Rightarrow> string \<Rightarrow> string \<Rightarrow> string \<Rightarrow> ('s, go_error, Span list) program" where
  "QueryTrace codecs send endpoint tenantID traceID =
     and_then (parameterized codecs send endpoint trace_query
       [(''param_tenant'', tenantID), (''param_trace'', traceID)]) (\<lambda>body.
     let (rows, clean) = DecodeRows codecs body
     in case fold_or_fail (add_span codecs) rows [] of
          Inl err \<Rightarrow> fail_with err
        | Inr spans \<Rightarrow> if clean then ret spans else fail_with (Errorf ''json''))"

definition QueryUsage :: "ch_codecs \<Rightarrow> 's transport \<Rightarrow> string \<Rightarrow> string \<Rightarrow> ('s, go_error, UsageMetrics) program" where
  "QueryUsage codecs send endpoint tenantID =
     and_then (parameterized codecs send endpoint usage_query [(''param_tenant'', tenantID)]) (\<lambda>body.
       case DecodeUsage codecs body of
         None \<Rightarrow> fail_with (Errorf ''json'')
       | Some result \<Rightarrow> ret (result\<lparr>WindowHours := 24\<rparr>))"

definition QueryDependencies :: "ch_codecs \<Rightarrow> 's transport \<Rightarrow> string \<Rightarrow> string \<Rightarrow> ('s, go_error, Dependency list) program" where
  "QueryDependencies codecs send endpoint tenantID =
     and_then (parameterized codecs send endpoint dependency_query [(''param_tenant'', tenantID)]) (\<lambda>body.
       let (edges, clean) = DecodeEdges codecs body
       in if clean then ret edges else fail_with (Errorf ''json''))"

subsection \<open>What reaches ClickHouse\<close>

text \<open>
  A request in the name of a tenant: one of the fixed statements, which name the tenant only as a
  parameter, with that parameter bound to the tenant.
\<close>

definition scoped :: "string \<Rightarrow> ch_request \<Rightarrow> bool" where
  "scoped tenant q =
     (map_of (ChParams q) ''param_tenant'' = Some tenant \<and> ChBody q = [] \<and>
      map_of (ChParams q) ''query'' \<in> Some ` {trace_query, usage_query, dependency_query, expire_query, erase_query})"

lemma map_of_fold_update:
  "map_of (fold (\<lambda>(name, val). AList.update name val) params values) = map_of values ++ map_of (rev params)"
proof (induction params arbitrary: "values")
  case (Cons p params)
  show ?case by (cases p) (auto simp: Cons update_conv' fun_eq_iff map_add_def split: option.split)
qed simp

lemma parameterized_request:
  assumes "ParseURL codecs (endpoint @ ''/'') = Some (base, start)"
    and "query \<in> {trace_query, usage_query, dependency_query, expire_query, erase_query}"
    and "map_of (rev params) ''param_tenant'' = Some tenant" and "map_of (rev params) ''query'' = None"
  obtains q where "scoped tenant q" and "map_of (ChParams q) ''query'' = Some query"
    and "\<And>send. parameterized codecs send endpoint query params = do_request send q"
proof
  let ?q = "\<lparr>ChURL = base,
      ChParams = fold (\<lambda>(name, val). AList.update name val) params (AList.update ''query'' query start),
      ChContentType = [], ChBody = []\<rparr>"
  show "map_of (ChParams ?q) ''query'' = Some query"
    using assms(4) by (simp add: map_of_fold_update update_conv' map_add_def)
  show "scoped tenant ?q"
    using assms(2-4) by (simp add: scoped_def map_of_fold_update update_conv' map_add_def)
qed (simp add: parameterized_def assms(1))

lemma parameterized_bound:
  assumes "ParseURL codecs (endpoint @ ''/'') = Some (base, start)" and "map_of (rev params) ''query'' = None"
  obtains q where "ChBody q = []" and "map_of (ChParams q) ''query'' = Some query"
    and "\<And>name val. map_of (rev params) name = Some val \<Longrightarrow> map_of (ChParams q) name = Some val"
    and "\<And>send. parameterized codecs send endpoint query params = do_request send q"
proof
  let ?q = "\<lparr>ChURL = base,
      ChParams = fold (\<lambda>(name, val). AList.update name val) params (AList.update ''query'' query start),
      ChContentType = [], ChBody = []\<rparr>"
  show "map_of (ChParams ?q) ''query'' = Some query"
    using assms(2) by (simp add: map_of_fold_update update_conv' map_add_def)
  show "map_of (ChParams ?q) name = Some val" if "map_of (rev params) name = Some val" for name val
    using that by (simp add: map_of_fold_update map_add_def)
qed (simp_all add: parameterized_def assms(1))

lemma parameterized_scoped:
  fixes send1 send2 :: "'a transport"
  assumes "\<And>q. scoped tenant q \<Longrightarrow> send1 q = send2 q"
    and "query \<in> {trace_query, usage_query, dependency_query, expire_query, erase_query}"
    and "map_of (rev params) ''param_tenant'' = Some tenant" and "map_of (rev params) ''query'' = None"
  shows "parameterized codecs send1 endpoint query params = parameterized codecs send2 endpoint query params"
proof (cases "ParseURL codecs (endpoint @ ''/'')")
  case (Some url)
  then obtain base start where "ParseURL codecs (endpoint @ ''/'') = Some (base, start)" by (cases url) auto
  from this assms(2-4) obtain q where "scoped tenant q"
    and "\<And>send :: 'a transport. parameterized codecs send endpoint query params = do_request send q"
    by (rule parameterized_request) (rule that)
  then show ?thesis by (simp add: do_request_def assms(1))
qed (simp add: parameterized_def)

text \<open>A server that keeps what it is sent, and codecs for the examples.\<close>

definition record_send :: "ch_request list transport" where
  "record_send q sent = (Inr (200, []), sent @ [q])"

definition sent_keys :: "ch_request list \<Rightarrow> string set" where
  "sent_keys sent = {k. k @ [CHR 0x0A] \<in> ChBody ` set sent}"

definition key_codecs :: ch_codecs where
  "key_codecs = \<lparr>ParseURL = \<lambda>url. Some (url, []), MarshalAttributes = \<lambda>m. if m = [] then ''{}'' else ''?'',
     UnmarshalAttributes = \<lambda>text. if text = ''{}'' then Some [] else None, MarshalRow = RowEventKey,
     DecodeRows = \<lambda>_. ([], True), DecodeUsage = \<lambda>_. None, DecodeEdges = \<lambda>_. ([], True),
     FormatTime = \<lambda>_. ''2026-01-01 00:00:00.000''\<rparr>"

definition sample_envelope :: envelope where
  "sample_envelope = \<lparr>SchemaVersion = 2, TenantID = ''tenant-a'',
     Event = \<lparr>EventID = ''e1'', Signal = ''trace'', TraceID = ''t1'', SpanID = ''s1'', ParentSpanID = '''',
              Name = ''checkout'', Attributes = []\<rparr>,
     Policy = \<lparr>PolicyVersion = ''v1'', RedactedPaths = []\<rparr>, EventKey = ''tenant-a:e1''\<rparr>"

text \<open>
  C34. Tenant scope is never up to the client: whatever trace id, tenant id or cutoff they are given, the
  queries and deletions of a tenant depend on ClickHouse only through requests that carry one of
  five fixed statements with the tenant bound as a parameter.
\<close>

theorem telemetry_calls_scoped:
  assumes "\<forall>q. scoped tenant q \<longrightarrow> send1 q = send2 q"
  shows "QueryTrace codecs send1 endpoint tenant trace = QueryTrace codecs send2 endpoint tenant trace \<and>
    QueryUsage codecs send1 endpoint tenant = QueryUsage codecs send2 endpoint tenant \<and>
    QueryDependencies codecs send1 endpoint tenant = QueryDependencies codecs send2 endpoint tenant \<and>
    DeleteOlderThan codecs send1 endpoint tenant cutoff = DeleteOlderThan codecs send2 endpoint tenant cutoff \<and>
    DeleteTenantTelemetry codecs send1 endpoint tenant = DeleteTenantTelemetry codecs send2 endpoint tenant"
proof -
  have same: "parameterized codecs send1 endpoint query params = parameterized codecs send2 endpoint query params"
    if "query \<in> {trace_query, usage_query, dependency_query, expire_query, erase_query}"
      "map_of (rev params) ''param_tenant'' = Some tenant" "map_of (rev params) ''query'' = None" for query params
    by (rule parameterized_scoped [OF _ that]) (use assms in blast)
  show ?thesis
    unfolding QueryTrace_def QueryUsage_def QueryDependencies_def DeleteOlderThan_def DeleteTenantTelemetry_def
    by (simp add: same)
qed

lemma telemetry_calls_scoped_witness:
  "QueryUsage key_codecs (\<lambda>q. ret (200, []) :: (unit, go_error, nat \<times> string) program)
      ''http://clickhouse:8123'' ''tenant-a''
    = QueryUsage key_codecs (\<lambda>q. if scoped ''tenant-a'' q then ret (200, []) else fail_with Unavailable)
        ''http://clickhouse:8123'' ''tenant-a''"
  using telemetry_calls_scoped [where tenant = "''tenant-a''" and codecs = key_codecs
      and endpoint = "''http://clickhouse:8123''" and trace = "''t1''" and cutoff = 0
      and ?send1.0 = "\<lambda>q. ret (200, []) :: (unit, go_error, nat \<times> string) program"
      and ?send2.0 = "\<lambda>q. if scoped ''tenant-a'' q then ret (200, []) else fail_with Unavailable"]
  by simp

text \<open>
  What ClickHouse documents, for the table of the events: an insert in the format \<^verbatim>\<open>JSONEachRow\<close> that is answered with a
  status of class 2 has appended the rows of its body, and the trace query changes nothing and is answered with the
  rows of the tenant and the trace that its parameters name. \<open>stored_rows\<close> is what the table holds. The table replaces rows of
  the same tenant and event key when it merges them; of tables with such rows nothing is said here.
\<close>

definition insert_statement :: string where
  "insert_statement = ''INSERT INTO telemetry.spans FORMAT JSONEachRow''"

definition row_key :: "telemetry_row \<Rightarrow> string \<times> string" where
  "row_key r = (RowTenantID r, RowEventKey r)"

definition trace_request :: "string \<Rightarrow> string \<Rightarrow> ch_request \<Rightarrow> bool" where
  "trace_request tenant trace q =
     (ChBody q = [] \<and> map_of (ChParams q) ''query'' = Some trace_query \<and>
      map_of (ChParams q) ''param_tenant'' = Some tenant \<and> map_of (ChParams q) ''param_trace'' = Some trace)"

definition answered_ok :: "'s transport \<Rightarrow> ch_request \<Rightarrow> 's \<Rightarrow> bool" where
  "answered_ok send q s = (case fst (send q s) of Inr (status, body) \<Rightarrow> status div 100 = 2 | Inl err \<Rightarrow> False)"

definition clickhouse_table :: "ch_codecs \<Rightarrow> 's transport \<Rightarrow> ('s \<Rightarrow> telemetry_row list) \<Rightarrow> bool" where
  "clickhouse_table codecs send stored_rows =
     (\<forall>q s status body s'. send q s = (Inr (status, body), s') \<longrightarrow> status div 100 = 2 \<longrightarrow>
        (map_of (ChParams q) ''query'' = Some insert_statement \<longrightarrow>
           stored_rows s' = stored_rows s @ fst (DecodeRows codecs (ChBody q))) \<and>
        (\<forall>tenant trace. trace_request tenant trace q \<longrightarrow> distinct (map row_key (stored_rows s)) \<longrightarrow>
           stored_rows s' = stored_rows s \<and> snd (DecodeRows codecs body) \<and>
           mset (fst (DecodeRows codecs body)) =
             mset (filter (\<lambda>r. RowTenantID r = tenant \<and> RowTraceID r = trace) (stored_rows s))))"

lemma do_request_answered:
  assumes "do_request send q s = (Inr body, s')"
  obtains status where "send q s = (Inr (status, body), s')" "status div 100 = 2"
  using assms by (auto simp: do_request_def and_then_def split: prod.splits sum.splits if_splits)

lemma Persist_appends:
  assumes "clickhouse_table codecs send stored_rows"
    and "ParseURL codecs (endpoint @ insert_path) = Some (base, start)" "map_of start ''query'' = Some insert_statement"
    and "DecodeRows codecs (MarshalRow codecs (row_of codecs (FormatTime codecs now) e) @ [CHR 0x0A])
      = ([row_of codecs (FormatTime codecs now) e], True)"
    and "Persist codecs send endpoint now e s = (Inr (), s')"
  shows "stored_rows s' = stored_rows s @ [row_of codecs (FormatTime codecs now) e]"
proof -
  let ?q = "\<lparr>ChURL = base, ChParams = start, ChContentType = ''application/json'',
    ChBody = MarshalRow codecs (row_of codecs (FormatTime codecs now) e) @ [CHR 0x0A]\<rparr>"
  obtain body where "do_request send ?q s = (Inr body, s')"
    using assms(5) by (auto simp: Persist_def Let_def assms(2) and_then_def split: prod.splits sum.splits)
  then obtain status where "send ?q s = (Inr (status, body), s')" "status div 100 = 2" by (rule do_request_answered)
  then have "stored_rows s' = stored_rows s @ fst (DecodeRows codecs (ChBody ?q))"
    using assms(1,3) unfolding clickhouse_table_def by fastforce
  then show ?thesis by (simp add: assms(4))
qed

lemma Persists_store:
  assumes "clickhouse_table codecs send stored_rows"
    and "ParseURL codecs (endpoint @ insert_path) = Some (base, start)" "map_of start ''query'' = Some insert_statement"
    and "\<forall>(t, e) \<in> set es. DecodeRows codecs (MarshalRow codecs (row_of codecs (FormatTime codecs t) e) @ [CHR 0x0A])
      = ([row_of codecs (FormatTime codecs t) e], True)"
    and "each (\<lambda>(t, e). Persist codecs send endpoint t e) es s = (Inr (), s')"
  shows "stored_rows s' = stored_rows s @ map (\<lambda>(t, e). row_of codecs (FormatTime codecs t) e) es"
  using assms(4,5)
proof (induction es arbitrary: s)
  case (Cons x es)
  obtain t e where x: "x = (t, e)" by fastforce
  obtain s1 where s1: "Persist codecs send endpoint t e s = (Inr (), s1)"
    and rest: "each (\<lambda>(t, e). Persist codecs send endpoint t e) es s1 = (Inr (), s')"
    using Cons.prems(2) by (auto simp: x and_then_def split: prod.splits sum.splits)
  show ?case
    using Cons.IH [OF _ rest] Persist_appends [OF assms(1-3) _ s1] Cons.prems(1) by (simp add: x)
qed simp

text \<open>What a stored event looks like to a reader.\<close>

definition span_view :: "string \<Rightarrow> envelope \<Rightarrow> Span" where
  "span_view ingested e =
     \<lparr>SpanEventKey = EventKey e, SpanEventID = EventID (Event e), SpanSignalType = signalType (Event e),
      SpanTraceID = TraceID (Event e), SpanSpanID = SpanID (Event e), SpanParentSpanID = ParentSpanID (Event e),
      SpanName = Name (Event e), SpanAttributes = Attributes (Event e), SpanPolicyVersion = PolicyVersion (Policy e),
      SpanRedactedPaths = RedactedPaths (Policy e), SpanIngestedAt = ingested\<rparr>"

definition span_of_row :: "ch_codecs \<Rightarrow> telemetry_row \<Rightarrow> Span" where
  "span_of_row codecs r =
     \<lparr>SpanEventKey = RowEventKey r, SpanEventID = RowEventID r, SpanSignalType = RowSignalType r,
      SpanTraceID = RowTraceID r, SpanSpanID = RowSpanID r, SpanParentSpanID = RowParentSpanID r, SpanName = RowName r,
      SpanAttributes = the (UnmarshalAttributes codecs (AttributesJSON r)), SpanPolicyVersion = RowPolicyVersion r,
      SpanRedactedPaths = RowRedactedPaths r, SpanIngestedAt = RowIngestedAt r\<rparr>"

lemma add_rows:
  assumes "\<forall>r \<in> set rows. UnmarshalAttributes codecs (AttributesJSON r) \<noteq> None"
  shows "fold_or_fail (add_span codecs) rows spans = Inr (spans @ map (span_of_row codecs) rows)"
  using assms by (induction rows arbitrary: spans) (auto simp: add_span_def span_of_row_def)

lemma span_of_row_of:
  assumes "UnmarshalAttributes codecs (MarshalAttributes codecs (Attributes (Event e))) = Some (Attributes (Event e))"
  shows "span_of_row codecs (row_of codecs t e) = span_view t e"
  using assms by (simp add: span_of_row_def row_of_def span_view_def)

lemma QueryTrace_rows:
  fixes send :: "'a transport"
  assumes "clickhouse_table codecs send stored_rows" and "distinct (map row_key (stored_rows s))"
    and "ParseURL codecs (endpoint @ ''/'') = Some (base, start)"
    and "\<forall>r \<in> set (stored_rows s). UnmarshalAttributes codecs (AttributesJSON r) \<noteq> None"
    and "QueryTrace codecs send endpoint tenant trace s = (r, s')"
  shows "case r of
      Inr spans \<Rightarrow> stored_rows s' = stored_rows s \<and> mset spans = image_mset (span_of_row codecs)
        (mset (filter (\<lambda>row. RowTenantID row = tenant \<and> RowTraceID row = trace) (stored_rows s)))
    | Inl err \<Rightarrow> \<exists>q. trace_request tenant trace q \<and> \<not> answered_ok send q s"
proof -
  let ?params = "[(''param_tenant'', tenant), (''param_trace'', trace)]"
  obtain q where bound: "ChBody q = []" "map_of (ChParams q) ''query'' = Some trace_query"
    "\<And>name val. map_of (rev ?params) name = Some val \<Longrightarrow> map_of (ChParams q) name = Some val"
    and run: "\<And>send :: 'a transport. parameterized codecs send endpoint trace_query ?params = do_request send q"
    by (rule parameterized_bound [OF assms(3), of ?params trace_query]) (simp, rule that)
  have q: "trace_request tenant trace q"
    using bound(3) [of "''param_tenant''" tenant] bound(3) [of "''param_trace''" trace] bound(1,2) by (simp add: trace_request_def)
  obtain p s1 where p: "do_request send q s = (p, s1)" by fastforce
  show ?thesis
  proof (cases p)
    case (Inl err)
    have "\<not> answered_ok send q s"
      using p Inl by (auto simp: answered_ok_def do_request_def and_then_def split: prod.splits sum.splits if_splits)
    moreover have "r = Inl err" using assms(5) p Inl by (simp add: QueryTrace_def run and_then_def)
    ultimately show ?thesis using q by auto
  next
    case (Inr body)
    then obtain status where sent: "send q s = (Inr (status, body), s1)" "status div 100 = 2"
      using p by (blast elim: do_request_answered)
    let ?rows = "filter (\<lambda>row. RowTenantID row = tenant \<and> RowTraceID row = trace) (stored_rows s)"
    have answer: "stored_rows s1 = stored_rows s" "snd (DecodeRows codecs body)"
      "mset (fst (DecodeRows codecs body)) = mset ?rows"
      using assms(1) [unfolded clickhouse_table_def, rule_format, OF sent] q assms(2) by blast+
    then have "set (fst (DecodeRows codecs body)) = set ?rows" by (metis set_mset_mset)
    then have "fold_or_fail (add_span codecs) (fst (DecodeRows codecs body)) [] =
        Inr (map (span_of_row codecs) (fst (DecodeRows codecs body)))"
      using add_rows [of "fst (DecodeRows codecs body)" codecs "[]"] assms(4) by simp
    then have "r = Inr (map (span_of_row codecs) (fst (DecodeRows codecs body)))" "s' = s1"
      using assms(5) p Inr answer(2) by (auto simp: QueryTrace_def run and_then_def split_beta Let_def)
    then show ?thesis using answer(1,3) by simp
  qed
qed


text \<open>A server for one event, and codecs under which it is as documented.\<close>

definition one_row :: telemetry_row where
  "one_row = row_of key_codecs ''2026-01-01 00:00:00.000'' sample_envelope"

definition one_row_codecs :: ch_codecs where
  "one_row_codecs = key_codecs\<lparr>ParseURL := \<lambda>url. Some (url, [(''query'', insert_statement)]),
     DecodeRows := \<lambda>text. (if text = ''tenant-a:e1'' @ [CHR 0x0A] then [one_row] else [], True)\<rparr>"

definition one_row_server :: "telemetry_row list transport" where
  "one_row_server q rows =
     (if map_of (ChParams q) ''query'' = Some insert_statement then (Inr (200, []), rows @ fst (DecodeRows one_row_codecs (ChBody q)))
      else if map_of (ChParams q) ''query'' = Some trace_query \<and> rows = [one_row] \<and>
        map_of (ChParams q) ''param_tenant'' = Some ''tenant-a'' \<and> map_of (ChParams q) ''param_trace'' = Some ''t1''
      then (Inr (200, ''tenant-a:e1'' @ [CHR 0x0A]), rows)
      else (Inr (503, []), rows))"

lemma statements_differ: "insert_statement \<noteq> trace_query"
  by (simp add: insert_statement_def trace_query_def)

lemma one_row_table: "clickhouse_table one_row_codecs one_row_server (\<lambda>rows. rows)"
proof -
  have "RowTenantID one_row = ''tenant-a''" "RowTraceID one_row = ''t1''"
    by (simp_all add: one_row_def row_of_def sample_envelope_def)
  then show ?thesis
    using statements_differ by (auto simp: clickhouse_table_def trace_request_def one_row_server_def one_row_codecs_def split: if_splits)
qed


end
