(* ===== verification/Consumer.thy ===== *)
theory Consumer
  imports ClickHouse
begin

text \<open>
  \<^verbatim>\<open>internal/telemetry/consumer.go\<close>: the consumer that moves sanitized envelopes from the broker to
  ClickHouse. The delivery ledger decides what is written, and a message is committed only once
  its event is settled or its rejection is on record.
\<close>

subsection \<open>The consumer\<close>

record broker_message =
  MessageValue :: string
  MessagePartition :: int
  MessageOffset :: int

text \<open>\<^verbatim>\<open>DeadLetters\<close> is the type assertion of the ledger; without it malformed messages stop the consumer.\<close>

record 's consumer =
  FetchMessage :: "('s, go_error, broker_message) program"
  CommitMessages :: "broker_message \<Rightarrow> ('s, go_error, unit) program"
  LedgerClaim :: "string \<Rightarrow> string \<Rightarrow> ('s, go_error, bool) program"
  LedgerMark :: "string \<Rightarrow> ('s, go_error, unit) program"
  DeadLetters :: "(string \<Rightarrow> string \<Rightarrow> int \<Rightarrow> string \<Rightarrow> string \<Rightarrow> int \<Rightarrow> int \<Rightarrow> ('s, go_error, unit) program) option"
  SinkPersist :: "envelope \<Rightarrow> ('s, go_error, unit) program"

definition supportedEnvelopeVersion :: "int \<Rightarrow> int \<times> bool" where
  "supportedEnvelopeVersion version =
     (let version = (if version = 0 then PreviousEnvelopeVersion else version)
      in (version, version = PreviousEnvelopeVersion \<or> version = CurrentEnvelopeVersion))"

text \<open>\<^verbatim>\<open>fmtHex\<close> of this package: two digits of a byte at a time.\<close>

fun telemetry_fmtHex :: "bytes \<Rightarrow> string" where
  "telemetry_fmtHex [] = []"
| "telemetry_fmtHex (b # bs) =
     hex_alphabet ! unat (drop_bit 4 b) # hex_alphabet ! unat (and b 0x0F) # telemetry_fmtHex bs"

definition deadLetter :: "'s consumer \<Rightarrow> broker_message \<Rightarrow> envelope \<Rightarrow> string \<Rightarrow> ('s, go_error, unit) program" where
  "deadLetter c message envelope reason =
     (case DeadLetters c of
        None \<Rightarrow> fail_with (Errorf ''dead-letter recorder unavailable'')
      | Some recorder \<Rightarrow>
          recorder (TenantID envelope) (EventKey envelope) (SchemaVersion envelope) reason
            (telemetry_fmtHex (sha256 (bytes_of (MessageValue message))))
            (MessagePartition message) (MessageOffset message))"

definition consumer_process :: "'s consumer \<Rightarrow> envelope \<Rightarrow> ('s, go_error, unit) program" where
  "consumer_process c envelope =
     and_then (LedgerClaim c (EventKey envelope) (TenantID envelope)) (\<lambda>shouldPersist.
       if \<not> shouldPersist then ret ()
       else and_then (SinkPersist c envelope) (\<lambda>_. LedgerMark c (EventKey envelope)))"

text \<open>
  The body of the loop. \<open>decode\<close> is \<^verbatim>\<open>json.Unmarshal\<close> into a zero envelope: whether it succeeded, and what
  it left in the envelope.
\<close>

definition handle_message ::
  "(string \<Rightarrow> bool \<times> envelope) \<Rightarrow> 's consumer \<Rightarrow> broker_message \<Rightarrow> ('s, go_error, unit) program" where
  "handle_message decode c message =
     (let (ok, envelope) = decode (MessageValue message)
      in if \<not> ok \<or> EventKey envelope = [] \<or> TenantID envelope = []
         then and_then (deadLetter c message envelope ''malformed_envelope'') (\<lambda>_. CommitMessages c message)
         else
           let (normalizedVersion, supported) = supportedEnvelopeVersion (SchemaVersion envelope);
               envelope = envelope\<lparr>SchemaVersion := normalizedVersion\<rparr>
           in if \<not> supported
              then and_then (deadLetter c message envelope ''unknown_schema_version'') (\<lambda>_. CommitMessages c message)
              else and_then (consumer_process c envelope) (\<lambda>_. CommitMessages c message))"

text \<open>
  \<^verbatim>\<open>Run\<close> never returns without an error; \<open>consumer_run n\<close> is its first \<open>n\<close> messages, and a value means that
  it is still running after them.
\<close>

fun consumer_run :: "nat \<Rightarrow> (string \<Rightarrow> bool \<times> envelope) \<Rightarrow> 's consumer \<Rightarrow> ('s, go_error, unit) program" where
  "consumer_run 0 decode c = ret ()"
| "consumer_run (Suc n) decode c =
     and_then (FetchMessage c) (\<lambda>message.
     and_then (handle_message decode c message) (\<lambda>_. consumer_run n decode c))"

lemma telemetry_fmtHex_encode: "telemetry_fmtHex bs = hex_encode bs"
  by (induction bs) (simp_all add: high_nibble low_nibble)

subsection \<open>What the consumer needs\<close>

text \<open>
  Beside the ledger: a sink that stores what it acknowledges and leaves the ledger alone, a recorder of dead
  letters, and a broker that leaves both alone.
\<close>

locale consumer_env = delivery_ledger "LedgerClaim c" "LedgerMark c" state_of sane
  for c :: "'s consumer" and state_of :: "'s \<Rightarrow> string \<Rightarrow> delivery_status option" and sane :: "'s \<Rightarrow> bool" +
  fixes stored :: "'s \<Rightarrow> string set" and letters :: "'s \<Rightarrow> (int \<times> int) set"
    and aside :: "'s \<Rightarrow> 's \<Rightarrow> bool"
  assumes asideD: "aside s s' \<Longrightarrow> state_of s' = state_of s \<and> stored s \<subseteq> stored s' \<and> letters s \<subseteq> letters s' \<and>
      (sane s \<longrightarrow> sane s')"
    and persist_aside: "SinkPersist c e s = (r1, s') \<Longrightarrow> aside s s'"
    and persist_stores: "SinkPersist c e s = (Inr (), s') \<Longrightarrow> EventKey e \<in> stored s'"
    and fetch_aside: "FetchMessage c s = (r2, s') \<Longrightarrow> aside s s'"
    and commit_aside: "CommitMessages c m s = (r3, s') \<Longrightarrow> aside s s'"
    and letter_aside: "DeadLetters c = Some recorder \<Longrightarrow> recorder t k v reason sha p off s = (r4, s') \<Longrightarrow> aside s s'"
    and letter_recorded: "DeadLetters c = Some recorder \<Longrightarrow> recorder t k v reason sha p off s = (Inr (), s') \<Longrightarrow>
      (p, off) \<in> letters s'"
    and claim_stored: "LedgerClaim c key t s = (r5, s') \<Longrightarrow> stored s' = stored s \<and> letters s' = letters s"
    and mark_stored: "LedgerMark c key s = (r6, s') \<Longrightarrow> stored s' = stored s \<and> letters s' = letters s"
    and claim_persisted: "LedgerClaim c key t s = (r7, s') \<Longrightarrow> state_of s' k = Some Persisted \<Longrightarrow> state_of s k = Some Persisted"
    and mark_persisted: "LedgerMark c key s = (r8, s') \<Longrightarrow> state_of s' k = Some Persisted \<Longrightarrow>
      k = key \<or> state_of s k = Some Persisted"
begin

definition backed :: "'s \<Rightarrow> bool" where
  "backed s = (sane s \<and> (\<forall>k. state_of s k = Some Persisted \<longrightarrow> k \<in> stored s))"

lemma aside_backed: "backed s \<Longrightarrow> aside s s' \<Longrightarrow> backed s'"
  using asideD unfolding backed_def by (metis subsetD)

lemma process_backed:
  assumes "backed s" and "consumer_process c e s = (r, s')"
  shows "backed s'"
proof -
  obtain p s1 where p: "LedgerClaim c (EventKey e) (TenantID e) s = (p, s1)" by fastforce
  have s1: "backed s1"
    using assms(1) claim_persisted [OF p] claim_stored [OF p] claim_sane [OF _ p] unfolding backed_def by blast
  show ?thesis
  proof (cases "p = Inr True")
    case False
    then have "s' = s1" using assms(2) p by (auto simp: consumer_process_def and_then_def split: sum.splits if_splits)
    with s1 show ?thesis by simp
  next
    case True
    obtain q s2 where q: "SinkPersist c e s1 = (q, s2)" by fastforce
    have s2: "backed s2" by (rule aside_backed [OF s1 persist_aside [OF q]])
    show ?thesis
    proof (cases q)
      case (Inl err)
      then show ?thesis using assms(2) p q True s2 by (auto simp: consumer_process_def and_then_def)
    next
      case (Inr u)
      then have mark: "LedgerMark c (EventKey e) s2 = (r, s')"
        using assms(2) p q True by (auto simp: consumer_process_def and_then_def)
      have "EventKey e \<in> stored s2" using persist_stores q Inr by simp
      then show ?thesis
        using s2 mark_persisted [OF mark] mark_stored [OF mark] mark_sane [OF _ mark] unfolding backed_def by blast
    qed
  qed
qed

lemma handle_backed:
  assumes "backed s" and "handle_message decode c message s = (r, s')"
  shows "backed s'"
proof -
  have commit: "backed s'" if "and_then m (\<lambda>_. CommitMessages c message) s = (r, s')"
      and "\<And>r1 s1. m s = (r1, s1) \<Longrightarrow> backed s1" for m :: "('s, go_error, unit) program"
    using that commit_aside aside_backed
    by (cases "m s"; cases "fst (m s)") (auto simp: and_then_def)
  have letter: "backed s1" if "deadLetter c message e reason s = (r1, s1)" for e reason r1 s1
    using that assms(1) letter_aside aside_backed
    by (auto simp: deadLetter_def split: option.splits)
  from assms(2) show ?thesis
    by (auto simp: handle_message_def Let_def split: prod.splits if_splits
        intro!: commit intro: letter process_backed [OF assms(1)])
qed

lemma run_backed:
  assumes "backed s" and "consumer_run n decode c s = (r, s')"
  shows "backed s'"
  using assms
proof (induction n arbitrary: s)
  case (Suc n)
  obtain m s1 where m: "FetchMessage c s = (m, s1)" by fastforce
  have s1: "backed s1" by (rule aside_backed [OF Suc.prems(1) fetch_aside [OF m]])
  show ?case
  proof (cases m)
    case (Inr message)
    obtain q s2 where q: "handle_message decode c message s1 = (q, s2)" by fastforce
    have s2: "backed s2" by (rule handle_backed [OF s1 q])
    show ?thesis
      using Suc.prems(2) Suc.IH [OF s2] m Inr q s2 by (cases q) (auto simp: and_then_def)
  qed (use Suc.prems(2) m s1 in \<open>auto simp: and_then_def\<close>)
qed simp

lemma process_settles:
  assumes "sane s" and "consumer_process c e s = (Inr (), s')"
  shows "state_of s' (EventKey e) =
    (if state_of s (EventKey e) = Some LossEvidenced then Some LossEvidenced else Some Persisted)"
proof -
  obtain granted s1 where claim: "LedgerClaim c (EventKey e) (TenantID e) s = (Inr granted, s1)"
    using assms(2) by (auto simp: consumer_process_def and_then_def split: prod.splits sum.splits)
  show ?thesis
  proof (cases granted)
    case False
    then have "state_of s' = state_of s" "state_of s (EventKey e) \<noteq> None" "state_of s (EventKey e) \<noteq> Some Pending"
      using assms(2) claim claim_refused [of "EventKey e" "TenantID e" s s1] by (auto simp: consumer_process_def and_then_def)
    then show ?thesis by (auto intro: delivery_status.exhaust)
  next
    case True
    obtain s2 where persist: "SinkPersist c e s1 = (Inr (), s2)" and mark: "LedgerMark c (EventKey e) s2 = (Inr (), s')"
      using assms(2) claim True by (auto simp: consumer_process_def and_then_def split: prod.splits sum.splits)
    have "sane s2" using claim_sane [OF assms(1) claim] persist_aside [OF persist] asideD by blast
    then have "state_of s' (EventKey e) = Some Persisted" using mark_settles [OF _ mark] by simp
    moreover have "state_of s (EventKey e) \<le> Some Pending"
      using claim_forward [OF claim, of "EventKey e"] claim_granted claim True by (metis (full_types))
    ultimately show ?thesis by (auto simp: less_eq_delivery_status_def)
  qed
qed

text \<open>A message that is not a supported envelope leaves a dead letter for its place in the log, and nothing else.\<close>

lemma rejected_letter:
  assumes "handle_message decode c message s = (Inr (), s')" and "decode (MessageValue message) = (ok, e)"
    and "\<not> ok \<or> EventKey e = [] \<or> TenantID e = [] \<or> \<not> snd (supportedEnvelopeVersion (SchemaVersion e))"
  shows "(MessagePartition message, MessageOffset message) \<in> letters s' \<and> state_of s' = state_of s"
proof -
  have letter: "(MessagePartition message, MessageOffset message) \<in> letters s' \<and> state_of s' = state_of s"
    if run: "and_then (deadLetter c message e' reason) (\<lambda>_. CommitMessages c message) s = (Inr (), s')" for e' reason
  proof -
    obtain recorder s1 where rec: "DeadLetters c = Some recorder"
      "recorder (TenantID e') (EventKey e') (SchemaVersion e') reason (telemetry_fmtHex (sha256 (bytes_of (MessageValue message))))
         (MessagePartition message) (MessageOffset message) s = (Inr (), s1)" "CommitMessages c message s1 = (Inr (), s')"
      using run by (cases "DeadLetters c") (auto simp: and_then_def deadLetter_def split: prod.splits sum.splits)
    show ?thesis
      using letter_recorded [OF rec(1,2)] asideD [OF letter_aside [OF rec(1,2)]] asideD [OF commit_aside [OF rec(3)]] by auto
  qed
  obtain v supported where v: "supportedEnvelopeVersion (SchemaVersion e) = (v, supported)" by fastforce
  show ?thesis
    using assms(1,3) letter by (auto simp: handle_message_def assms(2) v Let_def split: if_splits)
qed

end

subsection \<open>The consumer on PostgreSQL and ClickHouse\<close>

record ('c, 'k) telemetry_world =
  ledger_db :: pg
  clickhouse :: 'c
  kafka :: 'k

definition on_ledger :: "(pg, go_error, 'a) program \<Rightarrow> (('c, 'k) telemetry_world, go_error, 'a) program" where
  "on_ledger m w = (let (r, s) = m (ledger_db w) in (r, w\<lparr>ledger_db := s\<rparr>))"

definition on_clickhouse :: "('c, go_error, 'a) program \<Rightarrow> (('c, 'k) telemetry_world, go_error, 'a) program" where
  "on_clickhouse m w = (let (r, s) = m (clickhouse w) in (r, w\<lparr>clickhouse := s\<rparr>))"

definition on_kafka :: "('k, go_error, 'a) program \<Rightarrow> (('c, 'k) telemetry_world, go_error, 'a) program" where
  "on_kafka m w = (let (r, s) = m (kafka w) in (r, w\<lparr>kafka := s\<rparr>))"

definition pg_consumer ::
  "ch_codecs \<Rightarrow> 'c transport \<Rightarrow> string \<Rightarrow> ('k, go_error, broker_message) program
     \<Rightarrow> (broker_message \<Rightarrow> ('k, go_error, unit) program) \<Rightarrow> ('c, 'k) telemetry_world consumer" where
  "pg_consumer codecs send endpoint fetch commit =
     \<lparr>FetchMessage = on_kafka fetch, CommitMessages = \<lambda>m. on_kafka (commit m),
      LedgerClaim = \<lambda>key tenant. on_ledger (ClaimDelivery key tenant),
      LedgerMark = \<lambda>key. on_ledger (MarkPersisted key),
      DeadLetters = Some (\<lambda>t k v reason sha p off. on_ledger (RecordDeadLetter t k v reason sha p off)),
      SinkPersist = \<lambda>e w. on_clickhouse (Persist codecs send endpoint (clock (ledger_db w)) e) w\<rparr>"

text \<open>
  What the consumer relies on of ClickHouse: a server that answers an insert with a status of class 2 has
  stored its row, and inserts remove nothing. \<open>stored\<close> are the event keys of the rows it holds.
\<close>

definition clickhouse_inserts :: "ch_codecs \<Rightarrow> 'c transport \<Rightarrow> string \<Rightarrow> ('c \<Rightarrow> string set) \<Rightarrow> bool" where
  "clickhouse_inserts codecs send endpoint stored =
     (\<forall>base values row st r st'. ParseURL codecs (endpoint @ insert_path) = Some (base, values) \<longrightarrow>
        send \<lparr>ChURL = base, ChParams = values, ChContentType = ''application/json'',
          ChBody = MarshalRow codecs row @ [CHR 0x0A]\<rparr> st = (r, st') \<longrightarrow>
        stored st \<subseteq> stored st' \<and>
        (\<forall>status body. r = Inr (status, body) \<longrightarrow> status div 100 = 2 \<longrightarrow> RowEventKey row \<in> stored st'))"

lemma Persist_stores:
  assumes "clickhouse_inserts codecs send endpoint stored" and "Persist codecs send endpoint now e st = (r, st')"
  shows "stored st \<subseteq> stored st'" and "r = Inr () \<Longrightarrow> EventKey e \<in> stored st'"
proof -
  let ?row = "row_of codecs (FormatTime codecs now) e"
  have "stored st \<subseteq> stored st' \<and> (r = Inr () \<longrightarrow> EventKey e \<in> stored st')"
  proof (cases "ParseURL codecs (endpoint @ insert_path)")
    case (Some url)
    obtain base params where url: "url = (base, params)" by fastforce
    let ?q = "\<lparr>ChURL = base, ChParams = params, ChContentType = ''application/json'',
      ChBody = MarshalRow codecs ?row @ [CHR 0x0A]\<rparr>"
    obtain a st1 where sent: "send ?q st = (a, st1)" by fastforce
    have law: "stored st \<subseteq> stored st1"
      "a = Inr (status, body) \<Longrightarrow> status div 100 = 2 \<Longrightarrow> EventKey e \<in> stored st1" for status body
      using assms(1) Some url sent unfolding clickhouse_inserts_def by (fastforce simp: row_of_def)+
    have "st' = st1 \<and> (r = Inr () \<longrightarrow> (\<exists>status body. a = Inr (status, body) \<and> status div 100 = 2))"
      using assms(2) sent
      by (auto simp: Persist_def Some url Let_def do_request_def and_then_def split: sum.splits prod.splits if_splits)
    with law show ?thesis by blast
  qed (use assms(2) in \<open>auto simp: Persist_def Let_def\<close>)
  then show "stored st \<subseteq> stored st'" and "r = Inr () \<Longrightarrow> EventKey e \<in> stored st'" by blast+
qed

definition letter_positions :: "db \<Rightarrow> (int \<times> int) set" where
  "letter_positions d = (\<lambda>l. (dl_partition l, dl_offset l)) ` set (dead_letters d)"

definition world_aside :: "('c \<Rightarrow> string set) \<Rightarrow> ('c, 'k) telemetry_world \<Rightarrow> ('c, 'k) telemetry_world \<Rightarrow> bool" where
  "world_aside stored w w' =
     (delivery_of (database (ledger_db w')) = delivery_of (database (ledger_db w)) \<and>
      stored (clickhouse w) \<subseteq> stored (clickhouse w') \<and>
      letter_positions (database (ledger_db w)) \<subseteq> letter_positions (database (ledger_db w')) \<and>
      (ledger_sane (ledger_db w) \<longrightarrow> ledger_sane (ledger_db w')))"

lemma insert_dead_letter_rows:
  assumes "insert_dead_letter t k v reason sha p off locked now d = Inr (u, d')"
  shows "ledger d' = ledger d \<and> letter_positions d \<subseteq> letter_positions d' \<and> (p, off) \<in> letter_positions d'"
  using assms by (auto simp: insert_dead_letter_def letter_positions_def list_ex_iff image_iff split: if_splits)

lemma dead_letter_aside:
  assumes "RecordDeadLetter t k v reason sha p off s = (r, s')"
  shows "ledger (database s') = ledger (database s)" "letter_positions (database s) \<subseteq> letter_positions (database s')"
    "r = Inr () \<Longrightarrow> (p, off) \<in> letter_positions (database s')"
proof -
  have "ledger (database s') = ledger (database s) \<and> letter_positions (database s) \<subseteq> letter_positions (database s') \<and>
      (r = Inr () \<longrightarrow> (p, off) \<in> letter_positions (database s'))"
    using assms [unfolded RecordDeadLetter_def Let_def]
  proof (cases rule: autocommit_cases)
    case (all a locked)
    show ?thesis using insert_dead_letter_rows [OF all(1)] by blast
  qed auto
  then show "ledger (database s') = ledger (database s)" "letter_positions (database s) \<subseteq> letter_positions (database s')"
    "r = Inr () \<Longrightarrow> (p, off) \<in> letter_positions (database s')" by blast+
qed

lemma claim_delivery_letters: "claim_delivery k t locked now d = Inr (x, d') \<Longrightarrow> dead_letters d' = dead_letters d"
  by (auto simp: claim_delivery_def split: option.splits if_splits)

lemma ledger_calls_letters:
  "ClaimDelivery k t s = (r1, s') \<Longrightarrow> letter_positions (database s') = letter_positions (database s)"
  "MarkPersisted k s = (r2, s') \<Longrightarrow> letter_positions (database s') = letter_positions (database s)"
proof -
  assume "ClaimDelivery k t s = (r1, s')"
  then obtain q where "autocommit (claim_delivery k t) s = (q, s')"
    by (auto simp: ClaimDelivery_def and_then_def split: sum.splits prod.splits option.splits)
  then show "letter_positions (database s') = letter_positions (database s)"
    by (cases rule: autocommit_cases) (auto simp: letter_positions_def dest: claim_delivery_letters)
next
  assume "MarkPersisted k s = (r2, s')"
  then obtain q where "autocommit (settle_delivery k Persisted None) s = (q, s')"
    using MarkPersisted_settles by blast
  then show "letter_positions (database s') = letter_positions (database s)"
  proof (cases rule: autocommit_cases)
    case (all a locked)
    have "dead_letters (database s') = dead_letters (database s)"
      using arg_cong [OF all(1), of "\<lambda>x. case x of Inl e \<Rightarrow> dead_letters (database s) | Inr (n, d) \<Rightarrow> dead_letters d"]
      by (simp add: settle_delivery_def Let_def)
    then show ?thesis by (simp add: letter_positions_def)
  qed simp
qed

lemma ledger_calls_persisted:
  "ClaimDelivery k t s = (r1, s') \<Longrightarrow> delivery_of (database s') x = Some Persisted \<Longrightarrow> delivery_of (database s) x = Some Persisted"
  "MarkPersisted k s = (r2, s') \<Longrightarrow> delivery_of (database s') x = Some Persisted \<Longrightarrow>
     x = k \<or> delivery_of (database s) x = Some Persisted"
proof -
  assume "ClaimDelivery k t s = (r1, s')" and p: "delivery_of (database s') x = Some Persisted"
  then show "delivery_of (database s) x = Some Persisted"
  proof (cases rule: ClaimDelivery_cases)
    case claimed
    show ?thesis using p unfolding claimed(3) by (auto split: if_splits)
  qed simp_all
next
  assume m: "MarkPersisted k s = (r2, s')" and p: "delivery_of (database s') x = Some Persisted"
  obtain q where "autocommit (settle_delivery k Persisted None) s = (q, s')"
    using MarkPersisted_settles [OF m] by blast
  then show "x = k \<or> delivery_of (database s) x = Some Persisted"
  proof (cases rule: settle_cases)
    case (settled changed)
    show ?thesis using p unfolding settled(2) by (auto split: if_splits)
  qed (use p in simp)
qed

lemma onE:
  "on_ledger m w = (r, w') \<Longrightarrow> (\<And>s. m (ledger_db w) = (r, s) \<Longrightarrow> w' = w\<lparr>ledger_db := s\<rparr> \<Longrightarrow> P) \<Longrightarrow> P"
  "on_clickhouse n w = (q, w') \<Longrightarrow> (\<And>s. n (clickhouse w) = (q, s) \<Longrightarrow> w' = w\<lparr>clickhouse := s\<rparr> \<Longrightarrow> P) \<Longrightarrow> P"
  "on_kafka l w = (p, w') \<Longrightarrow> (\<And>s. l (kafka w) = (p, s) \<Longrightarrow> w' = w\<lparr>kafka := s\<rparr> \<Longrightarrow> P) \<Longrightarrow> P"
  by (auto simp: on_ledger_def on_clickhouse_def on_kafka_def Let_def split: prod.splits)

lemma pg_consumer_simps:
  "FetchMessage (pg_consumer codecs send endpoint fetch commit) = on_kafka fetch"
  "CommitMessages (pg_consumer codecs send endpoint fetch commit) m = on_kafka (commit m)"
  "LedgerClaim (pg_consumer codecs send endpoint fetch commit) key tenant = on_ledger (ClaimDelivery key tenant)"
  "LedgerMark (pg_consumer codecs send endpoint fetch commit) key = on_ledger (MarkPersisted key)"
  "DeadLetters (pg_consumer codecs send endpoint fetch commit)
     = Some (\<lambda>t k v reason sha p off. on_ledger (RecordDeadLetter t k v reason sha p off))"
  "SinkPersist (pg_consumer codecs send endpoint fetch commit) e w
     = on_clickhouse (Persist codecs send endpoint (clock (ledger_db w)) e) w"
  by (simp_all add: pg_consumer_def)

abbreviation ledger_state :: "('c, 'k) telemetry_world \<Rightarrow> string \<Rightarrow> delivery_status option" where
  "ledger_state w \<equiv> delivery_of (database (ledger_db w))"

lemma pg_consumer_env:
  assumes "clickhouse_inserts codecs send endpoint stored"
  shows "consumer_env (pg_consumer codecs send endpoint fetch commit) ledger_state
    (\<lambda>w. ledger_sane (ledger_db w)) (\<lambda>w. stored (clickhouse w)) (\<lambda>w. letter_positions (database (ledger_db w)))
    (world_aside stored)"
proof (unfold_locales, unfold pg_consumer_simps, goal_cases)
  case (1 key t w w')
  then show ?case using pg_ledger.claim_granted by (auto elim: onE(1))
next
  case (2 key t w w')
  then show ?case using pg_ledger.claim_refused by (fastforce elim: onE(1))
next
  case (3 key t w r w' k)
  then show ?case using pg_ledger.claim_forward by (fastforce elim: onE(1))
next
  case (4 w key w')
  then show ?case using pg_ledger.mark_settles by (fastforce elim: onE(1))
next
  case (5 key w r w' k)
  then show ?case using pg_ledger.mark_forward by (fastforce elim: onE(1))
next
  case (6 w key t r w')
  then show ?case using pg_ledger.claim_sane by (auto elim: onE(1))
next
  case (7 w key r w')
  then show ?case using pg_ledger.mark_sane by (auto elim: onE(1))
next
  case (8 w w')
  then show ?case by (auto simp: world_aside_def)
next
  case (9 e w r w')
  then show ?case by (rule onE(2)) (simp add: world_aside_def Persist_stores(1) [OF assms])
next
  case (10 e w w')
  then show ?case by (rule onE(2)) (simp add: Persist_stores(2) [OF assms])
next
  case (11 w r w')
  then show ?case by (auto simp: world_aside_def elim!: onE(3))
next
  case (12 m w r w')
  then show ?case by (auto simp: world_aside_def elim!: onE(3))
next
  case (13 recorder t k v reason sha p off w r w')
  then have "on_ledger (RecordDeadLetter t k v reason sha p off) w = (r, w')" by auto
  then show ?case
  proof (rule onE(1))
    fix s assume s: "RecordDeadLetter t k v reason sha p off (ledger_db w) = (r, s)" "w' = w\<lparr>ledger_db := s\<rparr>"
    show ?thesis
      using dead_letter_aside(1,2) [OF s(1)] by (simp add: world_aside_def delivery_of_def [abs_def] ledger_sane_def s(2))
  qed
next
  case (14 recorder t k v reason sha p off w w')
  then show ?case using dead_letter_aside(3) by (auto elim!: onE(1))
next
  case (15 key t w r w')
  then show ?case using ledger_calls_letters(1) by (auto elim!: onE(1))
next
  case (16 key w r w')
  then show ?case using ledger_calls_letters(2) by (auto elim!: onE(1))
next
  case (17 key t w r w' k)
  then show ?case using ledger_calls_persisted(1) by (auto elim!: onE(1))
next
  case (18 key w r w' k)
  from 18(1) show ?case
  proof (rule onE(1))
    fix s assume s: "MarkPersisted key (ledger_db w) = (r, s)" "w' = w\<lparr>ledger_db := s\<rparr>"
    show ?thesis using ledger_calls_persisted(2) [OF s(1), of k] 18(2) by (simp add: s(2))
  qed
qed

text \<open>A broker that serves a list of messages.\<close>

fun next_message :: "(broker_message list, go_error, broker_message) program" where
  "next_message [] = (Inl Unavailable, [])"
| "next_message (m # ms) = (Inr m, ms)"

lemma record_send_inserts: "clickhouse_inserts key_codecs record_send endpoint sent_keys"
  by (auto simp: clickhouse_inserts_def record_send_def sent_keys_def key_codecs_def)

abbreviation recording_consumer :: "(ch_request list, broker_message list) telemetry_world consumer" where
  "recording_consumer \<equiv> pg_consumer key_codecs record_send ''http://clickhouse:8123'' next_message (\<lambda>_. ret ())"

interpretation recording: consumer_env recording_consumer ledger_state "\<lambda>w. ledger_sane (ledger_db w)"
  "\<lambda>w. sent_keys (clickhouse w)" "\<lambda>w. letter_positions (database (ledger_db w))" "world_aside sent_keys"
  by (rule pg_consumer_env [OF record_send_inserts])

subsection \<open>What the consumer guarantees\<close>

text \<open>
  C11. Persisted means stored: if ClickHouse stores what it acknowledges, then however many messages the
  consumer handles, in whatever state and with whatever faults it stops, every event the ledger calls
  persisted is in ClickHouse.
\<close>

theorem persisted_means_stored:
  assumes "clickhouse_inserts codecs send endpoint stored" and "ledger_sane (ledger_db w)"
    and "\<forall>key. ledger_state w key = Some Persisted \<longrightarrow> key \<in> stored (clickhouse w)"
    and "consumer_run n decode (pg_consumer codecs send endpoint fetch commit) w = (r, w')"
  shows "\<forall>key. ledger_state w' key = Some Persisted \<longrightarrow> key \<in> stored (clickhouse w')"
proof -
  note env = pg_consumer_env [OF assms(1), of fetch commit]
  show ?thesis
    using consumer_env.run_backed [OF env _ assms(4)] assms(2,3)
    by (simp add: consumer_env.backed_def [OF env])
qed

lemma process_leaves_kafka:
  assumes "consumer_process (pg_consumer codecs send endpoint fetch commit) e w = (r, w')"
  shows "kafka w' = kafka w"
  using assms unfolding consumer_process_def pg_consumer_simps and_then_def
  by (auto simp: pg_consumer_simps elim!: onE split: prod.splits sum.splits if_splits)

text \<open>
  C15. No event is acknowledged too early. Take a message that decodes to an envelope with a key, a tenant and a version
  the consumer supports. However handling it ends, and whatever fails on the way: when it was handled without an error,
  or when anything at all was said to Kafka after the fetch, then the ledger calls the event persisted, or goes on to
  call it lost if its loss was on record before.
\<close>

theorem committed_accounted:
  assumes "clickhouse_inserts codecs send endpoint stored" and "ledger_sane (ledger_db w)"
    and "decode (MessageValue message) = (True, e)" and "EventKey e \<noteq> []" and "TenantID e \<noteq> []"
    and "supportedEnvelopeVersion (SchemaVersion e) = (version, True)"
    and "handle_message decode (pg_consumer codecs send endpoint fetch commit) message w = (r, w')"
    and "r = Inr () \<or> kafka w' \<noteq> kafka w"
  shows "ledger_state w' (EventKey e) =
    (if ledger_state w (EventKey e) = Some LossEvidenced then Some LossEvidenced else Some Persisted)"
proof -
  let ?c = "pg_consumer codecs send endpoint fetch commit" and ?e = "e\<lparr>SchemaVersion := version\<rparr>"
  note env = pg_consumer_env [OF assms(1), of fetch commit]
  have run: "and_then (consumer_process ?c ?e) (\<lambda>_. CommitMessages ?c message) w = (r, w')"
    using assms(3-7) by (simp add: handle_message_def)
  obtain p w1 where p: "consumer_process ?c ?e w = (p, w1)" by fastforce
  have "p = Inr ()"
    using run p assms(8) process_leaves_kafka [OF p] by (cases p) (auto simp: and_then_def)
  with p have p: "consumer_process ?c ?e w = (Inr (), w1)" by simp
  have settled: "ledger_state w1 (EventKey e) =
      (if ledger_state w (EventKey e) = Some LossEvidenced then Some LossEvidenced else Some Persisted)"
    using consumer_env.process_settles [OF env assms(2) p] by simp
  have "CommitMessages ?c message w1 = (r, w')" using run p by (simp add: and_then_def)
  then have "ledger_db w' = ledger_db w1" unfolding pg_consumer_simps by (rule onE(3)) simp
  then show ?thesis using settled by simp
qed

definition first_delivery :: "(ch_request list, broker_message list) telemetry_world" where
  "first_delivery = \<lparr>ledger_db = \<lparr>database = empty_db\<lparr>tenants := [''tenant-a'']\<rparr>, clock = 0, script = []\<rparr>,
     clickhouse = [], kafka = [\<lparr>MessageValue = ''{...}'', MessagePartition = 0, MessageOffset = 7\<rparr>]\<rparr>"

definition sample_decode :: "string \<Rightarrow> bool \<times> envelope" where
  "sample_decode text = (True, sample_envelope)"

lemma persisted_means_stored_witness:
  "''tenant-a:e1'' \<in> sent_keys (clickhouse (snd (consumer_run 1 sample_decode recording_consumer first_delivery)))"
proof -
  let ?w = "snd (consumer_run 1 sample_decode recording_consumer first_delivery)"
  have state: "ledger_state ?w ''tenant-a:e1'' = Some Persisted" "ledger_sane (ledger_db first_delivery)"
    "ledger (database (ledger_db first_delivery)) = []" by code_simp+
  have "\<forall>key. ledger_state first_delivery key = Some Persisted \<longrightarrow> key \<in> sent_keys (clickhouse first_delivery)"
    by (simp add: delivery_of_def state(3))
  from persisted_means_stored [OF record_send_inserts state(2) this prod.collapse [symmetric]] state(1)
  show ?thesis by blast
qed

lemma committed_accounted_witness:
  "ledger_state (snd (handle_message sample_decode recording_consumer (hd (kafka first_delivery)) first_delivery)) ''tenant-a:e1''
     = Some Persisted"
proof -
  let ?run = "handle_message sample_decode recording_consumer (hd (kafka first_delivery)) first_delivery"
  have run: "fst ?run = Inr ()" "ledger_sane (ledger_db first_delivery)" "ledger_state first_delivery ''tenant-a:e1'' = None"
    by code_simp+
  have e: "EventKey sample_envelope = ''tenant-a:e1''" "TenantID sample_envelope \<noteq> []"
    "supportedEnvelopeVersion (SchemaVersion sample_envelope) = (2, True)"
    by (simp_all add: sample_envelope_def supportedEnvelopeVersion_def CurrentEnvelopeVersion_def PreviousEnvelopeVersion_def)
  have decoded: "sample_decode (MessageValue (hd (kafka first_delivery))) = (True, sample_envelope)"
    by (simp add: sample_decode_def)
  have "?run = (Inr (), snd ?run)" by (rule prod_eqI) (simp_all only: run(1) fst_conv snd_conv)
  from committed_accounted [OF record_send_inserts run(2) decoded _ e(2,3) this] run(3) show ?thesis by (simp add: e(1))
qed

end
