(* ===== verification/Sampling.thy ===== *)
theory Sampling
  imports Ingest "HOL-Library.Multiset"
begin

text \<open>
  \<^verbatim>\<open>internal/sampling/sampler.go\<close>: the tail decision of a completed trace, and the in-memory sampler
  that buffers traces until a decision.

  Times and durations are nanoseconds. \<open>millis\<close> reads \<^verbatim>\<open>duration_ms\<close>: the duration that
  \<^verbatim>\<open>strconv.ParseFloat\<close> and the conversion to \<^verbatim>\<open>time.Duration\<close> give, or \<^const>\<open>None\<close> when the text is not
  a number; floating point is not modelled. The map of traces is an association list in the order in which
  \<^verbatim>\<open>range\<close> visits it. \<open>sample\<close> is \<^const>\<open>None\<close> where Go panics, dividing by zero.
\<close>

type_synonym millis_reader = "string \<Rightarrow> int option"

record Config =
  MaxTraces :: int
  MaxSpansPerTrace :: int
  HealthySampleModulo :: int
  SlowThreshold :: int

record Decision =
  DecisionTraceID :: string
  Reason :: string
  Retained :: bool
  Evicted :: bool
  Spans :: "envelope list"

record buffer =
  opened :: int
  buffered :: "envelope list"

record Sampler =
  config :: Config
  traces :: "(string \<times> buffer) list"

abbreviation second :: int where "second \<equiv> 1000000000"

definition isError :: "envelope \<Rightarrow> bool" where
  "isError envelope =
     (let (status, _) = atoi (get_or [] (Attributes (Event envelope)) ''http.status_code'')
      in status \<ge> 500 \<or> get_or [] (Attributes (Event envelope)) ''error'' = ''true'')"

definition isSlow :: "millis_reader \<Rightarrow> envelope \<Rightarrow> int \<Rightarrow> bool" where
  "isSlow millis envelope threshold =
     (case millis (get_or [] (Attributes (Event envelope)) ''duration_ms'') of
        None \<Rightarrow> False
      | Some duration \<Rightarrow> duration \<ge> threshold)"

definition sample :: "string \<Rightarrow> int \<Rightarrow> bool option" where
  "sample traceID every =
     (let h = fnv32a traceID; m = (word_of_int every :: 32 word)
      in if m = 0 then None else Some (h mod m = 0))"

definition retained :: "string \<Rightarrow> string \<Rightarrow> envelope list \<Rightarrow> Decision" where
  "retained traceID reason spans =
     \<lparr>DecisionTraceID = traceID, Reason = reason, Retained = True, Evicted = False, Spans = spans\<rparr>"

definition dropped :: "string \<Rightarrow> Decision" where
  "dropped traceID = \<lparr>DecisionTraceID = traceID, Reason = ''dropped_healthy_sample'', Retained = False,
     Evicted = False, Spans = []\<rparr>"

definition evicted :: "string \<Rightarrow> string \<Rightarrow> Decision" where
  "evicted traceID reason = \<lparr>DecisionTraceID = traceID, Reason = reason, Retained = False,
     Evicted = True, Spans = []\<rparr>"

definition decide_defaults :: "Config \<Rightarrow> Config" where
  "decide_defaults c =
     (let c = (if HealthySampleModulo c < 1 then c\<lparr>HealthySampleModulo := 100\<rparr> else c)
      in if SlowThreshold c \<le> 0 then c\<lparr>SlowThreshold := second\<rparr> else c)"

definition Decide :: "millis_reader \<Rightarrow> string \<Rightarrow> envelope list \<Rightarrow> Config \<Rightarrow> Decision option" where
  "Decide millis traceID spans c =
     (let c = decide_defaults c
      in if list_ex isError spans then Some (retained traceID ''retained_error'' spans)
         else if list_ex (\<lambda>span. isSlow millis span (SlowThreshold c)) spans
         then Some (retained traceID ''retained_slow'' spans)
         else case sample traceID (HealthySampleModulo c) of
           None \<Rightarrow> None
         | Some True \<Rightarrow> Some (retained traceID ''retained_healthy_sample'' spans)
         | Some False \<Rightarrow> Some (dropped traceID))"

definition New :: "Config \<Rightarrow> Sampler" where
  "New c =
     (let c = (if MaxTraces c < 1 then c\<lparr>MaxTraces := 1000\<rparr> else c);
          c = (if MaxSpansPerTrace c < 1 then c\<lparr>MaxSpansPerTrace := 100\<rparr> else c);
          c = (if HealthySampleModulo c < 1 then c\<lparr>HealthySampleModulo := 100\<rparr> else c);
          c = (if SlowThreshold c \<le> 0 then c\<lparr>SlowThreshold := second\<rparr> else c)
      in \<lparr>config = c, traces = []\<rparr>)"

definition oldest_step :: "string \<times> buffer \<Rightarrow> string \<times> int \<Rightarrow> string \<times> int" where
  "oldest_step entry best =
     (let (traceID, b) = entry; (id, oldest) = best
      in if id = [] \<or> opened b < oldest then (traceID, opened b) else (id, oldest))"

definition evictOldest :: "Sampler \<Rightarrow> Decision \<times> Sampler" where
  "evictOldest s =
     (let (id, _) = fold oldest_step (traces s) ([], 0)
      in (evicted id ''evicted_pressure'', s\<lparr>traces := AList.delete id (traces s)\<rparr>))"

text \<open>The first half of \<^verbatim>\<open>Observe\<close>: the buffer to use, with the pressure decision.\<close>

definition open_trace :: "string \<Rightarrow> int \<Rightarrow> Sampler \<Rightarrow> Decision option \<times> buffer \<times> Sampler" where
  "open_trace traceID now s =
     (case map_of (traces s) traceID of
        Some b \<Rightarrow> (None, b, s)
      | None \<Rightarrow>
          let (pressure, s) = (if int (length (traces s)) \<ge> MaxTraces (config s)
                               then let (d, s) = evictOldest s in (Some d, s) else (None, s));
              b = \<lparr>opened = now, buffered = []\<rparr>
          in (pressure, b, s\<lparr>traces := AList.update traceID b (traces s)\<rparr>))"

definition Observe :: "millis_reader \<Rightarrow> envelope \<Rightarrow> int \<Rightarrow> Sampler \<Rightarrow> Decision option \<times> Sampler" where
  "Observe millis envelope now s =
     (let traceID = TraceID (Event envelope);
          (pressure, b, s) = open_trace traceID now s
      in if int (length (buffered b)) \<ge> MaxSpansPerTrace (config s)
         then (Some (evicted traceID ''evicted_span_limit''), s\<lparr>traces := AList.delete traceID (traces s)\<rparr>)
         else
           let b = b\<lparr>buffered := buffered b @ [envelope]\<rparr>;
               s = s\<lparr>traces := AList.update traceID b (traces s)\<rparr>
           in if isError envelope
              then (Some (retained traceID ''retained_error'' (buffered b)),
                    s\<lparr>traces := AList.delete traceID (traces s)\<rparr>)
              else if isSlow millis envelope (SlowThreshold (config s))
              then (Some (retained traceID ''retained_slow'' (buffered b)),
                    s\<lparr>traces := AList.delete traceID (traces s)\<rparr>)
              else (pressure, s))"

definition Complete :: "string \<Rightarrow> Sampler \<Rightarrow> (Decision option \<times> Sampler) option" where
  "Complete traceID s =
     (case map_of (traces s) traceID of
        None \<Rightarrow> Some (None, s)
      | Some b \<Rightarrow>
          let s = s\<lparr>traces := AList.delete traceID (traces s)\<rparr>
          in case sample traceID (HealthySampleModulo (config s)) of
               None \<Rightarrow> None
             | Some True \<Rightarrow> Some (Some (retained traceID ''retained_healthy_sample'' (buffered b)), s)
             | Some False \<Rightarrow> Some (Some (dropped traceID), s))"

subsection \<open>The classification\<close>

definition sampled :: "string \<Rightarrow> int \<Rightarrow> bool" where
  "sampled traceID every = (sample traceID every = Some True)"

lemma sample_total: "word_of_int every \<noteq> (0 :: 32 word) \<Longrightarrow> sample traceID every = Some (sampled traceID every)"
  by (simp add: sampled_def sample_def Let_def)

lemma decide_defaults_positive [simp]:
  "1 \<le> HealthySampleModulo (decide_defaults c)" "0 < SlowThreshold (decide_defaults c)"
  by (auto simp: decide_defaults_def Let_def)

lemma decide_defaults_default [simp]:
  "HealthySampleModulo c < 1 \<Longrightarrow> HealthySampleModulo (decide_defaults c) = 100"
  "1 \<le> HealthySampleModulo c \<Longrightarrow> HealthySampleModulo (decide_defaults c) = HealthySampleModulo c"
  "SlowThreshold c \<le> 0 \<Longrightarrow> SlowThreshold (decide_defaults c) = second"
  "0 < SlowThreshold c \<Longrightarrow> SlowThreshold (decide_defaults c) = SlowThreshold c"
  by (auto simp: decide_defaults_def Let_def)

lemma decision_simps [simp]:
  "Retained (retained t r sp)" "\<not> Evicted (retained t r sp)" "Spans (retained t r sp) = sp"
  "Reason (retained t r sp) = r" "DecisionTraceID (retained t r sp) = t"
  "\<not> Retained (dropped t)" "\<not> Evicted (dropped t)" "Spans (dropped t) = []"
  "Reason (dropped t) = ''dropped_healthy_sample''" "DecisionTraceID (dropped t) = t"
  "\<not> Retained (evicted t r)" "Evicted (evicted t r)" "Spans (evicted t r) = []"
  "Reason (evicted t r) = r" "DecisionTraceID (evicted t r) = t"
  by (simp_all add: retained_def dropped_def evicted_def)

text \<open>The two conditions that keep a trace whatever the sampling says.\<close>

definition notable :: "millis_reader \<Rightarrow> Config \<Rightarrow> envelope \<Rightarrow> bool" where
  "notable millis c span = (isError span \<or> isSlow millis span (SlowThreshold (decide_defaults c)))"

lemma Decide_Some:
  assumes "Decide millis traceID spans c = Some d"
  shows "DecisionTraceID d = traceID" and "\<not> Evicted d"
    and "Retained d \<longleftrightarrow> list_ex (notable millis c) spans \<or> sampled traceID (HealthySampleModulo (decide_defaults c))"
    and "Spans d = (if Retained d then spans else [])"
  using assms
  by (auto simp: Decide_def Let_def sampled_def list_ex_iff notable_def
      split: if_splits option.splits bool.splits)

definition ten_percent :: Config where
  "ten_percent = \<lparr>MaxTraces = 0, MaxSpansPerTrace = 0, HealthySampleModulo = 10, SlowThreshold = 0\<rparr>"

definition span_with :: "attrs \<Rightarrow> envelope" where
  "span_with attributes = \<lparr>SchemaVersion = 2, TenantID = ''tenant-a'',
     Event = \<lparr>EventID = ''e'', Signal = ''trace'', TraceID = ''t'', SpanID = ''s'', ParentSpanID = '''',
              Name = ''n'', Attributes = attributes\<rparr>,
     Policy = \<lparr>PolicyVersion = ''v1'', RedactedPaths = []\<rparr>, EventKey = ''tenant-a:e''\<rparr>"

lemma error_span: "isError (span_with [(''http.status_code'', ''503'')])"
  by code_simp

text \<open>
  A retry decides the same: the decision depends on the trace id, the configuration and the set
  of spans only, not on the order in which the store returns them.
\<close>

theorem decide_order_independent:
  assumes "mset spans = mset spans'"
  shows "map_option (\<lambda>d. (DecisionTraceID d, Reason d, Retained d, Evicted d, mset (Spans d)))
           (Decide millis traceID spans c)
       = map_option (\<lambda>d. (DecisionTraceID d, Reason d, Retained d, Evicted d, mset (Spans d)))
           (Decide millis traceID spans' c)"
proof -
  have ex: "list_ex P spans = list_ex P spans'" for P
    using mset_eq_setD [OF assms] by (simp add: list_ex_iff)
  show ?thesis
    by (simp add: Decide_def Let_def ex assms split: option.split bool.split)
qed

lemma decide_order_independent_witness:
  "map_option Reason (Decide (\<lambda>_. None) ''t'' [span_with [], span_with [(''error'', ''true'')]] ten_percent)
     = map_option Reason (Decide (\<lambda>_. None) ''t'' [span_with [(''error'', ''true'')], span_with []] ten_percent)"
proof -
  have m: "mset [span_with [], span_with [(''error'', ''true'')]] = mset [span_with [(''error'', ''true'')], span_with []]"
    by simp
  have r: "map_option Reason x = map_option (fst \<circ> snd)
      (map_option (\<lambda>d. (DecisionTraceID d, Reason d, Retained d, Evicted d, mset (Spans d))) x)" for x
    by (simp add: option.map_comp comp_def)
  show ?thesis by (simp only: r decide_order_independent [OF m])
qed

text \<open>
  A decision can panic: the sampling divides by the low 32 bits of the configured modulo, and only
  moduli below 1 are replaced by the default. A healthy trace panics exactly when the modulo is
  a multiple of 2^32.
\<close>

theorem decide_panics:
  "Decide millis traceID spans c = None \<longleftrightarrow>
     \<not> list_ex (notable millis c) spans \<and> 1 \<le> HealthySampleModulo c \<and> HealthySampleModulo c mod 2 ^ 32 = 0"
proof -
  have zero: "word_of_int n = (0 :: 32 word) \<longleftrightarrow> n mod 2 ^ 32 = 0" for n
    by (simp add: word_of_int_eq_0_iff dvd_eq_mod_eq_0)
  have "Decide millis traceID spans c = None \<longleftrightarrow>
      \<not> list_ex (notable millis c) spans \<and> word_of_int (HealthySampleModulo (decide_defaults c)) = (0 :: 32 word)"
    by (auto simp: Decide_def Let_def sample_def list_ex_iff notable_def split: option.split bool.split)
  also have "\<dots> \<longleftrightarrow> \<not> list_ex (notable millis c) spans \<and> 1 \<le> HealthySampleModulo c \<and> HealthySampleModulo c mod 2 ^ 32 = 0"
    by (cases "1 \<le> HealthySampleModulo c") (simp_all add: zero)
  finally show ?thesis .
qed

subsection \<open>The buffers\<close>

lemma oldest_step_pair [simp]:
  "oldest_step (k, b) (i, t) = (if i = [] \<or> opened b < t then (k, opened b) else (i, t))"
  by (simp add: oldest_step_def)

lemma oldest_in:
  assumes "fold oldest_step xs (i, t) = (k0, m)"
  shows "k0 \<in> fst ` set xs \<or> (k0 = i \<and> (xs = [] \<or> i \<noteq> []))"
  using assms
proof (induction xs arbitrary: i t)
  case (Cons x xs)
  obtain k b where "x = (k, b)" by fastforce
  with Cons.prems show ?case
    by (auto split: if_splits dest!: Cons.IH)
qed simp

lemma oldest_minimal:
  assumes "fold oldest_step xs (i, t) = (k0, m)" and "[] \<notin> fst ` set xs"
  shows "(k0, m) = (i, t) \<or> (\<exists>b. (k0, b) \<in> set xs \<and> m = opened b)"
    and "\<forall>(k, b) \<in> set xs. m \<le> opened b" and "i \<noteq> [] \<Longrightarrow> m \<le> t"
proof -
  have "((k0, m) = (i, t) \<or> (\<exists>b. (k0, b) \<in> set xs \<and> m = opened b)) \<and>
      (\<forall>(k, b) \<in> set xs. m \<le> opened b) \<and> (i \<noteq> [] \<longrightarrow> m \<le> t)"
    using assms
  proof (induction xs arbitrary: i t)
    case (Cons x xs)
    obtain k b where x: "x = (k, b)" by fastforce
    then have "k \<noteq> []" using Cons.prems(2) by auto
    show ?case
    proof (cases "i = [] \<or> opened b < t")
      case True
      then have "fold oldest_step xs (k, opened b) = (k0, m)"
        using Cons.prems(1) x by simp
      from Cons.IH [OF this] Cons.prems(2) True \<open>k \<noteq> []\<close> x show ?thesis by fastforce
    next
      case False
      then have "fold oldest_step xs (i, t) = (k0, m)"
        using Cons.prems(1) x by simp
      from Cons.IH [OF this] Cons.prems(2) False x show ?thesis by fastforce
    qed
  qed simp
  then show "(k0, m) = (i, t) \<or> (\<exists>b. (k0, b) \<in> set xs \<and> m = opened b)"
    and "\<forall>(k, b) \<in> set xs. m \<le> opened b" and "i \<noteq> [] \<Longrightarrow> m \<le> t" by auto
qed

lemma evictOldest_shrinks:
  assumes "traces s \<noteq> []"
  shows "length (traces (snd (evictOldest s))) < length (traces s)"
proof -
  obtain k0 m where f: "fold oldest_step (traces s) ([], 0) = (k0, m)" by fastforce
  then have "k0 \<in> fst ` set (traces s)" using oldest_in [OF f] assms by auto
  then show ?thesis by (simp add: evictOldest_def f length_delete_less)
qed

lemma evictOldest_simps [simp]:
  "config (snd (evictOldest s)) = config s"
  "go_map (traces s) \<Longrightarrow> go_map (traces (snd (evictOldest s)))"
  by (simp_all add: evictOldest_def split_def Let_def)

lemma evictOldest_subset: "set (traces (snd (evictOldest s))) \<subseteq> set (traces s)"
  by (auto simp: evictOldest_def split_def Let_def dest: delete_set)

text \<open>
  Pressure evicts the oldest trace: with every buffered trace named, the evicted one is buffered,
  was opened no later than any other, and is gone afterwards while all others stay.
\<close>

theorem evict_oldest:
  assumes "traces s \<noteq> []" and "[] \<notin> fst ` set (traces s)" and "go_map (traces s)"
    and "evictOldest s = (d, s')"
  shows "(\<exists>b. map_of (traces s) (DecisionTraceID d) = Some b \<and> (\<forall>(k, b') \<in> set (traces s). opened b \<le> opened b')) \<and>
    map_of (traces s') = (map_of (traces s)) (DecisionTraceID d := None) \<and> Reason d = ''evicted_pressure''"
proof -
  obtain k0 m where f: "fold oldest_step (traces s) ([], 0) = (k0, m)" by fastforce
  have "k0 \<noteq> []" using oldest_in [OF f] assms(1,2) by metis
  then obtain b where b: "(k0, b) \<in> set (traces s)" "m = opened b"
    using oldest_minimal(1) [OF f assms(2)] by auto
  have "map_of (traces s) k0 = Some b"
    using b(1) assms(3) by (simp add: go_map_def keys_of_def)
  moreover have "d = evicted k0 ''evicted_pressure''" "traces s' = AList.delete k0 (traces s)"
    using assms(4) f by (auto simp: evictOldest_def)
  ultimately show ?thesis
    using oldest_minimal(2) [OF f assms(2)] b(2) by (simp add: delete_conv')
qed

definition two_traces :: Sampler where
  "two_traces = \<lparr>config = ten_percent\<lparr>MaxTraces := 2, MaxSpansPerTrace := 2\<rparr>,
     traces = [(''t2'', \<lparr>opened = 7, buffered = []\<rparr>), (''t1'', \<lparr>opened = 3, buffered = []\<rparr>)]\<rparr>"

lemma evict_oldest_witness:
  "map_of (traces (two_traces\<lparr>traces := [(''t2'', \<lparr>opened = 7, buffered = []\<rparr>)]\<rparr>))
     = (map_of (traces two_traces)) (''t1'' := None)"
proof -
  have "evictOldest two_traces = (evicted ''t1'' ''evicted_pressure'',
      two_traces\<lparr>traces := [(''t2'', \<lparr>opened = 7, buffered = []\<rparr>)]\<rparr>)"
    by (simp add: evictOldest_def two_traces_def oldest_step_def)
  from evict_oldest [OF _ _ _ this] show ?thesis by (simp add: two_traces_def)
qed

text \<open>Runs of a sampler.\<close>

inductive sampler_step :: "millis_reader \<Rightarrow> Sampler \<Rightarrow> Sampler \<Rightarrow> bool" for millis where
  Observed: "Observe millis envelope now s = (d, s') \<Longrightarrow> sampler_step millis s s'"
| Completed: "Complete traceID s = Some (d, s') \<Longrightarrow> sampler_step millis s s'"

definition bounded_buffer :: "Config \<Rightarrow> string \<times> buffer \<Rightarrow> bool" where
  "bounded_buffer c entry =
     (case entry of (traceID, b) \<Rightarrow> int (length (buffered b)) \<le> MaxSpansPerTrace c \<and>
        list_all (\<lambda>e. TraceID (Event e) = traceID) (buffered b))"

definition sampler_ok :: "Sampler \<Rightarrow> bool" where
  "sampler_ok s =
     (go_map (traces s) \<and> 1 \<le> MaxTraces (config s) \<and> int (length (traces s)) \<le> MaxTraces (config s) \<and>
      1 \<le> MaxSpansPerTrace (config s) \<and> list_all (bounded_buffer (config s)) (traces s))"

lemma sampler_ok_New: "sampler_ok (New c)"
  by (simp add: sampler_ok_def New_def Let_def)

lemma sampler_ok_delete:
  "sampler_ok s \<Longrightarrow> sampler_ok (s\<lparr>traces := AList.delete k (traces s)\<rparr>)"
  using length_delete_le [of k "traces s"]
  by (auto simp: sampler_ok_def list_all_iff dest: delete_set)

lemma sampler_ok_update:
  assumes "sampler_ok s" and "bounded_buffer (config s) (k, b)"
    and "k \<in> fst ` set (traces s) \<or> int (length (traces s)) < MaxTraces (config s)"
  shows "sampler_ok (s\<lparr>traces := AList.update k b (traces s)\<rparr>)"
  using assms
  by (auto simp: sampler_ok_def length_update list_all_iff dest!: update_new_set)

lemma sampler_ok_evict: "sampler_ok s \<Longrightarrow> sampler_ok (snd (evictOldest s))"
  by (simp add: evictOldest_def split_def Let_def sampler_ok_delete)

lemma open_trace_ok:
  assumes "sampler_ok s" and "open_trace traceID now s = (pressure, b, s')"
  shows "sampler_ok s' \<and> map_of (traces s') traceID = Some b"
proof (cases "map_of (traces s) traceID")
  case None
  define s1 where "s1 = (if int (length (traces s)) \<ge> MaxTraces (config s) then snd (evictOldest s) else s)"
  have ok: "sampler_ok s1" using assms(1) by (simp add: s1_def sampler_ok_evict)
  have "traces s \<noteq> []" if "int (length (traces s)) \<ge> MaxTraces (config s)"
    using that assms(1) by (auto simp: sampler_ok_def)
  then have room: "int (length (traces s1)) < MaxTraces (config s1)"
    using evictOldest_shrinks [of s] assms(1) by (auto simp: s1_def sampler_ok_def)
  have "b = \<lparr>opened = now, buffered = []\<rparr>" and s': "s' = s1\<lparr>traces := AList.update traceID b (traces s1)\<rparr>"
    using assms(2) None by (auto simp: open_trace_def s1_def split_def Let_def split: if_splits)
  moreover have "bounded_buffer (config s1) (traceID, b)"
    using ok calculation(1) by (simp add: bounded_buffer_def sampler_ok_def)
  ultimately show ?thesis using sampler_ok_update [OF ok] room by (simp add: update_conv')
qed (use assms in \<open>simp add: open_trace_def\<close>)

lemma Observe_ok:
  assumes "sampler_ok s" and "Observe millis envelope now s = (d, s')"
  shows "sampler_ok s'"
proof -
  obtain pressure b s1 where o: "open_trace (TraceID (Event envelope)) now s = (pressure, b, s1)"
    by (metis surj_pair)
  have ok: "sampler_ok s1" and look: "map_of (traces s1) (TraceID (Event envelope)) = Some b"
    using open_trace_ok [OF assms(1) o] by auto
  have "bounded_buffer (config s1) (TraceID (Event envelope), b)"
    using ok map_of_SomeD [OF look] by (auto simp: sampler_ok_def list_all_iff)
  moreover have "TraceID (Event envelope) \<in> fst ` set (traces s1)"
    using map_of_SomeD [OF look] by force
  ultimately have pushed: "sampler_ok (s1\<lparr>traces := AList.update (TraceID (Event envelope))
      (b\<lparr>buffered := buffered b @ [envelope]\<rparr>) (traces s1)\<rparr>)" (is "sampler_ok ?s2")
    if "int (length (buffered b)) < MaxSpansPerTrace (config s1)"
    using sampler_ok_update [OF ok] that by (simp add: bounded_buffer_def)
  show ?thesis
  proof (cases "int (length (buffered b)) < MaxSpansPerTrace (config s1)")
    case True
    then have "s' = ?s2 \<or> s' = ?s2\<lparr>traces := AList.delete (TraceID (Event envelope)) (traces ?s2)\<rparr>"
      using assms(2) by (simp add: Observe_def o Let_def split: if_splits)
    with pushed [OF True] sampler_ok_delete [OF pushed [OF True]] show ?thesis by metis
  next
    case False
    then show ?thesis using assms(2) sampler_ok_delete [OF ok] by (auto simp: Observe_def o Let_def)
  qed
qed

lemma Complete_ok: "sampler_ok s \<Longrightarrow> Complete traceID s = Some (d, s') \<Longrightarrow> sampler_ok s'"
  by (auto simp: Complete_def Let_def sampler_ok_delete split: option.splits bool.splits)

lemma sampler_step_ok: "sampler_step millis s s' \<Longrightarrow> sampler_ok s \<Longrightarrow> sampler_ok s'"
  by (induction rule: sampler_step.induct) (auto intro: Observe_ok Complete_ok)

lemma open_trace_config: "open_trace traceID now s = (pressure, b, s') \<Longrightarrow> config s' = config s"
  by (auto simp: open_trace_def split_def Let_def split: option.splits if_splits)

lemma Observe_config: "config (snd (Observe millis envelope now s)) = config s"
  by (auto simp: Observe_def Let_def split: prod.split dest: open_trace_config)

lemma sampler_step_config: "sampler_step millis s s' \<Longrightarrow> config s' = config s"
proof (induction rule: sampler_step.induct)
  case (Observed envelope now s d s')
  then show ?case using Observe_config [of millis envelope now s] by simp
qed (auto simp: Complete_def Let_def split: option.splits bool.splits)

text \<open>
  C28. The sampler's memory is bounded: whatever is observed and completed, in whatever order, it
  buffers at most \<^verbatim>\<open>MaxTraces\<close> traces of at most \<^verbatim>\<open>MaxSpansPerTrace\<close> spans, each span in the
  buffer of its own trace.
\<close>

theorem sampler_bounded:
  assumes "(sampler_step millis)\<^sup>*\<^sup>* (New c) s"
  shows "int (length (traces s)) \<le> (if MaxTraces c < 1 then 1000 else MaxTraces c) \<and>
    (\<Union>(traceID, b) \<in> set (traces s). {b}) \<subseteq>
      {b. int (length (buffered b)) \<le> (if MaxSpansPerTrace c < 1 then 100 else MaxSpansPerTrace c)} \<and>
    (\<Union>(traceID, b) \<in> set (traces s). {e \<in> set (buffered b). TraceID (Event e) \<noteq> traceID}) = {}"
proof -
  have "sampler_ok s \<and> config s = config (New c)"
    using assms
  proof (induction rule: rtranclp_induct)
    case (step s s')
    then show ?case using sampler_step_ok sampler_step_config by metis
  qed (simp add: sampler_ok_New)
  moreover have "MaxTraces (config (New c)) = (if MaxTraces c < 1 then 1000 else MaxTraces c)"
    "MaxSpansPerTrace (config (New c)) = (if MaxSpansPerTrace c < 1 then 100 else MaxSpansPerTrace c)"
    by (simp_all add: New_def Let_def)
  ultimately show ?thesis
    by (fastforce simp: sampler_ok_def list_all_iff bounded_buffer_def)
qed

lemma sampler_bounded_witness:
  "int (length (traces (snd (Observe (\<lambda>_. None) (span_with []) 5 (New ten_percent))))) \<le> 1000"
proof -
  have "(sampler_step (\<lambda>_. None))\<^sup>*\<^sup>* (New ten_percent) (snd (Observe (\<lambda>_. None) (span_with []) 5 (New ten_percent)))"
    by (intro r_into_rtranclp sampler_step.Observed) (rule prod.collapse [symmetric])
  from sampler_bounded [OF this] show ?thesis by (simp add: ten_percent_def)
qed

subsection \<open>Streaming and batch decisions\<close>

text \<open>
  A stream of spans, each with the time at which it is observed: the decisions it causes, in order, and the sampler
  afterwards. \<open>spans_of\<close> is what belongs to one trace.
\<close>

fun observe_all :: "millis_reader \<Rightarrow> (envelope \<times> int) list \<Rightarrow> Sampler \<Rightarrow> Decision list \<times> Sampler" where
  "observe_all millis [] s = ([], s)"
| "observe_all millis ((e, now) # rest) s =
     (let (d, s) = Observe millis e now s; (ds, s) = observe_all millis rest s
      in (case d of None \<Rightarrow> ds | Some d \<Rightarrow> d # ds, s))"

definition spans_of :: "string \<Rightarrow> (envelope \<times> int) list \<Rightarrow> envelope list" where
  "spans_of traceID stream = filter (\<lambda>e. TraceID (Event e) = traceID) (map fst stream)"

lemma spans_of_simps [simp]:
  "spans_of traceID [] = []"
  "spans_of traceID ((e, now) # stream) =
     (if TraceID (Event e) = traceID then e # spans_of traceID stream else spans_of traceID stream)"
  by (simp_all add: spans_of_def)

lemma New_decide:
  "HealthySampleModulo (config (New c)) = HealthySampleModulo (decide_defaults c)"
  "SlowThreshold (config (New c)) = SlowThreshold (decide_defaults c)"
  "1 \<le> MaxTraces (config (New c))" "traces (New c) = []"
  by (simp_all add: New_def decide_defaults_def Let_def)

text \<open>
  The sampler after a prefix of a stream with the trace ids \<open>ids\<close>, as far as one trace is concerned: its buffer holds
  all its spans, unless one of them was decisive.
\<close>

definition follows :: "millis_reader \<Rightarrow> Config \<Rightarrow> string set \<Rightarrow> string \<Rightarrow> envelope list \<Rightarrow> Sampler \<Rightarrow> bool" where
  "follows millis c ids traceID seen s =
     (config s = config (New c) \<and> go_map (traces s) \<and> fst ` set (traces s) \<subseteq> ids \<and>
      (case map_of (traces s) traceID of
         None \<Rightarrow> seen = [] \<or> list_ex (notable millis c) seen
       | Some b \<Rightarrow> length (buffered b) \<le> length seen \<and> (list_ex (notable millis c) seen \<or> buffered b = seen)))"

lemma no_pressure:
  assumes "go_map (traces s)" and "insert traceID (fst ` set (traces s)) \<subseteq> ids" and "finite ids"
    and "int (card ids) \<le> MaxTraces (config s)"
  shows "open_trace traceID now s = (None, case map_of (traces s) traceID of Some b \<Rightarrow> b | None \<Rightarrow> \<lparr>opened = now, buffered = []\<rparr>,
    case map_of (traces s) traceID of Some b \<Rightarrow> s
    | None \<Rightarrow> s\<lparr>traces := AList.update traceID \<lparr>opened = now, buffered = []\<rparr> (traces s)\<rparr>)"
proof (cases "map_of (traces s) traceID")
  case None
  then have "traceID \<notin> fst ` set (traces s)" by (simp add: map_of_eq_None_iff)
  then have "card (fst ` set (traces s)) < card ids"
    using assms(2,3) by (metis card_insert_disjoint card_mono finite_imageI finite_set less_eq_Suc_le)
  moreover have "card (fst ` set (traces s)) = length (traces s)"
    using assms(1) by (metis distinct_card go_map_def keys_of_def length_map set_map)
  ultimately show ?thesis using None assms(4) by (simp add: open_trace_def Let_def)
qed (simp add: open_trace_def)

text \<open>One span: of another trace, or of this one and decisive, or of this one and buffered.\<close>

lemma Observe_follows:
  assumes inv: "follows millis c ids traceID seen s" and ids: "finite ids" "int (card ids) \<le> MaxTraces (config (New c))"
    and e: "TraceID (Event e) \<in> ids"
    and run: "Observe millis e now s = (d, s')"
  shows "TraceID (Event e) \<noteq> traceID \<Longrightarrow> follows millis c ids traceID seen s' \<and> (\<forall>x. d = Some x \<longrightarrow> DecisionTraceID x \<noteq> traceID)"
    and "TraceID (Event e) = traceID \<Longrightarrow> int (length seen) < MaxSpansPerTrace (config (New c)) \<Longrightarrow>
      follows millis c ids traceID (seen @ [e]) s' \<and>
      (if notable millis c e then \<exists>x. d = Some x \<and> DecisionTraceID x = traceID \<and> Retained x \<and> \<not> Evicted x else d = None)"
proof -
  define i where "i = TraceID (Event e)"
  define b0 where "b0 = (case map_of (traces s) i of Some b \<Rightarrow> b | None \<Rightarrow> \<lparr>opened = now, buffered = []\<rparr>)"
  define s0 where "s0 = (case map_of (traces s) i of Some b \<Rightarrow> s
    | None \<Rightarrow> s\<lparr>traces := AList.update i \<lparr>opened = now, buffered = []\<rparr> (traces s)\<rparr>)"
  have s: "config s = config (New c)" "go_map (traces s)" "fst ` set (traces s) \<subseteq> ids"
    using inv by (simp_all add: follows_def)
  have opened: "open_trace i now s = (None, b0, s0)"
    unfolding b0_def s0_def by (rule no_pressure) (use s e ids in \<open>simp_all add: i_def\<close>)
  have s0: "config s0 = config (New c)" "go_map (traces s0)" "fst ` set (traces s0) \<subseteq> ids"
    "map_of (traces s0) traceID = map_of (traces s) traceID" if "i \<noteq> traceID \<or> map_of (traces s) i \<noteq> None"
    using s e that by (auto simp: s0_def i_def dom_update update_conv' split: option.split)
  have s0': "config s0 = config (New c)" "go_map (traces s0)" "fst ` set (traces s0) \<subseteq> ids"
    using s e by (auto simp: s0_def i_def dom_update split: option.split)
  have updated: "fst ` set (AList.update i v (traces s0)) \<subseteq> ids" for v
    using s0'(3) e by (simp add: dom_update i_def)
  note deleted = updated subset_trans [OF dom_delete_subset s0'(3)] subset_trans [OF dom_delete_subset updated]
  note observe = run [unfolded Observe_def i_def [symmetric], unfolded opened Let_def prod.case s0'(1)]
  show "follows millis c ids traceID seen s' \<and> (\<forall>x. d = Some x \<longrightarrow> DecisionTraceID x \<noteq> traceID)"
    if other: "TraceID (Event e) \<noteq> traceID"
  proof -
    have i: "i \<noteq> traceID" using other by (simp add: i_def)
    show ?thesis
      using observe i s0 [OF disjI1, OF i] deleted inv
      by (auto simp: follows_def update_conv' delete_conv' split: if_splits del: subsetI)
  qed
  assume same: "TraceID (Event e) = traceID" and small: "int (length seen) < MaxSpansPerTrace (config (New c))"
  have fits: "length (buffered b0) \<le> length seen" "list_ex (notable millis c) seen \<or> buffered b0 = seen"
    using inv same by (auto simp: follows_def b0_def i_def split: option.splits)
  then have room: "\<not> MaxSpansPerTrace (config (New c)) \<le> int (length (buffered b0))" using small by linarith
  show "follows millis c ids traceID (seen @ [e]) s' \<and>
      (if notable millis c e then \<exists>x. d = Some x \<and> DecisionTraceID x = traceID \<and> Retained x \<and> \<not> Evicted x else d = None)"
    using observe room s0' deleted fits same [folded i_def]
    by (auto simp: follows_def notable_def New_decide update_conv' delete_conv' split: if_splits del: subsetI)
qed

lemma observe_all_follows:
  assumes "follows millis c ids traceID seen s" and "finite ids" "int (card ids) \<le> MaxTraces (config (New c))"
    and "(\<lambda>(e, now). TraceID (Event e)) ` set stream \<subseteq> ids"
    and "int (length (seen @ spans_of traceID stream)) \<le> MaxSpansPerTrace (config (New c))"
    and "observe_all millis stream s = (ds, s')"
  shows "follows millis c ids traceID (seen @ spans_of traceID stream) s' \<and>
    (\<forall>d \<in> set ds. DecisionTraceID d = traceID \<longrightarrow> Retained d \<and> \<not> Evicted d) \<and>
    ((\<exists>d \<in> set ds. DecisionTraceID d = traceID) \<longleftrightarrow> list_ex (notable millis c) (spans_of traceID stream))"
  using assms(1,4-6)
proof (induction stream arbitrary: seen s ds)
  case Nil
  then show ?case by simp
next
  case (Cons entry stream)
  obtain e now where entry: "entry = (e, now)" by fastforce
  obtain d s1 where d: "Observe millis e now s = (d, s1)" by fastforce
  obtain ds1 where ds1: "observe_all millis stream s1 = (ds1, s')" "ds = (case d of None \<Rightarrow> ds1 | Some d \<Rightarrow> d # ds1)"
    using Cons.prems(4) by (auto simp: entry d split: prod.splits)
  have id: "TraceID (Event e) \<in> ids" using Cons.prems(2) by (simp add: entry)
  have rest: "(\<lambda>(e, now). TraceID (Event e)) ` set stream \<subseteq> ids" using Cons.prems(2) by simp
  show ?case
  proof (cases "TraceID (Event e) = traceID")
    case True
    have "int (length seen) < MaxSpansPerTrace (config (New c))" using Cons.prems(3) True by (simp add: entry)
    from Observe_follows(2) [OF Cons.prems(1) assms(2,3) id d True this]
    show ?thesis
      using Cons.IH [OF _ rest _ ds1(1), of "seen @ [e]"] Cons.prems(3) True
      by (auto simp: entry ds1(2) split: if_splits)
  next
    case False
    have "follows millis c ids traceID seen s1 \<and> (\<forall>x. d = Some x \<longrightarrow> DecisionTraceID x \<noteq> traceID)"
      by (rule Observe_follows(1) [OF Cons.prems(1) assms(2,3) id d False])
    then show ?thesis
      using Cons.IH [OF _ rest _ ds1(1), of seen] Cons.prems(3) False
      by (auto simp: entry ds1(2) split: option.splits)
  qed
qed

text \<open>
  C27. The two samplers agree. Let spans of any traces arrive at a new in-memory sampler in any order and at any times,
  of no more traces than it may buffer. Then a trace with no more spans than it may buffer is never evicted, and it is
  kept exactly when the batch decision of the durable tail worker on the same spans keeps it: if a span failed or
  was slow, it is retained while the spans arrive; if none, nothing is decided before its completion, which gives the very
  decision of the worker, spans and reason included, and panics exactly when that one does.
\<close>

theorem stream_agrees_with_decide:
  assumes "observe_all millis stream (New c) = (ds, s)" and "spans_of traceID stream \<noteq> []"
    and "int (card ((\<lambda>(e, now). TraceID (Event e)) ` set stream)) \<le> MaxTraces (config (New c))"
    and "int (length (spans_of traceID stream)) \<le> MaxSpansPerTrace (config (New c))"
  shows "(\<forall>d \<in> set ds. DecisionTraceID d = traceID \<longrightarrow> Retained d \<and> \<not> Evicted d) \<and>
    (if \<exists>d \<in> set ds. DecisionTraceID d = traceID
     then map_option Retained (Decide millis traceID (spans_of traceID stream) c) = Some True
     else map_option fst (Complete traceID s) = map_option Some (Decide millis traceID (spans_of traceID stream) c))"
proof -
  let ?spans = "spans_of traceID stream"
  let ?ids = "(\<lambda>(e, now). TraceID (Event e)) ` set stream"
  have "follows millis c ?ids traceID [] (New c)" by (simp add: follows_def New_decide)
  from observe_all_follows [OF this _ assms(3) _ _ assms(1)] assms(4)
  have inv: "follows millis c ?ids traceID ?spans s"
    and ds: "\<forall>d \<in> set ds. DecisionTraceID d = traceID \<longrightarrow> Retained d \<and> \<not> Evicted d"
    "(\<exists>d \<in> set ds. DecisionTraceID d = traceID) \<longleftrightarrow> list_ex (notable millis c) ?spans" by auto
  show ?thesis
  proof (cases "list_ex (notable millis c) ?spans")
    case True
    then have "map_option Retained (Decide millis traceID ?spans c) = Some True"
      by (auto simp: Decide_def Let_def list_ex_iff notable_def)
    then show ?thesis using ds True by simp
  next
    case False
    then obtain b where "map_of (traces s) traceID = Some b" "buffered b = ?spans"
      using inv assms(2) by (auto simp: follows_def split: option.splits)
    moreover have "config s = config (New c)" using inv by (simp add: follows_def)
    ultimately have "map_option fst (Complete traceID s) = map_option Some (Decide millis traceID ?spans c)"
      using False by (auto simp: Complete_def Decide_def Let_def New_decide list_ex_iff notable_def split: option.split bool.split)
    then show ?thesis using ds False by simp
  qed
qed

lemma stream_agrees_with_decide_witness:
  "map_option fst (Complete ''t'' (snd (observe_all (\<lambda>_. None)
      [(span_with [], 1), ((span_with [])\<lparr>Event := (Event (span_with []))\<lparr>TraceID := ''u''\<rparr>\<rparr>, 2), (span_with [], 3)] (New ten_percent))))
   = map_option Some (Decide (\<lambda>_. None) ''t'' [span_with [], span_with []] ten_percent)"
proof -
  let ?stream = "[(span_with [], 1), ((span_with [])\<lparr>Event := (Event (span_with []))\<lparr>TraceID := ''u''\<rparr>\<rparr>, 2), (span_with [], 3)]"
  have spans: "spans_of ''t'' ?stream = [span_with [], span_with []]" by code_simp
  have ds: "fst (observe_all (\<lambda>_. None) ?stream (New ten_percent)) = []" by code_simp
  have card: "int (card ((\<lambda>(e, now). TraceID (Event e)) ` set ?stream)) \<le> MaxTraces (config (New ten_percent))"
    by (simp add: span_with_def New_def ten_percent_def card_insert_if)
  show ?thesis
    using stream_agrees_with_decide [OF prod.collapse [symmetric] _ card, where millis = "\<lambda>_. None" and traceID = "''t''"] spans ds
    by (simp add: New_def ten_percent_def)
qed

text \<open>
  An eviction can go unreported: when a new trace takes the place of the oldest one and its first
  span already decides it, \<^const>\<open>Observe\<close> returns that decision only. The evicted trace is gone
  from the buffers and no decision says so.
\<close>

theorem observe_loses_eviction:
  "let s = (New (ten_percent\<lparr>MaxTraces := 1\<rparr>))\<lparr>traces := [(''old'', \<lparr>opened = 1, buffered = [span_with []]\<rparr>)]\<rparr>;
       (d, s') = Observe (\<lambda>_. None) (span_with [(''http.status_code'', ''503'')]) 2 s
   in d = Some (retained ''t'' ''retained_error'' [span_with [(''http.status_code'', ''503'')]]) \<and> traces s' = []"
  using error_span
  by (simp add: Let_def New_def ten_percent_def Observe_def open_trace_def evictOldest_def)
     (simp add: span_with_def)
end
