(* ===== verification/TailStore.thy ===== *)
theory TailStore
  imports Postgres Sampling
begin

text \<open>
  \<^verbatim>\<open>internal/metadata/tail.go\<close>: the durable tail buffer. Times are microseconds, the resolution of
  \<^verbatim>\<open>timestamptz\<close>. \<open>hashtext\<close> is PostgreSQL's hash function, and \<open>visit\<close> the order in which Go's
  \<^verbatim>\<open>range\<close> visits the traces of a batch: a permutation of the groups it is given.
\<close>

definition defaultTailMaxTraces :: nat where "defaultTailMaxTraces = 1000"
definition defaultTailMaxSpans :: nat where "defaultTailMaxSpans = 200"
definition tailLockShards :: int where "tailLockShards = 10"

lemmas tail_limits = defaultTailMaxTraces_def defaultTailMaxSpans_def tailLockShards_def

record TailTraceLease =
  LeaseTenant :: string
  LeaseTrace :: string
  Generation :: int

record TailDecision =
  TDTraceID :: string
  TDReason :: string
  TDRetained :: bool
  TDSpanCount :: nat
  TDCreatedAt :: int

record TailOutboxMessage =
  MsgKey :: string
  MsgEnvelope :: envelope

subsection \<open>Rows\<close>

definition is_trace :: "string \<Rightarrow> string \<Rightarrow> trace_row \<Rightarrow> bool" where
  "is_trace tenantID traceID r = (tr_tenant r = tenantID \<and> tr_trace r = traceID)"

definition undecided :: "trace_row \<Rightarrow> bool" where
  "undecided r = (tr_decided_at r = None)"

definition in_trace :: "string \<Rightarrow> string \<Rightarrow> buffer_row \<Rightarrow> bool" where
  "in_trace tenantID traceID b = (bf_tenant b = tenantID \<and> bf_trace b = traceID)"

definition shard :: "(string \<Rightarrow> int) \<Rightarrow> string \<Rightarrow> int" where
  "shard hashtext traceID = \<bar>hashtext traceID\<bar> mod tailLockShards"

definition active_in_shard :: "(string \<Rightarrow> int) \<Rightarrow> string \<Rightarrow> string \<Rightarrow> trace_row \<Rightarrow> bool" where
  "active_in_shard hashtext tenantID shardTraceID r =
     (tr_tenant r = tenantID \<and> undecided r \<and> shard hashtext (tr_trace r) = shard hashtext shardTraceID)"

definition decision_reasons :: "string list" where
  "decision_reasons = [''retained_error'', ''retained_slow'', ''retained_healthy_sample'',
     ''dropped_healthy_sample'', ''evicted_pressure'', ''evicted_span_limit'']"

subsection \<open>Statements\<close>

definition insert_trace :: "string \<Rightarrow> string \<Rightarrow> unit sql" where
  "insert_trace tenantID traceID = (\<lambda>_ now d.
     if tenantID \<notin> set (tenants d) then Inl (Constraint ''tail_traces_tenant_id_fkey'')
     else if list_ex (is_trace tenantID traceID) (tail_traces d) then Inl (Constraint ''tail_traces_pkey'')
     else Inr ((), d\<lparr>tail_traces := tail_traces d @
       [\<lparr>tr_tenant = tenantID, tr_trace = traceID, tr_first_seen = now, tr_last_seen = now,
         tr_generation = 1, tr_span_count = 0, tr_lease_owner = None, tr_lease_expires = None,
         tr_decision = None, tr_decided_at = None\<rparr>]\<rparr>))"

text \<open>\<^verbatim>\<open>on conflict (event_key) do nothing returning event_key\<close>, row by row.\<close>

fun add_event_keys ::
  "string \<Rightarrow> string \<Rightarrow> int \<Rightarrow> string list \<Rightarrow> event_key_row list \<Rightarrow> string list \<times> event_key_row list" where
  "add_event_keys tenantID traceID now [] rows = ([], rows)"
| "add_event_keys tenantID traceID now (key # keys) rows =
     (if list_ex (\<lambda>r. ek_key r = key) rows then add_event_keys tenantID traceID now keys rows
      else let (inserted, rows) = add_event_keys tenantID traceID now keys
             (rows @ [\<lparr>ek_key = key, ek_tenant = tenantID, ek_trace = traceID, ek_created_at = now\<rparr>])
           in (key # inserted, rows))"

definition insert_event_keys :: "string \<Rightarrow> string \<Rightarrow> string list \<Rightarrow> string list sql" where
  "insert_event_keys tenantID traceID keys = (\<lambda>_ now d.
     let (inserted, rows) = add_event_keys tenantID traceID now keys (tail_event_keys d)
     in if inserted \<noteq> [] \<and> tenantID \<notin> set (tenants d) then Inl (Constraint ''tail_event_keys_tenant_id_fkey'')
        else Inr (inserted, d\<lparr>tail_event_keys := rows\<rparr>))"

definition insert_buffers :: "string \<Rightarrow> string \<Rightarrow> envelope list \<Rightarrow> nat sql" where
  "insert_buffers tenantID traceID batch = (\<lambda>_ now d.
     if \<not> distinct (map EventKey batch) \<or> list_ex (\<lambda>b. bf_key b \<in> set (map EventKey batch)) (tail_buffers d)
     then Inl (Constraint ''tail_buffers_pkey'')
     else if batch \<noteq> [] \<and> \<not> list_ex (is_trace tenantID traceID) (tail_traces d)
     then Inl (Constraint ''tail_buffers_tenant_id_trace_id_fkey'')
     else Inr (length batch, d\<lparr>tail_buffers := tail_buffers d @
       map (\<lambda>e. \<lparr>bf_key = EventKey e, bf_tenant = tenantID, bf_trace = traceID, bf_envelope = e,
                 bf_received_at = now\<rparr>) batch\<rparr>))"

definition touch_trace :: "string \<Rightarrow> string \<Rightarrow> nat \<Rightarrow> unit sql" where
  "touch_trace tenantID traceID added = (\<lambda>_ now d.
     Inr ((), d\<lparr>tail_traces := update_where (\<lambda>r. is_trace tenantID traceID r \<and> undecided r)
       (\<lambda>r. r\<lparr>tr_last_seen := now, tr_generation := tr_generation r + 1,
              tr_span_count := tr_span_count r + added\<rparr>) (tail_traces d)\<rparr>))"

definition delete_buffers :: "string \<Rightarrow> string \<Rightarrow> unit sql" where
  "delete_buffers tenantID traceID = (\<lambda>_ now d.
     Inr ((), d\<lparr>tail_buffers := delete_where (in_trace tenantID traceID) (tail_buffers d)\<rparr>))"

text \<open>Closing a trace; \<open>p\<close> is what the \<^verbatim>\<open>where\<close> clause adds to the primary key.\<close>

definition close_trace :: "(trace_row \<Rightarrow> bool) \<Rightarrow> string \<Rightarrow> string \<Rightarrow> string \<Rightarrow> nat \<Rightarrow> unit sql" where
  "close_trace p tenantID traceID reason spans = (\<lambda>_ now d.
     if reason \<notin> set decision_reasons \<and> list_ex (\<lambda>r. is_trace tenantID traceID r \<and> p r) (tail_traces d)
     then Inl (Constraint ''tail_traces_decision_check'')
     else Inr ((), d\<lparr>tail_traces := update_where (\<lambda>r. is_trace tenantID traceID r \<and> p r)
       (\<lambda>r. r\<lparr>tr_decision := Some reason, tr_decided_at := Some now, tr_lease_owner := None,
              tr_lease_expires := None, tr_span_count := spans\<rparr>) (tail_traces d)\<rparr>))"

definition insert_decision :: "bool \<Rightarrow> string \<Rightarrow> string \<Rightarrow> string \<Rightarrow> bool \<Rightarrow> nat \<Rightarrow> unit sql" where
  "insert_decision on_conflict_do_nothing tenantID traceID reason kept spans = (\<lambda>_ now d.
     if tenantID \<notin> set (tenants d) then Inl (Constraint ''tail_decisions_tenant_id_fkey'')
     else if reason \<notin> set decision_reasons then Inl (Constraint ''tail_decisions_reason_check'')
     else if list_ex (\<lambda>r. dc_tenant r = tenantID \<and> dc_trace r = traceID) (tail_decisions d)
     then (if on_conflict_do_nothing then Inr ((), d) else Inl (Constraint ''tail_decisions_tenant_id_trace_id_key''))
     else Inr ((), d\<lparr>tail_decisions := tail_decisions d @
       [\<lparr>dc_tenant = tenantID, dc_trace = traceID, dc_reason = reason, dc_retained = kept,
         dc_span_count = spans, dc_created_at = now\<rparr>]\<rparr>))"

definition insert_outbox :: "string \<Rightarrow> string \<Rightarrow> envelope \<Rightarrow> unit sql" where
  "insert_outbox tenantID key envelope = (\<lambda>_ now d.
     if tenantID \<notin> set (tenants d) then Inl (Constraint ''tail_outbox_tenant_id_fkey'')
     else if list_ex (\<lambda>m. ob_key m = key) (tail_outbox d) then Inr ((), d)
     else Inr ((), d\<lparr>tail_outbox := tail_outbox d @
       [\<lparr>ob_key = key, ob_tenant = tenantID, ob_envelope = envelope, ob_attempts = 0,
         ob_lease_owner = None, ob_lease_expires = None, ob_published_at = None, ob_created_at = now\<rparr>]\<rparr>))"

subsection \<open>Staging\<close>

definition tailTraceID :: "envelope \<Rightarrow> string" where
  "tailTraceID envelope =
     (if TraceID (Event envelope) \<noteq> [] then TraceID (Event envelope)
      else ''unlinked-log:'' @ EventID (Event envelope))"

definition evictTailTrace :: "int \<Rightarrow> string \<Rightarrow> string \<Rightarrow> string \<Rightarrow> (pg, go_error, unit) program" where
  "evictTailTrace now tenantID traceID reason =
     and_then (tx_stmt now (select (\<lambda>d. count_where (in_trace tenantID traceID) (tail_buffers d)))) (\<lambda>spans.
     and_then (tx_stmt now (delete_buffers tenantID traceID)) (\<lambda>_.
     and_then (tx_stmt now (close_trace undecided tenantID traceID reason spans)) (\<lambda>_.
     tx_stmt now (insert_decision True tenantID traceID reason False spans))))"

definition oldest_unlocked :: "(string \<Rightarrow> int) \<Rightarrow> string \<Rightarrow> string \<Rightarrow> string option sql" where
  "oldest_unlocked hashtext tenantID shardTraceID = (\<lambda>locked _ d.
     Inr (case filter (\<lambda>r. \<not> locked ''tail_traces'' [tr_tenant r, tr_trace r])
                (ordered_by tr_first_seen
                   (filter (active_in_shard hashtext tenantID shardTraceID) (tail_traces d))) of
            [] \<Rightarrow> None | r # _ \<Rightarrow> Some (tr_trace r), d))"

definition evictOldestTailTrace ::
  "(string \<Rightarrow> int) \<Rightarrow> int \<Rightarrow> string \<Rightarrow> string \<Rightarrow> string \<Rightarrow> (pg, go_error, unit) program" where
  "evictOldestTailTrace hashtext now tenantID shardTraceID reason =
     and_then (tx_stmt now (oldest_unlocked hashtext tenantID shardTraceID)) (\<lambda>found.
       case found of
         None \<Rightarrow> fail_with ErrTailBufferFull
       | Some traceID \<Rightarrow> evictTailTrace now tenantID traceID reason)"

text \<open>The part of \<^verbatim>\<open>stageTraceTx\<close> for a trace that is open.\<close>

definition buffer_events ::
  "int \<Rightarrow> string \<Rightarrow> string \<Rightarrow> nat \<Rightarrow> envelope list \<Rightarrow> (pg, go_error, unit) program" where
  "buffer_events now tenantID traceID spanCount envelopes =
     and_then (tx_stmt now (insert_event_keys tenantID traceID (map EventKey envelopes))) (\<lambda>insertedKeys.
       if length insertedKeys = 0 then ret ()
       else if spanCount + length insertedKeys > defaultTailMaxSpans then fail_with ErrTailTraceClosed
       else let batch = filter (\<lambda>e. EventKey e \<in> set insertedKeys) envelopes
            in and_then (tx_stmt now (insert_buffers tenantID traceID batch)) (\<lambda>inserted.
                 if inserted \<noteq> length batch
                 then fail_with (Errorf ''tail buffer insert did not create every deduplicated event'')
                 else tx_stmt now (touch_trace tenantID traceID (length batch))))"

definition unique_keys :: "envelope list \<Rightarrow> string list" where
  "unique_keys envelopes =
     fold (\<lambda>e keys. if EventKey e \<in> set keys then keys else keys @ [EventKey e]) envelopes []"

text \<open>The part for a trace that is decided: only a retry is accepted.\<close>

definition recheck_events ::
  "int \<Rightarrow> string \<Rightarrow> string \<Rightarrow> envelope list \<Rightarrow> (pg, go_error, unit) program" where
  "recheck_events now tenantID traceID envelopes =
     (let eventKeys = unique_keys envelopes
      in and_then (tx_stmt now (select (\<lambda>d. count_where
             (\<lambda>k. ek_tenant k = tenantID \<and> ek_trace k = traceID \<and> ek_key k \<in> set eventKeys)
             (tail_event_keys d)))) (\<lambda>known.
           if known = length eventKeys then ret () else fail_with ErrTailTraceClosed))"

definition stageTraceTx ::
  "(string \<Rightarrow> int) \<Rightarrow> int \<Rightarrow> string \<Rightarrow> string \<Rightarrow> envelope list \<Rightarrow> (pg, go_error, unit) program" where
  "stageTraceTx hashtext now tenantID traceID envelopes =
     and_then (tx_stmt now (select (\<lambda>_. ()))) (\<lambda>_.
     and_then (tx_stmt now (select (\<lambda>d. find (is_trace tenantID traceID) (tail_traces d)))) (\<lambda>row.
       case row of
         None \<Rightarrow>
           and_then (tx_stmt now (select (\<lambda>d. count_where (active_in_shard hashtext tenantID traceID) (tail_traces d))))
             (\<lambda>activeTraces.
           and_then (if int activeTraces \<ge> int defaultTailMaxTraces div tailLockShards
                     then evictOldestTailTrace hashtext now tenantID traceID ''evicted_pressure'' else ret ()) (\<lambda>_.
           and_then (tx_stmt now (insert_trace tenantID traceID)) (\<lambda>_.
           buffer_events now tenantID traceID 0 envelopes)))
       | Some r \<Rightarrow>
           if tr_decided_at r \<noteq> None then recheck_events now tenantID traceID envelopes
           else buffer_events now tenantID traceID (tr_span_count r) envelopes))"

definition by_trace :: "envelope list \<Rightarrow> (string \<times> envelope list) list" where
  "by_trace envelopes =
     fold (\<lambda>e groups. AList.update (tailTraceID e) (get_or [] groups (tailTraceID e) @ [e]) groups) envelopes []"

type_synonym visit = "(string \<times> envelope list) list \<Rightarrow> (string \<times> envelope list) list"

definition stage_tx ::
  "(string \<Rightarrow> int) \<Rightarrow> string \<Rightarrow> (string \<times> envelope list) list \<Rightarrow> int \<Rightarrow> (pg, go_error, unit) program" where
  "stage_tx hashtext tenantID groups now =
     each (\<lambda>(traceID, traceEnvelopes). stageTraceTx hashtext now tenantID traceID traceEnvelopes) groups"

definition StageBatch_pg ::
  "(string \<Rightarrow> int) \<Rightarrow> visit \<Rightarrow> envelope list \<Rightarrow> (pg, go_error, unit) program" where
  "StageBatch_pg hashtext visit envelopes =
     (if envelopes = [] then ret ()
      else let tenantID = TenantID (hd envelopes)
           in if tenantID = [] then fail_with (Errorf ''tail staging tenant missing'')
              else if list_ex (\<lambda>e. TenantID e \<noteq> tenantID) envelopes
              then fail_with (Errorf ''tail staging batch crosses tenants'')
              else in_tx (stage_tx hashtext tenantID (visit (by_trace envelopes))))"

definition Stage_pg :: "(string \<Rightarrow> int) \<Rightarrow> visit \<Rightarrow> envelope \<Rightarrow> (pg, go_error, unit) program" where
  "Stage_pg hashtext visit envelope = StageBatch_pg hashtext visit [envelope]"

subsection \<open>Deciding\<close>

text \<open>\<^verbatim>\<open>Duration.Microseconds\<close> truncates toward zero.\<close>

definition microseconds :: "int \<Rightarrow> int" where
  "microseconds d = (if d < 0 then - ((- d) div 1000) else d div 1000)"

definition expired :: "int option \<Rightarrow> int \<Rightarrow> bool" where
  "expired lease now = (case lease of None \<Rightarrow> True | Some t \<Rightarrow> t < now)"

definition ready :: "int \<Rightarrow> int \<Rightarrow> trace_row \<Rightarrow> bool" where
  "ready quiet now r =
     (undecided r \<and> tr_last_seen r \<le> now - microseconds quiet \<and> expired (tr_lease_expires r) now)"

definition lease_of :: "trace_row \<Rightarrow> TailTraceLease" where
  "lease_of r = \<lparr>LeaseTenant = tr_tenant r, LeaseTrace = tr_trace r, Generation = tr_generation r\<rparr>"

definition claim_traces :: "string \<Rightarrow> int \<Rightarrow> int \<Rightarrow> nat \<Rightarrow> TailTraceLease list sql" where
  "claim_traces owner quiet ttl limit = (\<lambda>locked now d.
     let selected = map (\<lambda>r. (tr_tenant r, tr_trace r))
           (take limit (filter (\<lambda>r. \<not> locked ''tail_traces'' [tr_tenant r, tr_trace r])
             (ordered_by tr_last_seen (filter (ready quiet now) (tail_traces d)))));
         chosen = (\<lambda>r. (tr_tenant r, tr_trace r) \<in> set selected)
     in Inr (map lease_of (filter chosen (tail_traces d)),
             d\<lparr>tail_traces := update_where chosen
               (\<lambda>r. r\<lparr>tr_lease_owner := Some owner, tr_lease_expires := Some (now + microseconds ttl)\<rparr>)
               (tail_traces d)\<rparr>))"

definition ClaimTailTraces ::
  "string \<Rightarrow> int \<Rightarrow> int \<Rightarrow> int \<Rightarrow> (pg, go_error, TailTraceLease list) program" where
  "ClaimTailTraces owner quiet ttl limit =
     (let limit = (if limit < 1 then 1 else limit)
      in autocommit (claim_traces owner quiet ttl (nat limit)))"

definition buffered_rows :: "string \<Rightarrow> string \<Rightarrow> db \<Rightarrow> buffer_row list" where
  "buffered_rows tenantID traceID d =
     ordered_by bf_received_at (filter (in_trace tenantID traceID) (tail_buffers d))"

definition LoadTailTrace :: "TailTraceLease \<Rightarrow> (pg, go_error, envelope list) program" where
  "LoadTailTrace lease =
     autocommit (select (\<lambda>d. map bf_envelope (buffered_rows (LeaseTenant lease) (LeaseTrace lease) d)))"

text \<open>
  A query that fails here makes the source commit a transaction the server has aborted; the
  commit then reports an error and nothing has changed, as after the rollback.
\<close>

text \<open>The end of the transaction: the trace is closed with the decision.\<close>

definition settle_tx ::
  "string \<Rightarrow> TailTraceLease \<Rightarrow> Decision \<Rightarrow> nat \<Rightarrow> int \<Rightarrow> (pg, go_error, bool) program" where
  "settle_tx owner lease decision spanCount now =
     (let tenantID = LeaseTenant lease; traceID = LeaseTrace lease
      in and_then (tx_stmt now (delete_buffers tenantID traceID)) (\<lambda>_.
         and_then (tx_stmt now (close_trace (\<lambda>r. tr_lease_owner r = Some owner) tenantID traceID
                     (Reason decision) spanCount)) (\<lambda>_.
         and_then (tx_stmt now (insert_decision False tenantID traceID (Reason decision)
                     (Retained decision) spanCount)) (\<lambda>_.
         ret True))))"

definition decide_tx ::
  "string \<Rightarrow> TailTraceLease \<Rightarrow> Decision \<Rightarrow> int \<Rightarrow> (pg, go_error, bool) program" where
  "decide_tx owner lease decision now =
     (let tenantID = LeaseTenant lease; traceID = LeaseTrace lease
      in and_then (tx_stmt now (select (\<lambda>d. find (\<lambda>r. is_trace tenantID traceID r \<and> tr_lease_owner r = Some owner)
                    (tail_traces d)))) (\<lambda>row.
          if (case row of None \<Rightarrow> True
              | Some r \<Rightarrow> tr_decided_at r \<noteq> None \<or> tr_generation r \<noteq> Generation lease)
          then ret False
          else
            and_then (tx_stmt now (select (\<lambda>d. count_where (in_trace tenantID traceID) (tail_buffers d)))) (\<lambda>spanCount.
            and_then (if Retained decision
                      then and_then (tx_stmt now (select (buffered_rows tenantID traceID)))
                             (each (\<lambda>item. tx_stmt now (insert_outbox tenantID (bf_key item) (bf_envelope item))))
                      else ret ()) (\<lambda>_.
            settle_tx owner lease decision spanCount now))))"

definition RecordTailDecision ::
  "string \<Rightarrow> TailTraceLease \<Rightarrow> Decision \<Rightarrow> (pg, go_error, bool) program" where
  "RecordTailDecision owner lease decision = in_tx (decide_tx owner lease decision)"

subsection \<open>The outbox\<close>

definition claim_outbox :: "string \<Rightarrow> int \<Rightarrow> nat \<Rightarrow> TailOutboxMessage list sql" where
  "claim_outbox owner ttl limit = (\<lambda>locked now d.
     let selected = map ob_key
           (take limit (filter (\<lambda>m. \<not> locked ''tail_outbox'' [ob_key m])
             (ordered_by ob_created_at
               (filter (\<lambda>m. ob_published_at m = None \<and> expired (ob_lease_expires m) now) (tail_outbox d)))));
         chosen = (\<lambda>m. ob_key m \<in> set selected)
     in Inr (map (\<lambda>m. \<lparr>MsgKey = ob_key m, MsgEnvelope = ob_envelope m\<rparr>) (filter chosen (tail_outbox d)),
             d\<lparr>tail_outbox := update_where chosen
               (\<lambda>m. m\<lparr>ob_lease_owner := Some owner, ob_lease_expires := Some (now + microseconds ttl),
                      ob_attempts := ob_attempts m + 1\<rparr>) (tail_outbox d)\<rparr>))"

definition ClaimTailOutbox :: "string \<Rightarrow> int \<Rightarrow> int \<Rightarrow> (pg, go_error, TailOutboxMessage list) program" where
  "ClaimTailOutbox owner ttl limit =
     (let limit = (if limit < 1 then 1 else limit)
      in autocommit (claim_outbox owner ttl (nat limit)))"

definition mark_published :: "string \<Rightarrow> string \<Rightarrow> nat sql" where
  "mark_published owner eventKey = (\<lambda>_ now d.
     let chosen = (\<lambda>m. ob_key m = eventKey \<and> ob_lease_owner m = Some owner \<and> ob_published_at m = None)
     in Inr (count_where chosen (tail_outbox d),
             d\<lparr>tail_outbox := update_where chosen
               (\<lambda>m. m\<lparr>ob_published_at := Some now, ob_lease_owner := None, ob_lease_expires := None\<rparr>)
               (tail_outbox d)\<rparr>))"

definition MarkTailOutboxPublished :: "string \<Rightarrow> string \<Rightarrow> (pg, go_error, unit) program" where
  "MarkTailOutboxPublished owner eventKey =
     and_then (autocommit (mark_published owner eventKey)) (\<lambda>changed.
       if changed \<noteq> 1 then fail_with (Errorf ''tail outbox lease lost'') else ret ())"

definition TailDecisions :: "string \<Rightarrow> int \<Rightarrow> (pg, go_error, TailDecision list) program" where
  "TailDecisions tenantID limit =
     (let limit = (if limit < 1 \<or> limit > 100 then 100 else limit)
      in autocommit (select (\<lambda>d.
           map (\<lambda>r. \<lparr>TDTraceID = dc_trace r, TDReason = dc_reason r, TDRetained = dc_retained r,
                     TDSpanCount = dc_span_count r, TDCreatedAt = dc_created_at r\<rparr>)
             (take (nat limit) (rev (filter (\<lambda>r. dc_tenant r = tenantID) (tail_decisions d)))))))"

subsection \<open>Retention and deletion\<close>

text \<open>Deleting a trace deletes its buffers: the foreign key cascades.\<close>

definition delete_traces :: "(trace_row \<Rightarrow> bool) \<Rightarrow> unit sql" where
  "delete_traces p = (\<lambda>_ now d.
     Inr ((), d\<lparr>tail_traces := delete_where p (tail_traces d),
       tail_buffers := delete_where (\<lambda>b. list_ex (\<lambda>r. p r \<and> is_trace (bf_tenant b) (bf_trace b) r) (tail_traces d))
         (tail_buffers d)\<rparr>))"

definition delete_outbox :: "(outbox_row \<Rightarrow> bool) \<Rightarrow> unit sql" where
  "delete_outbox p = (\<lambda>_ now d. Inr ((), d\<lparr>tail_outbox := delete_where p (tail_outbox d)\<rparr>))"

definition delete_event_keys :: "(event_key_row \<Rightarrow> bool) \<Rightarrow> unit sql" where
  "delete_event_keys p = (\<lambda>_ now d. Inr ((), d\<lparr>tail_event_keys := delete_where p (tail_event_keys d)\<rparr>))"

definition delete_decisions :: "(decision_row \<Rightarrow> bool) \<Rightarrow> unit sql" where
  "delete_decisions p = (\<lambda>_ now d. Inr ((), d\<lparr>tail_decisions := delete_where p (tail_decisions d)\<rparr>))"

definition DeleteTailDataBefore :: "string \<Rightarrow> int \<Rightarrow> (pg, go_error, unit) program" where
  "DeleteTailDataBefore tenantID cutoff =
     in_tx (\<lambda>now. each (tx_stmt now)
       [delete_outbox (\<lambda>m. ob_tenant m = tenantID \<and> ob_published_at m \<noteq> None \<and> ob_created_at m < cutoff),
        delete_event_keys (\<lambda>k. ek_tenant k = tenantID \<and> ek_created_at k < cutoff),
        delete_decisions (\<lambda>r. dc_tenant r = tenantID \<and> dc_created_at r < cutoff),
        delete_traces (\<lambda>r. tr_tenant r = tenantID \<and>
          (case tr_decided_at r of None \<Rightarrow> False | Some t \<Rightarrow> t < cutoff))])"

definition DeleteTenantTailData :: "string \<Rightarrow> (pg, go_error, unit) program" where
  "DeleteTenantTailData tenantID =
     in_tx (\<lambda>now. each (tx_stmt now)
       [delete_outbox (\<lambda>m. ob_tenant m = tenantID),
        delete_event_keys (\<lambda>k. ek_tenant k = tenantID),
        delete_decisions (\<lambda>r. dc_tenant r = tenantID),
        delete_traces (\<lambda>r. tr_tenant r = tenantID)])"

end
