(* ===== verification/TailInvariants.thy ===== *)
theory TailInvariants
  imports TailStore
begin

text \<open>
  What stays true of the durable tail buffer under every operation of \<^verbatim>\<open>tail.go\<close>, with any faults:
  the bounds on traces and spans, the agreement of traces and decisions, and that no accepted event
  disappears without a decision.

  Each transaction is first reduced to what it does to the database when it succeeds; the
  invariant is then a matter of these few changes.
\<close>

subsection \<open>The invariant\<close>

definition trace_key :: "trace_row \<Rightarrow> string \<times> string" where
  "trace_key r = (tr_tenant r, tr_trace r)"

definition decision_key :: "decision_row \<Rightarrow> string \<times> string" where
  "decision_key c = (dc_tenant c, dc_trace c)"

definition unique_rows :: "db \<Rightarrow> bool" where
  "unique_rows d =
     (distinct (map trace_key (tail_traces d)) \<and> distinct (map bf_key (tail_buffers d)) \<and>
      distinct (map ob_key (tail_outbox d)) \<and> distinct (map ek_key (tail_event_keys d)) \<and>
      distinct (map decision_key (tail_decisions d)))"

definition buffers_open :: "db \<Rightarrow> bool" where
  "buffers_open d =
     (\<forall>b \<in> set (tail_buffers d). \<exists>r \<in> set (tail_traces d). is_trace (bf_tenant b) (bf_trace b) r \<and> undecided r)"

definition spans_counted :: "db \<Rightarrow> bool" where
  "spans_counted d =
     (\<forall>r \<in> set (tail_traces d). undecided r \<longrightarrow>
        tr_span_count r = count_where (in_trace (tr_tenant r) (tr_trace r)) (tail_buffers d) \<and>
        tr_span_count r \<le> 200)"

definition shards_bounded :: "(string \<Rightarrow> int) \<Rightarrow> db \<Rightarrow> bool" where
  "shards_bounded hashtext d =
     (\<forall>tenant trace. count_where (active_in_shard hashtext tenant trace) (tail_traces d) \<le> 100)"

definition decided_recorded :: "db \<Rightarrow> bool" where
  "decided_recorded d =
     (\<forall>r \<in> set (tail_traces d). \<forall>t. tr_decided_at r = Some t \<longrightarrow>
        (\<exists>c \<in> set (tail_decisions d). decision_key c = trace_key r \<and> dc_created_at c = t \<and>
           tr_decision r = Some (dc_reason c) \<and> tr_span_count r = dc_span_count c))"

definition decisions_close :: "db \<Rightarrow> bool" where
  "decisions_close d =
     (\<forall>c \<in> set (tail_decisions d). \<exists>r \<in> set (tail_traces d).
        trace_key r = decision_key c \<and> tr_decided_at r = Some (dc_created_at c))"

definition events_kept :: "db \<Rightarrow> bool" where
  "events_kept d =
     (\<forall>k \<in> set (tail_event_keys d).
        (\<exists>b \<in> set (tail_buffers d). bf_key b = ek_key k \<and> in_trace (ek_tenant k) (ek_trace k) b) \<or>
        (\<exists>c \<in> set (tail_decisions d). decision_key c = (ek_tenant k, ek_trace k)))"

definition keys_dated :: "int \<Rightarrow> db \<Rightarrow> bool" where
  "keys_dated now d =
     (\<forall>k \<in> set (tail_event_keys d). ek_created_at k \<le> now \<and>
        (\<forall>c \<in> set (tail_decisions d). decision_key c = (ek_tenant k, ek_trace k) \<longrightarrow> ek_created_at k \<le> dc_created_at c))"

definition tail_ok :: "(string \<Rightarrow> int) \<Rightarrow> int \<Rightarrow> db \<Rightarrow> bool" where
  "tail_ok hashtext now d =
     (unique_rows d \<and> buffers_open d \<and> spans_counted d \<and> shards_bounded hashtext d \<and>
      decided_recorded d \<and> decisions_close d \<and> events_kept d \<and> keys_dated now d)"

lemmas tail_ok_parts = unique_rows_def buffers_open_def spans_counted_def shards_bounded_def
  decided_recorded_def decisions_close_def events_kept_def keys_dated_def

lemma tail_ok_later: "tail_ok hashtext now d \<Longrightarrow> now \<le> later \<Longrightarrow> tail_ok hashtext later d"
  by (auto simp: tail_ok_def keys_dated_def)

lemma is_trace_key: "is_trace t i r \<longleftrightarrow> trace_key r = (t, i)"
  by (auto simp: is_trace_def trace_key_def)

lemma same_trace:
  assumes "unique_rows d" and "r \<in> set (tail_traces d)" and "r' \<in> set (tail_traces d)"
    and "trace_key r = trace_key r'"
  shows "r = r'"
  using assms by (auto simp: unique_rows_def distinct_map inj_on_def)

lemma open_no_decision:
  assumes "tail_ok hashtext now d" and "r \<in> set (tail_traces d)" and "undecided r"
    and "c \<in> set (tail_decisions d)"
  shows "decision_key c \<noteq> trace_key r"
proof
  assume same: "decision_key c = trace_key r"
  obtain r' where "r' \<in> set (tail_traces d)" "trace_key r' = decision_key c" "tr_decided_at r' = Some (dc_created_at c)"
    using assms(1,4) by (auto simp: tail_ok_def decisions_close_def)
  moreover from this have "r' = r"
    using same_trace [of d r' r] assms(1,2) same by (auto simp: tail_ok_def)
  ultimately show False using assms(3) by (simp add: undecided_def)
qed

lemma tail_ok_empty:
  "tail_traces d = [] \<Longrightarrow> tail_buffers d = [] \<Longrightarrow> tail_outbox d = [] \<Longrightarrow> tail_event_keys d = []
     \<Longrightarrow> tail_decisions d = [] \<Longrightarrow> tail_ok hashtext now d"
  by (simp add: tail_ok_def tail_ok_parts count_where_def)

lemma tail_ok_cong:
  assumes "tail_traces d' = tail_traces d" and "tail_buffers d' = tail_buffers d"
    and "tail_outbox d' = tail_outbox d" and "tail_event_keys d' = tail_event_keys d"
    and "tail_decisions d' = tail_decisions d"
  shows "tail_ok hashtext now d' = tail_ok hashtext now d"
  using assms by (simp add: tail_ok_def tail_ok_parts)

subsection \<open>Rows changed in place\<close>

lemma count_where_update:
  "(\<And>r. q r \<Longrightarrow> p (f r) = p r) \<Longrightarrow> count_where p (update_where q f rows) = count_where p rows"
  by (induction rows) (auto simp: count_where_def update_where_def)

lemma count_where_update_le:
  "(\<And>r. q r \<Longrightarrow> p (f r) \<Longrightarrow> p r) \<Longrightarrow> count_where p (update_where q f rows) \<le> count_where p rows"
  by (induction rows) (auto simp: count_where_def update_where_def)

lemma count_where_update_less:
  assumes "\<And>r. q r \<Longrightarrow> \<not> p (f r)" and "r \<in> set rows" and "q r" and "p r"
  shows "count_where p (update_where q f rows) < count_where p rows"
  using assms(2)
proof (induction rows)
  case (Cons x rows)
  have "count_where p (update_where q f rows) \<le> count_where p rows"
    by (rule count_where_update_le) (use assms(1) in blast)
  with Cons assms show ?case by (auto simp: count_where_def update_where_def)
qed simp

text \<open>What the invariant reads of a trace row.\<close>

definition trace_view :: "trace_row \<Rightarrow> (string \<times> string) \<times> nat \<times> string option \<times> int option" where
  "trace_view r = (trace_key r, tr_span_count r, tr_decision r, tr_decided_at r)"

lemma tail_ok_relabel:
  assumes "tail_ok hashtext now d" and f: "\<And>r. trace_view (f r) = trace_view r"
    and "distinct (map ob_key out)"
  shows "tail_ok hashtext now (d\<lparr>tail_traces := update_where q f (tail_traces d), tail_outbox := out\<rparr>)"
proof -
  have v: "trace_key (f r) = trace_key r" "tr_span_count (f r) = tr_span_count r"
    "tr_decision (f r) = tr_decision r" "tr_decided_at (f r) = tr_decided_at r" for r
    using f [of r] by (simp_all add: trace_view_def)
  have k: "tr_tenant (f r) = tr_tenant r" "tr_trace (f r) = tr_trace r" "undecided (f r) = undecided r" for r
    using v [of r] by (simp_all add: trace_key_def undecided_def)
  have g: "trace_key (if q r then f r else r) = trace_key r" "tr_span_count (if q r then f r else r) = tr_span_count r"
    "tr_decision (if q r then f r else r) = tr_decision r" "tr_decided_at (if q r then f r else r) = tr_decided_at r"
    "tr_tenant (if q r then f r else r) = tr_tenant r" "tr_trace (if q r then f r else r) = tr_trace r"
    "undecided (if q r then f r else r) = undecided r" for r
    by (simp_all add: v k)
  have "count_where (active_in_shard hashtext t i) (update_where q f (tail_traces d))
      = count_where (active_in_shard hashtext t i) (tail_traces d)" for t i
    by (rule count_where_update) (simp add: active_in_shard_def k)
  moreover have "map trace_key (update_where q f (tail_traces d)) = map trace_key (tail_traces d)"
    by (rule map_update_where) (simp add: v)
  ultimately show ?thesis
    using assms(1,3)
    by (simp add: tail_ok_def tail_ok_parts ball_update_where bex_update_where is_trace_key g
        del: if_split) auto
qed

subsection \<open>Closing a trace\<close>

text \<open>What evicting or deciding a trace does to the database.\<close>

definition close_db ::
  "int \<Rightarrow> string \<Rightarrow> string \<Rightarrow> string \<Rightarrow> bool \<Rightarrow> outbox_row list \<Rightarrow> db \<Rightarrow> db" where
  "close_db now tenantID traceID reason kept out d =
     (let n = count_where (in_trace tenantID traceID) (tail_buffers d)
      in d\<lparr>tail_outbox := out,
           tail_buffers := delete_where (in_trace tenantID traceID) (tail_buffers d),
           tail_traces := update_where (\<lambda>r. is_trace tenantID traceID r \<and> undecided r)
             (\<lambda>r. r\<lparr>tr_decision := Some reason, tr_decided_at := Some now, tr_lease_owner := None,
                    tr_lease_expires := None, tr_span_count := n\<rparr>) (tail_traces d),
           tail_decisions := tail_decisions d @
             [\<lparr>dc_tenant = tenantID, dc_trace = traceID, dc_reason = reason, dc_retained = kept,
               dc_span_count = n, dc_created_at = now\<rparr>]\<rparr>)"

lemma evictTailTrace_effect:
  assumes "yields (evictTailTrace now tenantID traceID reason) d u d'"
    and "\<forall>c \<in> set (tail_decisions d). decision_key c \<noteq> (tenantID, traceID)"
  shows "d' = close_db now tenantID traceID reason False (tail_outbox d) d"
proof -
  have "\<not> list_ex (\<lambda>c. dc_tenant c = tenantID \<and> dc_trace c = traceID) (tail_decisions d)"
    using assms(2) by (auto simp: list_ex_iff decision_key_def)
  then show ?thesis
    using assms(1)
    by (auto simp: evictTailTrace_def select_def delete_buffers_def close_trace_def insert_decision_def
        close_db_def Let_def elim!: yields_elims split: if_splits)
qed

lemma in_trace_self: "in_trace (bf_tenant b) (bf_trace b) b"
  by (simp add: in_trace_def)

lemma count_in_trace_other:
  assumes "(t, i) \<noteq> (t', i')"
  shows "count_where (in_trace t i) (delete_where (in_trace t' i') rows) = count_where (in_trace t i) rows"
  unfolding count_where_delete using assms
  by (intro count_where_cong) (auto simp: in_trace_def)

lemma close_db_ok:
  assumes ok: "tail_ok hashtext now d" and r: "r \<in> set (tail_traces d)" "is_trace tenantID traceID r" "undecided r"
    and out: "distinct (map ob_key out)"
  shows "tail_ok hashtext now (close_db now tenantID traceID reason kept out d)"
proof -
  let ?d = "close_db now tenantID traceID reason kept out d"
  let ?n = "count_where (in_trace tenantID traceID) (tail_buffers d)"
  let ?q = "\<lambda>r. is_trace tenantID traceID r \<and> undecided r"
  let ?f = "\<lambda>r. r\<lparr>tr_decision := Some reason, tr_decided_at := Some now, tr_lease_owner := None,
                    tr_lease_expires := None, tr_span_count := ?n\<rparr>"
  have u: "unique_rows d" using ok by (simp add: tail_ok_def)
  have key: "trace_key r = (tenantID, traceID)" using r(2) by (simp add: is_trace_key)
  have only: "r' = r" if "r' \<in> set (tail_traces d)" "is_trace tenantID traceID r'" for r'
    using same_trace [OF u that(1) r(1)] that(2) key by (simp add: is_trace_key)
  have fresh: "(tenantID, traceID) \<notin> decision_key ` set (tail_decisions d)"
    using open_no_decision [OF ok r(1,3)] key by fastforce
  have tables: "tail_traces ?d = update_where ?q ?f (tail_traces d)"
    "tail_buffers ?d = delete_where (in_trace tenantID traceID) (tail_buffers d)"
    "tail_outbox ?d = out" "tail_event_keys ?d = tail_event_keys d"
    by (simp_all add: close_db_def Let_def)
  obtain c0 where dec: "tail_decisions ?d = tail_decisions d @ [c0]"
    and c0: "decision_key c0 = (tenantID, traceID)" "dc_reason c0 = reason" "dc_span_count c0 = ?n" "dc_created_at c0 = now"
    by (simp add: close_db_def decision_key_def Let_def)
  have f: "trace_key (?f x) = trace_key x" "\<not> undecided (?f x)" for x
    by (simp_all add: trace_key_def undecided_def)
  have "map trace_key (tail_traces ?d) = map trace_key (tail_traces d)"
    unfolding tables by (rule map_update_where) (simp add: f)
  then have "unique_rows ?d"
    using u out fresh c0(1) by (auto simp: unique_rows_def tables dec distinct_delete_where)
  moreover have "buffers_open ?d"
  proof -
    have "\<exists>r' \<in> set (tail_traces d). is_trace (bf_tenant b) (bf_trace b) r' \<and> undecided r' \<and> \<not> ?q r'"
      if "b \<in> set (tail_buffers d)" "\<not> in_trace tenantID traceID b" for b
      using ok that by (fastforce simp: tail_ok_def buffers_open_def in_trace_def is_trace_def)
    then show ?thesis
      unfolding buffers_open_def tables bex_update_where by fastforce
  qed
  moreover have "spans_counted ?d"
  proof -
    have "count_where (in_trace (tr_tenant r') (tr_trace r')) (tail_buffers ?d)
        = count_where (in_trace (tr_tenant r') (tr_trace r')) (tail_buffers d)"
      if "r' \<in> set (tail_traces d)" "\<not> ?q r'" "undecided r'" for r'
      unfolding tables using that by (intro count_in_trace_other) (auto simp: is_trace_def)
    then show ?thesis
      using ok unfolding tail_ok_def spans_counted_def tables ball_update_where
      by (auto simp: undecided_def)
  qed
  moreover have "shards_bounded hashtext ?d"
    unfolding shards_bounded_def tables
  proof (intro allI)
    fix t i
    have "count_where (active_in_shard hashtext t i) (update_where ?q ?f (tail_traces d))
        \<le> count_where (active_in_shard hashtext t i) (tail_traces d)"
      by (rule count_where_update_le) (simp add: active_in_shard_def undecided_def)
    also have "\<dots> \<le> 100" using ok by (simp add: tail_ok_def shards_bounded_def)
    finally show "count_where (active_in_shard hashtext t i) (update_where ?q ?f (tail_traces d)) \<le> 100" .
  qed
  moreover have "decided_recorded ?d"
    using ok c0 unfolding tail_ok_def decided_recorded_def tables ball_update_where dec
    by (auto simp: f is_trace_key)
  moreover have "decisions_close ?d"
  proof -
    have "\<exists>r' \<in> set (tail_traces d). trace_key r' = decision_key c \<and> tr_decided_at r' = Some (dc_created_at c) \<and> \<not> ?q r'"
      if "c \<in> set (tail_decisions d)" for c
      using ok that by (fastforce simp: tail_ok_def decisions_close_def undecided_def)
    then show ?thesis
      using r key c0 unfolding decisions_close_def tables bex_update_where dec
      by (simp add: f cong: conj_cong) (metis (mono_tags, lifting))
  qed
  moreover have "events_kept ?d"
    using ok c0(1) unfolding tail_ok_def events_kept_def tables dec
    by (fastforce simp: in_trace_def)
  moreover have "keys_dated now ?d"
    using ok c0 unfolding tail_ok_def keys_dated_def tables dec by auto
  ultimately show ?thesis by (simp add: tail_ok_def)
qed

lemma close_db_makes_room:
  assumes "tail_ok hashtext now d" and "r \<in> set (tail_traces d)" and "active_in_shard hashtext tenantID shardTraceID r"
  shows "count_where (active_in_shard hashtext tenantID shardTraceID)
    (tail_traces (close_db now' tenantID (tr_trace r) reason kept out d)) < 100"
proof -
  have r: "is_trace tenantID (tr_trace r) r \<and> undecided r"
    using assms(3) by (simp add: active_in_shard_def is_trace_def)
  have "count_where (active_in_shard hashtext tenantID shardTraceID)
      (tail_traces (close_db now' tenantID (tr_trace r) reason kept out d))
      < count_where (active_in_shard hashtext tenantID shardTraceID) (tail_traces d)"
    unfolding close_db_def Let_def
    using r assms(2,3)
    by simp (rule count_where_update_less [where r = r], auto simp: active_in_shard_def undecided_def)
  also have "\<dots> \<le> 100" using assms(1) by (simp add: tail_ok_def shards_bounded_def)
  finally show ?thesis .
qed

lemma close_db_tables [simp]:
  "tenants (close_db now t i reason kept out d) = tenants d"
  "tail_event_keys (close_db now t i reason kept out d) = tail_event_keys d"
  "tail_outbox (close_db now t i reason kept out d) = out"
  by (simp_all add: close_db_def Let_def)

subsection \<open>Opening a trace\<close>

definition opened_db :: "int \<Rightarrow> string \<Rightarrow> string \<Rightarrow> db \<Rightarrow> db" where
  "opened_db now tenantID traceID d = d\<lparr>tail_traces := tail_traces d @
     [\<lparr>tr_tenant = tenantID, tr_trace = traceID, tr_first_seen = now, tr_last_seen = now,
       tr_generation = 1, tr_span_count = 0, tr_lease_owner = None, tr_lease_expires = None,
       tr_decision = None, tr_decided_at = None\<rparr>]\<rparr>"

lemma insert_trace_effect:
  "insert_trace tenantID traceID locked now d = Inr (u, d') \<Longrightarrow>
     d' = opened_db now tenantID traceID d \<and> (\<forall>r \<in> set (tail_traces d). \<not> is_trace tenantID traceID r)"
  by (auto simp: insert_trace_def opened_db_def list_ex_iff split: if_splits)

lemma opened_db_ok:
  assumes ok: "tail_ok hashtext now d" and new: "\<forall>r \<in> set (tail_traces d). \<not> is_trace tenantID traceID r"
    and room: "count_where (active_in_shard hashtext tenantID traceID) (tail_traces d) < 100"
  shows "tail_ok hashtext now (opened_db now' tenantID traceID d)"
proof -
  let ?d = "opened_db now' tenantID traceID d"
  obtain r0 where tables: "tail_traces ?d = tail_traces d @ [r0]" "tail_buffers ?d = tail_buffers d"
      "tail_outbox ?d = tail_outbox d" "tail_event_keys ?d = tail_event_keys d" "tail_decisions ?d = tail_decisions d"
    and r0: "trace_key r0 = (tenantID, traceID)" "tr_span_count r0 = 0" "tr_decided_at r0 = None"
    by (simp add: opened_db_def trace_key_def)
  have "unique_rows ?d"
    using ok new r0(1) by (auto simp: tail_ok_def unique_rows_def tables is_trace_key)
  moreover have "buffers_open ?d"
    using ok by (auto simp: tail_ok_def buffers_open_def tables)
  moreover have "spans_counted ?d"
  proof -
    have "count_where (in_trace tenantID traceID) (tail_buffers d) = 0"
      using ok new by (fastforce simp: tail_ok_def buffers_open_def in_trace_def)
    moreover have "tr_tenant r0 = tenantID" "tr_trace r0 = traceID" using r0(1) by (simp_all add: trace_key_def)
    ultimately show ?thesis using ok r0(2) by (auto simp: tail_ok_def spans_counted_def tables)
  qed
  moreover have "shards_bounded hashtext ?d"
    unfolding shards_bounded_def
  proof (intro allI)
    fix t i
    have "tr_tenant r0 = tenantID" "tr_trace r0 = traceID" using r0(1) by (simp_all add: trace_key_def)
    then have "count_where (active_in_shard hashtext t i) (tail_traces d) < 100"
      if "active_in_shard hashtext t i r0"
      using room that by (simp add: active_in_shard_def [abs_def])
    moreover have "count_where (active_in_shard hashtext t i) (tail_traces d) \<le> 100"
      using ok by (simp add: tail_ok_def shards_bounded_def)
    ultimately show "count_where (active_in_shard hashtext t i) (tail_traces ?d) \<le> 100"
      by (auto simp: tables count_where_def)
  qed
  moreover have "decided_recorded ?d"
    using ok r0(3) by (auto simp: tail_ok_def decided_recorded_def tables)
  moreover have "decisions_close ?d" "events_kept ?d" "keys_dated now ?d"
    using ok by (auto simp: tail_ok_def decisions_close_def events_kept_def keys_dated_def tables)
  ultimately show ?thesis by (simp add: tail_ok_def)
qed

end
