(* ===== verification/TailStaging.thy ===== *)
theory TailStaging
  imports TailInvariants
begin

text \<open>
  The staging transaction of \<^verbatim>\<open>tail.go\<close>: what it does to the database, and that it keeps the
  invariant.
\<close>

subsection \<open>Buffering events\<close>

lemma add_event_keys_eq:
  assumes "add_event_keys t i now keys rows = (inserted, rows')"
  shows "rows' = rows @ map (\<lambda>k. \<lparr>ek_key = k, ek_tenant = t, ek_trace = i, ek_created_at = now\<rparr>) inserted \<and>
    distinct inserted \<and> set inserted = set keys - ek_key ` set rows"
  using assms
proof (induction keys arbitrary: rows inserted)
  case (Cons key keys)
  show ?case
  proof (cases "list_ex (\<lambda>r. ek_key r = key) rows")
    case True
    then show ?thesis using Cons by (auto simp: list_ex_iff)
  next
    case False
    let ?row = "\<lparr>ek_key = key, ek_tenant = t, ek_trace = i, ek_created_at = now\<rparr>"
    obtain ins where ins: "add_event_keys t i now keys (rows @ [?row]) = (ins, rows')" "inserted = key # ins"
      using Cons.prems False by (auto split: prod.splits)
    from Cons.IH [OF ins(1)] ins(2) False show ?thesis
      by (auto simp: list_ex_iff)
  qed
qed simp

definition new_keys :: "envelope list \<Rightarrow> db \<Rightarrow> string set" where
  "new_keys es d = EventKey ` set es - ek_key ` set (tail_event_keys d)"

definition new_batch :: "envelope list \<Rightarrow> db \<Rightarrow> envelope list" where
  "new_batch es d = filter (\<lambda>e. EventKey e \<in> new_keys es d) es"

text \<open>The keys recorded for a batch, in the order of their first occurrence.\<close>

definition key_rows :: "int \<Rightarrow> string \<Rightarrow> string \<Rightarrow> string list \<Rightarrow> event_key_row list" where
  "key_rows now t i = map (\<lambda>k. \<lparr>ek_key = k, ek_tenant = t, ek_trace = i, ek_created_at = now\<rparr>)"

definition buffer_rows :: "int \<Rightarrow> string \<Rightarrow> string \<Rightarrow> envelope list \<Rightarrow> buffer_row list" where
  "buffer_rows now t i = map (\<lambda>e. \<lparr>bf_key = EventKey e, bf_tenant = t, bf_trace = i, bf_envelope = e, bf_received_at = now\<rparr>)"

definition buffered_db :: "int \<Rightarrow> string \<Rightarrow> string \<Rightarrow> string list \<Rightarrow> envelope list \<Rightarrow> db \<Rightarrow> db" where
  "buffered_db now t i keys batch d =
     d\<lparr>tail_event_keys := tail_event_keys d @ key_rows now t i keys,
       tail_buffers := tail_buffers d @ buffer_rows now t i batch,
       tail_traces := update_where (\<lambda>r. is_trace t i r \<and> undecided r)
         (\<lambda>r. r\<lparr>tr_last_seen := now, tr_generation := tr_generation r + 1,
                tr_span_count := tr_span_count r + length batch\<rparr>) (tail_traces d)\<rparr>"

lemma length_new_batch:
  assumes "distinct (map EventKey (new_batch es d))" and "distinct keys" and "set keys = new_keys es d"
  shows "length (new_batch es d) = length keys"
proof -
  have "set (map EventKey (new_batch es d)) = set keys"
    using assms(3) by (auto simp: new_batch_def new_keys_def)
  then show ?thesis
    using assms(1,2) by (metis distinct_card length_map)
qed

lemma buffer_events_effect:
  assumes "yields (buffer_events now t i n es) d u d'"
  shows "new_keys es d = {} \<and> d' = d \<or>
    (\<exists>keys. distinct keys \<and> set keys = new_keys es d \<and> n + length keys \<le> 200 \<and>
       length (new_batch es d) = length keys \<and> distinct (map EventKey (new_batch es d)) \<and>
       (\<forall>b \<in> set (tail_buffers d). bf_key b \<notin> new_keys es d) \<and>
       d' = buffered_db now t i keys (new_batch es d) d)"
proof -
  obtain ins rows where add: "add_event_keys t i now (map EventKey es) (tail_event_keys d) = (ins, rows)"
    by fastforce
  note eq = add_event_keys_eq [OF add]
  have ins: "set ins = new_keys es d" "distinct ins" "rows = tail_event_keys d @ key_rows now t i ins"
    using eq by (auto simp: new_keys_def key_rows_def)
  have batch: "filter (\<lambda>e. EventKey e \<in> set ins) es = new_batch es d"
    by (simp add: new_batch_def ins(1))
  have members: "set (new_batch es d) = {e \<in> set es. EventKey e \<in> set ins}"
    by (simp flip: batch)
  have img: "EventKey ` {e \<in> set es. EventKey e \<in> set ins} = set ins"
    using ins(1) by (auto simp: new_keys_def)
  show ?thesis
  proof (cases "ins = []")
    case True
    then show ?thesis
      using assms add ins
      by (auto simp: buffer_events_def insert_event_keys_def key_rows_def elim!: yields_elims split: if_splits)
  next
    case False
    then have "n + length ins \<le> 200 \<and> distinct (map EventKey (new_batch es d)) \<and>
        (\<forall>b \<in> set (tail_buffers d). bf_key b \<notin> set ins) \<and>
        d' = buffered_db now t i ins (new_batch es d) d"
      using assms add ins(3)
      by (auto simp: buffer_events_def insert_event_keys_def insert_buffers_def touch_trace_def batch members img
          buffered_db_def buffer_rows_def tail_limits list_ex_iff Let_def elim!: yields_elims split: if_splits)
    then show ?thesis
      using ins length_new_batch [of es d ins] by auto
  qed
qed

text \<open>What holds when a batch of new events is buffered on an open trace.\<close>

definition bufferable :: "trace_row \<Rightarrow> string list \<Rightarrow> envelope list \<Rightarrow> db \<Rightarrow> bool" where
  "bufferable r keys es d =
     (r \<in> set (tail_traces d) \<and> undecided r \<and> distinct keys \<and> set keys = new_keys es d \<and>
      tr_span_count r + length keys \<le> 200 \<and> length (new_batch es d) = length keys \<and>
      distinct (map EventKey (new_batch es d)) \<and> (\<forall>b \<in> set (tail_buffers d). bf_key b \<notin> new_keys es d))"

definition touched :: "int \<Rightarrow> nat \<Rightarrow> trace_row \<Rightarrow> trace_row" where
  "touched now n r = r\<lparr>tr_last_seen := now, tr_generation := tr_generation r + 1,
     tr_span_count := tr_span_count r + n\<rparr>"

lemma touched_simps [simp]:
  "tr_tenant (touched now n r) = tr_tenant r" "tr_trace (touched now n r) = tr_trace r"
  "tr_decided_at (touched now n r) = tr_decided_at r" "tr_decision (touched now n r) = tr_decision r"
  "tr_span_count (touched now n r) = tr_span_count r + n"
  "trace_key (touched now n r) = trace_key r" "undecided (touched now n r) = undecided r"
  by (simp_all add: touched_def trace_key_def undecided_def)

lemma buffered_tables:
  "tail_traces (buffered_db now t i keys es d)
     = update_where (\<lambda>r. is_trace t i r \<and> undecided r) (touched now (length es)) (tail_traces d)"
  "tail_buffers (buffered_db now t i keys es d) = tail_buffers d @ buffer_rows now t i es"
  "tail_outbox (buffered_db now t i keys es d) = tail_outbox d"
  "tail_event_keys (buffered_db now t i keys es d) = tail_event_keys d @ key_rows now t i keys"
  "tail_decisions (buffered_db now t i keys es d) = tail_decisions d"
  "tenants (buffered_db now t i keys es d) = tenants d"
  by (simp_all add: buffered_db_def touched_def [abs_def])

lemma batch_keys: "EventKey ` set (new_batch es d) = new_keys es d"
  by (auto simp: new_batch_def new_keys_def)

lemma row_keys [simp]:
  "map bf_key (buffer_rows now t i es) = map EventKey es"
  "map ek_key (key_rows now t i keys) = keys"
  by (simp_all add: buffer_rows_def key_rows_def comp_def)

lemma in_buffer_rows: "b \<in> set (buffer_rows now t i es) \<Longrightarrow> bf_tenant b = t \<and> bf_trace b = i"
  by (auto simp: buffer_rows_def)

lemma in_key_rows:
  "k \<in> set (key_rows now t i keys) \<Longrightarrow> ek_key k \<in> set keys \<and> ek_tenant k = t \<and> ek_trace k = i"
  by (auto simp: key_rows_def)

lemma count_buffer_rows:
  "count_where (in_trace t' i') (buffer_rows now t i es) = (if (t', i') = (t, i) then length es else 0)"
  by (induction es) (auto simp: count_where_def buffer_rows_def in_trace_def)

lemma buffered_unique:
  assumes "unique_rows d" and "bufferable r keys es d"
  shows "unique_rows (buffered_db now t i keys (new_batch es d) d)"
proof -
  have "map trace_key (update_where (\<lambda>r. is_trace t i r \<and> undecided r) f (tail_traces d)) = map trace_key (tail_traces d)"
    if "\<And>r. trace_key (f r) = trace_key r" for f
    by (rule map_update_where) (simp add: that)
  moreover have "distinct (map ek_key (tail_event_keys d) @ keys)"
    using assms by (auto simp: unique_rows_def bufferable_def new_keys_def)
  moreover have "distinct (map bf_key (tail_buffers d) @ map EventKey (new_batch es d))"
    using assms by (auto simp: unique_rows_def bufferable_def batch_keys)
  ultimately show ?thesis
    using assms(1) by (simp add: unique_rows_def buffered_tables)
qed

lemma buffered_open:
  assumes "buffers_open d" and "bufferable r keys es d" and "is_trace t i r"
  shows "buffers_open (buffered_db now t i keys batch d)"
proof -
  have "\<exists>x \<in> set (tail_traces d). trace_key x = (bf_tenant b, bf_trace b) \<and> undecided x"
    if "b \<in> set (tail_buffers d) \<or> b \<in> set (buffer_rows now t i batch)" for b
    using that assms in_buffer_rows [of b now t i batch]
    by (auto simp: buffers_open_def is_trace_key bufferable_def)
  moreover have "is_trace t' i' (if is_trace t i x \<and> undecided x then touched now (length batch) x else x)
      = (trace_key x = (t', i'))"
    "undecided (if is_trace t i x \<and> undecided x then touched now (length batch) x else x) = undecided x" for x t' i'
    by (simp_all add: is_trace_key)
  ultimately show ?thesis
    unfolding buffers_open_def buffered_tables bex_update_where by auto
qed

lemma buffered_counted:
  assumes ok: "unique_rows d" "spans_counted d" and r: "bufferable r keys es d" "is_trace t i r"
  shows "spans_counted (buffered_db now t i keys (new_batch es d) d)"
  unfolding spans_counted_def buffered_tables ball_update_where
proof (intro ballI impI)
  fix x assume x: "x \<in> set (tail_traces d)"
    and open_x: "undecided (if is_trace t i x \<and> undecided x then touched now (length (new_batch es d)) x else x)"
  then have u: "undecided x" by (simp split: if_splits)
  have old: "tr_span_count x = count_where (in_trace (tr_tenant x) (tr_trace x)) (tail_buffers d)"
      "tr_span_count x \<le> 200"
    using ok(2) x u unfolding spans_counted_def by blast+
  show "tr_span_count (if is_trace t i x \<and> undecided x then touched now (length (new_batch es d)) x else x)
      = count_where (in_trace
          (tr_tenant (if is_trace t i x \<and> undecided x then touched now (length (new_batch es d)) x else x))
          (tr_trace (if is_trace t i x \<and> undecided x then touched now (length (new_batch es d)) x else x)))
          (tail_buffers d @ buffer_rows now t i (new_batch es d)) \<and>
    tr_span_count (if is_trace t i x \<and> undecided x then touched now (length (new_batch es d)) x else x) \<le> 200"
  proof (cases "is_trace t i x")
    case True
    then have "x = r"
      using same_trace [OF ok(1) x, of r] r by (simp add: bufferable_def is_trace_key)
    then have "tr_span_count x + length (new_batch es d) \<le> 200"
      using r(1) by (simp add: bufferable_def)
    moreover have "tr_tenant x = t" "tr_trace x = i" using True by (simp_all add: is_trace_def)
    ultimately show ?thesis using True u old(1) by (simp add: count_buffer_rows)
  next
    case False
    then have "count_where (in_trace (tr_tenant x) (tr_trace x)) (buffer_rows now t i (new_batch es d)) = 0"
      by (auto simp: count_buffer_rows is_trace_def)
    then show ?thesis using False old by simp
  qed
qed

lemma buffered_shards:
  assumes "shards_bounded hashtext d"
  shows "shards_bounded hashtext (buffered_db now t i keys batch d)"
proof -
  have "count_where (active_in_shard hashtext t' i') (tail_traces (buffered_db now t i keys batch d))
      = count_where (active_in_shard hashtext t' i') (tail_traces d)" for t' i'
    unfolding buffered_tables by (rule count_where_update) (simp add: active_in_shard_def)
  then show ?thesis using assms by (simp add: shards_bounded_def)
qed

lemma buffered_decisions:
  assumes "decided_recorded d" and "decisions_close d"
  shows "decided_recorded (buffered_db now t i keys batch d)" "decisions_close (buffered_db now t i keys batch d)"
proof -
  let ?g = "\<lambda>x. if is_trace t i x \<and> undecided x then touched now (length batch) x else x"
  have g: "tr_decided_at (?g x) = tr_decided_at x" "trace_key (?g x) = trace_key x" "tr_decision (?g x) = tr_decision x"
    and c: "tr_decided_at x \<noteq> None \<Longrightarrow> tr_span_count (?g x) = tr_span_count x" for x
    by (auto simp: undecided_def)
  show "decisions_close (buffered_db now t i keys batch d)"
    using assms(2) unfolding decisions_close_def buffered_tables bex_update_where g .
  show "decided_recorded (buffered_db now t i keys batch d)"
    unfolding decided_recorded_def buffered_tables ball_update_where g
  proof (intro ballI allI impI)
    fix x s assume x: "x \<in> set (tail_traces d)" "tr_decided_at x = Some s"
    then have "tr_span_count (?g x) = tr_span_count x" by (intro c) simp
    with assms(1) x show "\<exists>c \<in> set (tail_decisions d). decision_key c = trace_key x \<and> dc_created_at c = s \<and>
        tr_decision x = Some (dc_reason c) \<and> tr_span_count (?g x) = dc_span_count c"
      by (simp only: decided_recorded_def)
  qed
qed

lemma buffered_events:
  assumes "events_kept d" and "set keys = new_keys es d"
  shows "events_kept (buffered_db now t i keys (new_batch es d) d)"
  unfolding events_kept_def
proof
  let ?d = "buffered_db now t i keys (new_batch es d) d"
  fix k assume "k \<in> set (tail_event_keys ?d)"
  then consider "k \<in> set (tail_event_keys d)" | "k \<in> set (key_rows now t i keys)" by (auto simp: buffered_tables)
  then show "(\<exists>b \<in> set (tail_buffers ?d). bf_key b = ek_key k \<and> in_trace (ek_tenant k) (ek_trace k) b) \<or>
      (\<exists>c \<in> set (tail_decisions ?d). decision_key c = (ek_tenant k, ek_trace k))"
  proof cases
    case 1
    with assms(1) have "(\<exists>b \<in> set (tail_buffers d). bf_key b = ek_key k \<and> in_trace (ek_tenant k) (ek_trace k) b) \<or>
        (\<exists>c \<in> set (tail_decisions d). decision_key c = (ek_tenant k, ek_trace k))"
      by (simp only: events_kept_def)
    then show ?thesis by (simp only: buffered_tables set_append bex_Un) blast
  next
    case 2
    from in_key_rows [OF this] have "ek_key k \<in> EventKey ` set (new_batch es d)"
      and tk: "ek_tenant k = t" "ek_trace k = i"
      unfolding batch_keys assms(2) by blast+
    then obtain e where e: "e \<in> set (new_batch es d)" "ek_key k = EventKey e" by blast
    let ?b = "\<lparr>bf_key = EventKey e, bf_tenant = t, bf_trace = i, bf_envelope = e, bf_received_at = now\<rparr>"
    have "?b \<in> set (tail_buffers ?d)" using e(1) by (simp add: buffered_tables buffer_rows_def)
    moreover have "bf_key ?b = ek_key k \<and> in_trace (ek_tenant k) (ek_trace k) ?b"
      using e(2) tk by (simp add: in_trace_def)
    ultimately show ?thesis by blast
  qed
qed

lemma buffered_db_ok:
  assumes ok: "tail_ok hashtext now d" and r: "bufferable r keys es d" "is_trace t i r"
  shows "tail_ok hashtext now (buffered_db now t i keys (new_batch es d) d)"
proof -
  have "\<forall>c \<in> set (tail_decisions d). decision_key c \<noteq> (t, i)"
    using open_no_decision [OF ok, of r] r by (simp add: bufferable_def is_trace_key)
  then have "keys_dated now (buffered_db now t i keys (new_batch es d) d)"
    using ok unfolding tail_ok_def keys_dated_def buffered_tables by (auto simp: key_rows_def)
  moreover have "set keys = new_keys es d" using r(1) by (simp add: bufferable_def)
  ultimately show ?thesis
    using ok r by (simp add: tail_ok_def buffered_unique buffered_open buffered_counted buffered_shards
        buffered_decisions buffered_events)
qed

subsection \<open>Staging\<close>

lemma oldest_unlocked_effect:
  assumes "oldest_unlocked hashtext tenantID traceID locked now d = Inr (Some victim, d')"
  shows "d' = d \<and> (\<exists>r \<in> set (tail_traces d). active_in_shard hashtext tenantID traceID r \<and> tr_trace r = victim)"
proof -
  let ?rows = "filter (\<lambda>r. \<not> locked ''tail_traces'' [tr_tenant r, tr_trace r])
    (ordered_by tr_first_seen (filter (active_in_shard hashtext tenantID traceID) (tail_traces d)))"
  obtain r rest where r: "?rows = r # rest" "victim = tr_trace r" "d' = d"
    using assms by (cases ?rows) (auto simp: oldest_unlocked_def)
  have "r \<in> set ?rows" unfolding r(1) by simp
  then show ?thesis using r(2,3) by auto
qed

text \<open>What staging one trace does: a retry that changes nothing, or events buffered on the open
  trace, which may first have to be made, and for which another may have to go.\<close>

lemma stageTraceTx_effect:
  assumes "yields (stageTraceTx hashtext now t i es) d u d'"
  obtains
    (retry) r where "d' = d" "r \<in> set (tail_traces d)" "is_trace t i r" "tr_decided_at r \<noteq> None"
      "yields (recheck_events now t i es) d u d'"
  | (extend) r where "r \<in> set (tail_traces d)" "is_trace t i r" "undecided r"
      "yields (buffer_events now t i (tr_span_count r) es) d u d'"
  | (new) d1 where "\<forall>r \<in> set (tail_traces d). \<not> is_trace t i r"
      "d1 = d \<and> count_where (active_in_shard hashtext t i) (tail_traces d) < 100 \<or>
       (\<exists>r \<in> set (tail_traces d). active_in_shard hashtext t i r \<and>
          yields (evictTailTrace now t (tr_trace r) ''evicted_pressure'') d () d1)"
      "yields (buffer_events now t i 0 es) (opened_db now t i d1) u d'"
proof -
  let ?row = "find (is_trace t i) (tail_traces d)"
  have y: "yields (case ?row of
      None \<Rightarrow> and_then (tx_stmt now (select (\<lambda>d. count_where (active_in_shard hashtext t i) (tail_traces d)))) (\<lambda>n.
           and_then (if int n \<ge> int defaultTailMaxTraces div tailLockShards
                     then evictOldestTailTrace hashtext now t i ''evicted_pressure'' else ret ()) (\<lambda>_.
           and_then (tx_stmt now (insert_trace t i)) (\<lambda>_. buffer_events now t i 0 es)))
    | Some r \<Rightarrow> if tr_decided_at r \<noteq> None then recheck_events now t i es
           else buffer_events now t i (tr_span_count r) es) d u d'"
    using assms by (auto simp: stageTraceTx_def select_def elim!: yields_elims)
  show thesis
  proof (cases ?row)
    case (Some r)
    then have r: "r \<in> set (tail_traces d)" "is_trace t i r"
      by (auto simp: find_Some_iff in_set_conv_nth)
    show thesis
    proof (cases "tr_decided_at r = None")
      case True
      then show thesis using y Some r extend by (simp add: undecided_def)
    next
      case False
      then have known: "yields (recheck_events now t i es) d u d'" using y Some by simp
      then have "d' = d"
        by (auto simp: recheck_events_def select_def Let_def elim!: yields_elims split: if_splits)
      then show thesis using r False known retry by blast
    qed
  next
    case None
    then have none: "\<forall>r \<in> set (tail_traces d). \<not> is_trace t i r" by (simp add: find_None_iff)
    let ?n = "count_where (active_in_shard hashtext t i) (tail_traces d)"
    obtain d1 d2 where d1: "yields (if int ?n \<ge> int defaultTailMaxTraces div tailLockShards
        then evictOldestTailTrace hashtext now t i ''evicted_pressure'' else ret ()) d () d1"
      and d2: "yields (tx_stmt now (insert_trace t i)) d1 () d2" "yields (buffer_events now t i 0 es) d2 u d'"
      using y None by (auto elim!: yields_and_then yields_select)
    have "d2 = opened_db now t i d1"
      using d2(1) insert_trace_effect by (auto elim!: yields_tx_stmt)
    moreover have "d1 = d \<and> ?n < 100 \<or>
       (\<exists>r \<in> set (tail_traces d). active_in_shard hashtext t i r \<and>
          yields (evictTailTrace now t (tr_trace r) ''evicted_pressure'') d () d1)"
    proof (cases "int ?n \<ge> 100")
      case True
      then have "yields (evictOldestTailTrace hashtext now t i ''evicted_pressure'') d () d1"
        using d1 by (simp add: tail_limits)
      then obtain victim d0 locked where "oldest_unlocked hashtext t i locked now d = Inr (Some victim, d0)"
        "yields (evictTailTrace now t victim ''evicted_pressure'') d0 () d1"
        by (auto simp: evictOldestTailTrace_def elim!: yields_and_then yields_tx_stmt split: option.splits)
      then show ?thesis using oldest_unlocked_effect by blast
    next
      case False
      then show ?thesis using d1 by (auto simp: tail_limits elim!: yields_ret)
    qed
    ultimately show thesis using none d2(2) new by blast
  qed
qed

lemma find_opened:
  "\<exists>r \<in> set (tail_traces (opened_db now t i d)). is_trace t i r \<and> undecided r \<and> tr_span_count r = 0"
  by (simp add: opened_db_def is_trace_def undecided_def)

lemma buffer_events_ok:
  assumes "tail_ok hashtext now d" and "r \<in> set (tail_traces d)" "is_trace t i r" "undecided r"
    and "yields (buffer_events now t i (tr_span_count r) es) d u d'"
  shows "tail_ok hashtext now d'"
proof -
  have "bufferable r keys es d" if "distinct keys" "set keys = new_keys es d" "tr_span_count r + length keys \<le> 200"
      "length (new_batch es d) = length keys" "distinct (map EventKey (new_batch es d))"
      "\<forall>b \<in> set (tail_buffers d). bf_key b \<notin> new_keys es d" for keys
    using that assms(2,4) by (simp add: bufferable_def)
  then show ?thesis
    using buffer_events_effect [OF assms(5)] buffered_db_ok [OF assms(1) _ assms(3)] assms(1) by blast
qed

text \<open>The database in which a new trace is opened has room for it.\<close>

lemma room_for_trace:
  assumes ok: "tail_ok hashtext now d"
    and d1: "d1 = d \<and> count_where (active_in_shard hashtext t i) (tail_traces d) < 100 \<or>
       (\<exists>r \<in> set (tail_traces d). active_in_shard hashtext t i r \<and>
          yields (evictTailTrace now t (tr_trace r) ''evicted_pressure'') d () d1)"
    and none: "\<forall>r \<in> set (tail_traces d). \<not> is_trace t i r"
  shows "tail_ok hashtext now d1 \<and> count_where (active_in_shard hashtext t i) (tail_traces d1) < 100 \<and>
    (\<forall>r \<in> set (tail_traces d1). \<not> is_trace t i r)"
  using d1
proof
  assume "\<exists>r \<in> set (tail_traces d). active_in_shard hashtext t i r \<and>
          yields (evictTailTrace now t (tr_trace r) ''evicted_pressure'') d () d1"
  then obtain r where r: "r \<in> set (tail_traces d)" "active_in_shard hashtext t i r"
    and y: "yields (evictTailTrace now t (tr_trace r) ''evicted_pressure'') d () d1" by blast
  have r': "is_trace t (tr_trace r) r" "undecided r" using r(2) by (auto simp: active_in_shard_def is_trace_def)
  have "\<forall>c \<in> set (tail_decisions d). decision_key c \<noteq> (t, tr_trace r)"
    using open_no_decision [OF ok r(1) r'(2)] r'(1) by (auto simp: is_trace_key)
  from evictTailTrace_effect [OF y this]
  have d1: "d1 = close_db now t (tr_trace r) ''evicted_pressure'' False (tail_outbox d) d" .
  have "tail_ok hashtext now d1"
    unfolding d1 by (rule close_db_ok [OF ok r(1) r']) (use ok in \<open>simp add: tail_ok_def unique_rows_def\<close>)
  moreover have "\<forall>r \<in> set (tail_traces d1). \<not> is_trace t i r"
    using none by (auto simp: d1 close_db_def Let_def ball_update_where is_trace_def)
  ultimately show ?thesis
    using close_db_makes_room [OF ok r] by (simp add: d1)
qed (use ok none in blast)

lemma stageTraceTx_ok:
  assumes "tail_ok hashtext now d" and "yields (stageTraceTx hashtext now t i es) d u d'"
  shows "tail_ok hashtext now d'"
  using assms(2)
proof (cases rule: stageTraceTx_effect)
  case (extend r)
  then show ?thesis using buffer_events_ok [OF assms(1)] by blast
next
  case (new d1)
  note room = room_for_trace [OF assms(1) new(2,1)]
  then have ok: "tail_ok hashtext now (opened_db now t i d1)" by (intro opened_db_ok) auto
  obtain r where "r \<in> set (tail_traces (opened_db now t i d1))" "is_trace t i r" "undecided r" "tr_span_count r = 0"
    using find_opened by blast
  with buffer_events_ok [OF ok] new(3) show ?thesis by metis
qed (use assms(1) in simp)

end
