(* ===== verification/TailLifecycle.thy ===== *)
theory TailLifecycle
  imports TailStaging Metadata
begin

text \<open>
  The other operations of \<^verbatim>\<open>tail.go\<close> on the database, runs of the whole store, and what holds in
  every state they reach.
\<close>

subsection \<open>Deciding a trace\<close>

definition outbox_row_of :: "int \<Rightarrow> string \<Rightarrow> buffer_row \<Rightarrow> outbox_row" where
  "outbox_row_of now tenantID b =
     \<lparr>ob_key = bf_key b, ob_tenant = tenantID, ob_envelope = bf_envelope b, ob_attempts = 0,
      ob_lease_owner = None, ob_lease_expires = None, ob_published_at = None, ob_created_at = now\<rparr>"

fun outbox_after :: "int \<Rightarrow> string \<Rightarrow> buffer_row list \<Rightarrow> outbox_row list \<Rightarrow> outbox_row list" where
  "outbox_after now tenantID [] out = out"
| "outbox_after now tenantID (b # bs) out =
     outbox_after now tenantID bs
       (if list_ex (\<lambda>m. ob_key m = bf_key b) out then out else out @ [outbox_row_of now tenantID b])"

lemma yields_insert_outbox:
  assumes "yields (each (\<lambda>item. tx_stmt now (insert_outbox tenantID (bf_key item) (bf_envelope item))) rows) d u d'"
  shows "d' = d\<lparr>tail_outbox := outbox_after now tenantID rows (tail_outbox d)\<rparr>"
  using assms
proof (induction rows arbitrary: d)
  case (Cons b rows)
  then obtain d1 locked where "insert_outbox tenantID (bf_key b) (bf_envelope b) locked now d = Inr ((), d1)"
    and rest: "yields (each (\<lambda>item. tx_stmt now (insert_outbox tenantID (bf_key item) (bf_envelope item))) rows) d1 u d'"
    by (auto elim!: yields_and_then yields_tx_stmt)
  then have "d1 = d\<lparr>tail_outbox := if list_ex (\<lambda>m. ob_key m = bf_key b) (tail_outbox d) then tail_outbox d
      else tail_outbox d @ [outbox_row_of now tenantID b]\<rparr>"
    by (auto simp: insert_outbox_def outbox_row_of_def split: if_splits)
  with Cons.IH [OF rest] show ?case by simp
qed (auto elim: yields_ret)

lemma ob_key_row [simp]: "ob_key (outbox_row_of now t b) = bf_key b"
  by (simp add: outbox_row_of_def)

lemma list_ex_key: "list_ex (\<lambda>m. f m = k) xs \<longleftrightarrow> k \<in> f ` set xs"
  by (induction xs) auto

lemma outbox_after_keys: "ob_key ` set (outbox_after now t rows out) = ob_key ` set out \<union> bf_key ` set rows"
proof (induction rows arbitrary: out)
  case (Cons b rows)
  show ?case
  proof (cases "bf_key b \<in> ob_key ` set out")
    case True
    then have "ob_key ` set out \<union> bf_key ` set (b # rows) = ob_key ` set out \<union> bf_key ` set rows" by auto
    with True show ?thesis by (simp add: list_ex_key Cons.IH)
  qed (simp add: list_ex_key Cons.IH)
qed simp

lemma outbox_after_distinct: "distinct (map ob_key out) \<Longrightarrow> distinct (map ob_key (outbox_after now t rows out))"
  by (induction rows arbitrary: out) (simp_all add: list_ex_key)

lemma outbox_after_prefix: "prefix out (outbox_after now t rows out)"
proof (induction rows arbitrary: out)
  case (Cons b rows)
  have "prefix out (if c then out else out @ [x])" for c x by simp
  then show ?case using Cons.IH prefix_order.trans by (simp only: outbox_after.simps) blast
qed simp

lemma outbox_after_new:
  "m \<in> set (outbox_after now t rows out) \<Longrightarrow> m \<in> set out \<or> (\<exists>b \<in> set rows. m = outbox_row_of now t b)"
  by (induction rows arbitrary: out) (fastforce split: if_splits)+

lemma update_where_cong: "(\<And>r. r \<in> set rows \<Longrightarrow> p r = q r) \<Longrightarrow> update_where p f rows = update_where q f rows"
  by (simp add: update_where_def)

definition decided_outbox :: "int \<Rightarrow> TailTraceLease \<Rightarrow> Decision \<Rightarrow> db \<Rightarrow> outbox_row list" where
  "decided_outbox now lease decision d =
     (if Retained decision
      then outbox_after now (LeaseTenant lease) (buffered_rows (LeaseTenant lease) (LeaseTrace lease) d) (tail_outbox d)
      else tail_outbox d)"

text \<open>The lease a decision needs: the trace is open, unchanged since it was leased, and nobody else has leased it. The code
  does not ask whether the lease has run out.\<close>

definition lease_current :: "string \<Rightarrow> TailTraceLease \<Rightarrow> db \<Rightarrow> bool" where
  "lease_current owner lease d =
     (\<exists>r \<in> set (tail_traces d). is_trace (LeaseTenant lease) (LeaseTrace lease) r \<and>
        tr_lease_owner r = Some owner \<and> undecided r \<and> tr_generation r = Generation lease)"

lemma decide_tx_effect:
  assumes "yields (decide_tx owner lease decision now) d b d'" and "unique_rows d"
  shows "(if lease_current owner lease d
     then b \<and> Reason decision \<in> set decision_reasons \<and>
       d' = close_db now (LeaseTenant lease) (LeaseTrace lease) (Reason decision) (Retained decision)
              (decided_outbox now lease decision d) d
     else \<not> b \<and> d' = d)"
proof -
  let ?t = "LeaseTenant lease" let ?i = "LeaseTrace lease"
  let ?p = "\<lambda>r. is_trace ?t ?i r \<and> tr_lease_owner r = Some owner"
  let ?row = "find ?p (tail_traces d)"
  have only: "r = r'" if "r \<in> set (tail_traces d)" "r' \<in> set (tail_traces d)" "is_trace ?t ?i r" "is_trace ?t ?i r'" for r r'
    using same_trace [OF assms(2) that(1,2)] that(3,4) by (simp add: is_trace_key)
  have held: "lease_current owner lease d \<longleftrightarrow>
      (\<exists>r. ?row = Some r \<and> tr_decided_at r = None \<and> tr_generation r = Generation lease)"
  proof
    assume "lease_current owner lease d"
    then obtain r where r: "r \<in> set (tail_traces d)" "?p r" "tr_decided_at r = None" "tr_generation r = Generation lease"
      by (auto simp: lease_current_def undecided_def)
    have "?row = Some r" using r(1,2) only by (intro find_unique) auto
    with r(3,4) show "\<exists>r. ?row = Some r \<and> tr_decided_at r = None \<and> tr_generation r = Generation lease" by blast
  qed (auto simp: lease_current_def undecided_def dest!: find_SomeD)
  show ?thesis
  proof (cases "lease_current owner lease d")
    case True
    then obtain r where r: "?row = Some r" "tr_decided_at r = None" "tr_generation r = Generation lease"
      using held by blast
    have rows: "?p x \<longleftrightarrow> is_trace ?t ?i x \<and> undecided x" if "x \<in> set (tail_traces d)" for x
      using find_SomeD [OF r(1)] r(2) only [of x r] that by (auto simp: undecided_def)
    have closed: "update_where ?p f (tail_traces d) = update_where (\<lambda>x. is_trace ?t ?i x \<and> undecided x) f (tail_traces d)" for f
      by (rule update_where_cong) (rule rows)
    let ?n = "count_where (in_trace ?t ?i) (tail_buffers d)"
    obtain d1 where d1: "d1 = d\<lparr>tail_outbox := decided_outbox now lease decision d\<rparr>"
      and rest: "yields (settle_tx owner lease decision ?n now) d1 b d'"
      using assms(1) r
      by (auto simp: decide_tx_def Let_def decided_outbox_def elim!: yields_and_then yields_select yields_ret
          dest!: yields_insert_outbox split: if_splits)
    have "b \<and> Reason decision \<in> set decision_reasons \<and>
       d' = close_db now ?t ?i (Reason decision) (Retained decision) (decided_outbox now lease decision d) d"
      using rest unfolding d1
      by (auto simp: settle_tx_def delete_buffers_def close_trace_def insert_decision_def close_db_def closed Let_def
          elim!: yields_elims split: if_splits)
    then show ?thesis using True by simp
  next
    case False
    then have "case ?row of None \<Rightarrow> True | Some r \<Rightarrow> tr_decided_at r \<noteq> None \<or> tr_generation r \<noteq> Generation lease"
      using held by (auto split: option.split)
    then have "\<not> b \<and> d' = d"
      using assms(1) by (auto simp: decide_tx_def Let_def elim!: yields_and_then yields_select yields_ret)
    then show ?thesis using False by simp
  qed
qed

lemma decided_outbox_distinct: "unique_rows d \<Longrightarrow> distinct (map ob_key (decided_outbox now lease decision d))"
  by (simp add: decided_outbox_def unique_rows_def outbox_after_distinct)

lemma decide_tx_ok:
  assumes "tail_ok hashtext now d" and "yields (decide_tx owner lease decision now) d b d'"
  shows "tail_ok hashtext now d'"
proof -
  have u: "unique_rows d" using assms(1) by (simp add: tail_ok_def)
  note eff = decide_tx_effect [OF assms(2) u]
  show ?thesis
  proof (cases "lease_current owner lease d")
    case True
    then obtain r where "r \<in> set (tail_traces d)" "is_trace (LeaseTenant lease) (LeaseTrace lease) r" "undecided r"
      by (auto simp: lease_current_def)
    then show ?thesis
      using eff True close_db_ok [OF assms(1)] decided_outbox_distinct [OF u] by simp
  qed (use eff assms(1) in simp)
qed

subsection \<open>Leases and the outbox\<close>

lemma claim_traces_ok:
  assumes "tail_ok hashtext now d" and "claim_traces owner quiet ttl limit locked now' d = Inr (leases, d')"
  shows "tail_ok hashtext now d'"
proof -
  obtain chosen where d': "d' = d\<lparr>tail_traces := update_where chosen (\<lambda>r. r\<lparr>tr_lease_owner := Some owner,
      tr_lease_expires := Some (now' + microseconds ttl)\<rparr>) (tail_traces d), tail_outbox := tail_outbox d\<rparr>"
    using assms(2) by (auto simp: claim_traces_def Let_def)
  show ?thesis
    unfolding d' using assms(1)
    by (intro tail_ok_relabel) (simp_all add: trace_view_def trace_key_def tail_ok_def unique_rows_def)
qed

lemma parts_outbox [simp]:
  "buffers_open (d\<lparr>tail_outbox := out\<rparr>) = buffers_open d" "spans_counted (d\<lparr>tail_outbox := out\<rparr>) = spans_counted d"
  "shards_bounded hashtext (d\<lparr>tail_outbox := out\<rparr>) = shards_bounded hashtext d"
  "decided_recorded (d\<lparr>tail_outbox := out\<rparr>) = decided_recorded d"
  "decisions_close (d\<lparr>tail_outbox := out\<rparr>) = decisions_close d"
  "events_kept (d\<lparr>tail_outbox := out\<rparr>) = events_kept d" "keys_dated now (d\<lparr>tail_outbox := out\<rparr>) = keys_dated now d"
  by (simp_all add: tail_ok_parts)

lemma outbox_relabel_ok:
  assumes "tail_ok hashtext now d" and "\<And>m. ob_key (f m) = ob_key m"
  shows "tail_ok hashtext now (d\<lparr>tail_outbox := update_where q f (tail_outbox d)\<rparr>)"
proof -
  have "distinct (map ob_key (update_where q f (tail_outbox d)))"
    using assms by (simp add: map_update_where tail_ok_def unique_rows_def)
  then show ?thesis using assms(1) by (simp add: tail_ok_def unique_rows_def)
qed

lemma claim_outbox_ok:
  assumes "tail_ok hashtext now d" and "claim_outbox owner ttl limit locked now' d = Inr (ms, d')"
  shows "tail_ok hashtext now d'"
  using assms by (auto simp: claim_outbox_def Let_def intro!: outbox_relabel_ok)

lemma mark_published_ok:
  assumes "tail_ok hashtext now d" and "mark_published owner key locked now' d = Inr (n, d')"
  shows "tail_ok hashtext now d'"
  using assms by (auto simp: mark_published_def Let_def intro!: outbox_relabel_ok)

subsection \<open>Retention and deletion\<close>

text \<open>The rows that the four deletions leave.\<close>

definition pruned_db ::
  "(outbox_row \<Rightarrow> bool) \<Rightarrow> (event_key_row \<Rightarrow> bool) \<Rightarrow> (decision_row \<Rightarrow> bool) \<Rightarrow> (trace_row \<Rightarrow> bool) \<Rightarrow> db \<Rightarrow> db" where
  "pruned_db po pk pc pr d = d\<lparr>tail_outbox := delete_where po (tail_outbox d),
     tail_event_keys := delete_where pk (tail_event_keys d),
     tail_decisions := delete_where pc (tail_decisions d),
     tail_traces := delete_where pr (tail_traces d),
     tail_buffers := delete_where (\<lambda>b. list_ex (\<lambda>r. pr r \<and> is_trace (bf_tenant b) (bf_trace b) r) (tail_traces d))
       (tail_buffers d)\<rparr>"

lemma prune_effect:
  assumes "yields (each (tx_stmt now) [delete_outbox po, delete_event_keys pk, delete_decisions pc, delete_traces pr]) d u d'"
  shows "d' = pruned_db po pk pc pr d"
  using assms
  by (auto simp: delete_outbox_def delete_event_keys_def delete_decisions_def delete_traces_def pruned_db_def
      elim!: yields_elims)

text \<open>
  Pruning keeps the invariant when decided traces go exactly with their decisions, and an
  event key does not outlive the decision of its trace.
\<close>

lemma pruned_db_ok:
  assumes ok: "tail_ok hashtext now d"
    and traces: "\<And>r c. r \<in> set (tail_traces d) \<Longrightarrow> c \<in> set (tail_decisions d) \<Longrightarrow> trace_key r = decision_key c \<Longrightarrow>
       tr_decided_at r = Some (dc_created_at c) \<Longrightarrow> pr r = pc c"
    and keys: "\<And>k c. k \<in> set (tail_event_keys d) \<Longrightarrow> c \<in> set (tail_decisions d) \<Longrightarrow>
       decision_key c = (ek_tenant k, ek_trace k) \<Longrightarrow> ek_created_at k \<le> dc_created_at c \<Longrightarrow> pc c \<Longrightarrow> pk k"
    and open_keys: "\<And>k r. k \<in> set (tail_event_keys d) \<Longrightarrow> r \<in> set (tail_traces d) \<Longrightarrow> undecided r \<Longrightarrow>
       trace_key r = (ek_tenant k, ek_trace k) \<Longrightarrow> pr r \<Longrightarrow> pk k"
  shows "tail_ok hashtext now (pruned_db po pk pc pr d)"
proof -
  let ?d = "pruned_db po pk pc pr d"
  have u: "unique_rows d" and bo: "buffers_open d" and sc: "spans_counted d" and dr: "decided_recorded d"
    and dc: "decisions_close d" and ek: "events_kept d" and kd: "keys_dated now d"
    using ok by (simp_all add: tail_ok_def)
  have tables: "tail_traces ?d = delete_where pr (tail_traces d)"
    "tail_buffers ?d = delete_where (\<lambda>b. list_ex (\<lambda>r. pr r \<and> is_trace (bf_tenant b) (bf_trace b) r) (tail_traces d)) (tail_buffers d)"
    "tail_outbox ?d = delete_where po (tail_outbox d)" "tail_event_keys ?d = delete_where pk (tail_event_keys d)"
    "tail_decisions ?d = delete_where pc (tail_decisions d)"
    by (simp_all add: pruned_db_def)
  have stays: "(\<exists>x \<in> set (tail_traces d). pr x \<and> is_trace t i x) \<longleftrightarrow> pr r"
    if "r \<in> set (tail_traces d)" "trace_key r = (t, i)" for r t i
  proof -
    have "x = r" if "x \<in> set (tail_traces d)" "is_trace t i x" for x
      by (rule same_trace [OF u that(1) \<open>r \<in> set (tail_traces d)\<close>])
        (use that(2) \<open>trace_key r = (t, i)\<close> in \<open>simp add: is_trace_key\<close>)
    then show ?thesis using that unfolding is_trace_key by blast
  qed
  have "unique_rows ?d"
    using u by (simp add: unique_rows_def tables distinct_delete_where)
  moreover have "buffers_open ?d"
    using bo by (fastforce simp: buffers_open_def tables list_ex_iff)
  moreover have "spans_counted ?d"
    unfolding spans_counted_def tables
  proof (intro ballI impI)
    fix r assume r: "r \<in> set (delete_where pr (tail_traces d))" "undecided r"
    then have "\<not> (\<exists>x \<in> set (tail_traces d). pr x \<and> is_trace (tr_tenant r) (tr_trace r) x)"
      using stays [of r "tr_tenant r" "tr_trace r"] by (auto simp: trace_key_def)
    then have "count_where (in_trace (tr_tenant r) (tr_trace r)) (tail_buffers ?d)
        = count_where (in_trace (tr_tenant r) (tr_trace r)) (tail_buffers d)"
      unfolding tables count_where_delete by (intro count_where_cong) (auto simp: in_trace_def list_ex_iff)
    then show "tr_span_count r = count_where (in_trace (tr_tenant r) (tr_trace r))
        (delete_where (\<lambda>b. list_ex (\<lambda>r. pr r \<and> is_trace (bf_tenant b) (bf_trace b) r) (tail_traces d)) (tail_buffers d))
      \<and> tr_span_count r \<le> 200"
      using sc r unfolding spans_counted_def set_delete_where tables by auto
  qed
  moreover have "shards_bounded hashtext ?d"
  proof -
    have "count_where p (delete_where pr rows) \<le> count_where p rows" for p and rows :: "trace_row list"
      unfolding count_where_delete by (rule count_where_mono) simp
    then show ?thesis
      using ok unfolding tail_ok_def shards_bounded_def tables by (blast intro: order_trans)
  qed
  moreover have "decided_recorded ?d"
    unfolding decided_recorded_def tables
  proof (intro ballI allI impI)
    fix r s assume r: "r \<in> set (delete_where pr (tail_traces d))" "tr_decided_at r = Some s"
    then obtain c where c: "c \<in> set (tail_decisions d)" "decision_key c = trace_key r" "dc_created_at c = s"
        "tr_decision r = Some (dc_reason c)" "tr_span_count r = dc_span_count c"
      using dr unfolding decided_recorded_def set_delete_where by blast
    with traces [of r c] r show "\<exists>c \<in> set (delete_where pc (tail_decisions d)). decision_key c = trace_key r \<and>
        dc_created_at c = s \<and> tr_decision r = Some (dc_reason c) \<and> tr_span_count r = dc_span_count c"
      by auto
  qed
  moreover have "decisions_close ?d"
    unfolding decisions_close_def tables
  proof
    fix c assume c: "c \<in> set (delete_where pc (tail_decisions d))"
    then obtain r where "r \<in> set (tail_traces d)" "trace_key r = decision_key c" "tr_decided_at r = Some (dc_created_at c)"
      using dc unfolding decisions_close_def set_delete_where by blast
    with traces [of r c] c show "\<exists>r \<in> set (delete_where pr (tail_traces d)). trace_key r = decision_key c \<and>
        tr_decided_at r = Some (dc_created_at c)"
      by auto
  qed
  moreover have "events_kept ?d"
    unfolding events_kept_def
  proof
    fix k assume "k \<in> set (tail_event_keys ?d)"
    then have k: "k \<in> set (tail_event_keys d)" "\<not> pk k" by (simp_all add: tables)
    then consider b where "b \<in> set (tail_buffers d)" "bf_key b = ek_key k" "in_trace (ek_tenant k) (ek_trace k) b"
      | c where "c \<in> set (tail_decisions d)" "decision_key c = (ek_tenant k, ek_trace k)"
      using ek unfolding events_kept_def by blast
    then show "(\<exists>b \<in> set (tail_buffers ?d). bf_key b = ek_key k \<and> in_trace (ek_tenant k) (ek_trace k) b) \<or>
        (\<exists>c \<in> set (tail_decisions ?d). decision_key c = (ek_tenant k, ek_trace k))"
    proof cases
      case (1 b)
      then obtain r where r: "r \<in> set (tail_traces d)" "trace_key r = (bf_tenant b, bf_trace b)" "undecided r"
        using bo unfolding buffers_open_def is_trace_key by blast
      then have "\<not> pr r" using open_keys [OF k(1) r(1,3)] k(2) 1(3) by (auto simp: in_trace_def)
      then have "\<not> (\<exists>x \<in> set (tail_traces d). pr x \<and> is_trace (bf_tenant b) (bf_trace b) x)"
        using stays [OF r(1,2)] by blast
      then have "b \<in> set (tail_buffers ?d)" using 1(1) by (auto simp: tables list_ex_iff)
      with 1(2,3) show ?thesis by blast
    next
      case (2 c)
      then have "ek_created_at k \<le> dc_created_at c" using kd k(1) unfolding keys_dated_def by blast
      then have "\<not> pc c" using keys [OF k(1) 2] k(2) by blast
      then have "c \<in> set (tail_decisions ?d)" using 2(1) by (simp add: tables)
      with 2(2) show ?thesis by blast
    qed
  qed
  moreover have "keys_dated now ?d"
    using kd by (simp add: keys_dated_def tables)
  ultimately show ?thesis by (simp add: tail_ok_def)
qed


lemma timely_prune: "timely (each (tx_stmt now) statements)"
  by (intro timely_rules)

lemma DeleteTailDataBefore_effect:
  assumes "DeleteTailDataBefore tenantID cutoff s = (r, s')"
  obtains (unchanged) "\<exists>err. r = Inl err" "database s' = database s" "clock s \<le> clock s'"
  | (all) "database s' = pruned_db
       (\<lambda>m. ob_tenant m = tenantID \<and> ob_published_at m \<noteq> None \<and> ob_created_at m < cutoff)
       (\<lambda>k. ek_tenant k = tenantID \<and> ek_created_at k < cutoff)
       (\<lambda>c. dc_tenant c = tenantID \<and> dc_created_at c < cutoff)
       (\<lambda>r. tr_tenant r = tenantID \<and> (case tr_decided_at r of None \<Rightarrow> False | Some t \<Rightarrow> t < cutoff)) (database s)"
      "clock s \<le> clock s'"
  using assms [unfolded DeleteTailDataBefore_def] timely_prune
proof (cases rule: in_tx_cases)
  case (all a now)
  then show thesis using prune_effect that(2) by (meson order_trans)
qed (use unchanged in blast)

lemma DeleteTenantTailData_effect:
  assumes "DeleteTenantTailData tenantID s = (r, s')"
  obtains (unchanged) "\<exists>err. r = Inl err" "database s' = database s" "clock s \<le> clock s'"
  | (all) "database s' = pruned_db (\<lambda>m. ob_tenant m = tenantID) (\<lambda>k. ek_tenant k = tenantID)
       (\<lambda>c. dc_tenant c = tenantID) (\<lambda>r. tr_tenant r = tenantID) (database s)" "clock s \<le> clock s'"
  using assms [unfolded DeleteTenantTailData_def] timely_prune
proof (cases rule: in_tx_cases)
  case (all a now)
  then show thesis using prune_effect that(2) by (meson order_trans)
qed (use unchanged in blast)

text \<open>Nothing of a tenant is left in the tables of the tail buffer.\<close>

definition erased :: "string \<Rightarrow> db \<Rightarrow> bool" where
  "erased tenantID d =
     (tenantID \<notin> tr_tenant ` set (tail_traces d) \<union> bf_tenant ` set (tail_buffers d) \<union>
        ob_tenant ` set (tail_outbox d) \<union> ek_tenant ` set (tail_event_keys d) \<union> dc_tenant ` set (tail_decisions d))"

lemma DeleteTenantTailData_erases:
  assumes "buffers_open (database s)" and "DeleteTenantTailData t s = (Inr (), s')"
  shows "erased t (database s')"
  using assms(2)
proof (cases rule: DeleteTenantTailData_effect)
  case all
  have "\<exists>x \<in> set (tail_traces (database s)). tr_tenant x = t \<and> is_trace (bf_tenant b) (bf_trace b) x"
    if "b \<in> set (tail_buffers (database s))" "bf_tenant b = t" for b
    using assms(1) that unfolding buffers_open_def is_trace_def by blast
  then show ?thesis
    unfolding all(1) pruned_db_def erased_def by (auto simp: list_ex_iff)
qed simp

lemma DeleteTailDataBefore_ok:
  assumes "tail_ok hashtext now (database s)" and "DeleteTailDataBefore tenantID cutoff s = (r, s')"
  shows "tail_ok hashtext now (database s')"
  using assms(2)
proof (cases rule: DeleteTailDataBefore_effect)
  case all
  show ?thesis
    unfolding all
    by (rule pruned_db_ok [OF assms(1)]) (auto simp: trace_key_def decision_key_def undecided_def)
qed (use assms(1) in simp)

lemma DeleteTenantTailData_ok:
  assumes "tail_ok hashtext now (database s)" and "DeleteTenantTailData tenantID s = (r, s')"
  shows "tail_ok hashtext now (database s')"
  using assms(2)
proof (cases rule: DeleteTenantTailData_effect)
  case all
  show ?thesis
    unfolding all
    by (rule pruned_db_ok [OF assms(1)]) (auto simp: trace_key_def decision_key_def)
qed (use assms(1) in simp)

subsection \<open>Whole operations\<close>

lemma timely_stage_tx: "timely (stage_tx hashtext tenantID groups now)"
  unfolding stage_tx_def stageTraceTx_def buffer_events_def recheck_events_def evictOldestTailTrace_def
    evictTailTrace_def
  by (intro timely_rules)

lemma timely_decide_tx: "timely (decide_tx owner lease decision now)"
  unfolding decide_tx_def settle_tx_def by (intro timely_rules)

lemma stage_tx_ok:
  assumes "tail_ok hashtext now d" and "yields (stage_tx hashtext tenantID groups now) d u d'"
  shows "tail_ok hashtext now d'"
  using assms(2) [unfolded stage_tx_def] assms(1)
  by (rule yields_each_invariant) (auto split: prod.splits intro: stageTraceTx_ok)

lemma StageBatch_rejects:
  assumes "es \<noteq> []" and "TenantID (hd es) = [] \<or> list_ex (\<lambda>e. TenantID e \<noteq> TenantID (hd es)) es"
  shows "\<exists>err. StageBatch_pg hashtext visit es = fail_with err"
  using assms unfolding StageBatch_pg_def Let_def by (simp only: if_False if_True split: if_split) blast

lemma StageBatch_runs:
  assumes "es \<noteq> []" and "\<not> (TenantID (hd es) = [] \<or> list_ex (\<lambda>e. TenantID e \<noteq> TenantID (hd es)) es)"
  shows "StageBatch_pg hashtext visit es = in_tx (stage_tx hashtext (TenantID (hd es)) (visit (by_trace es)))"
    and "\<forall>e \<in> set es. TenantID e = TenantID (hd es)"
proof -
  show "StageBatch_pg hashtext visit es = in_tx (stage_tx hashtext (TenantID (hd es)) (visit (by_trace es)))"
    using assms unfolding StageBatch_pg_def Let_def by (simp only: if_False de_Morgan_disj not_False_eq_True)
  show "\<forall>e \<in> set es. TenantID e = TenantID (hd es)"
    using assms(2) unfolding list_ex_iff by blast
qed

lemma StageBatch_effect:
  assumes "StageBatch_pg hashtext visit es s = (r, s')"
  obtains (unchanged) "r = Inr () \<Longrightarrow> es = []" "database s' = database s" "clock s \<le> clock s'"
  | (all) now where "es \<noteq> []" "\<forall>e \<in> set es. TenantID e = TenantID (hd es)"
      "yields (stage_tx hashtext (TenantID (hd es)) (visit (by_trace es)) now) (database s) () (database s')"
      "clock s \<le> now" "now \<le> clock s'"
proof -
  let ?bad = "TenantID (hd es) = [] \<or> list_ex (\<lambda>e. TenantID e \<noteq> TenantID (hd es)) es"
  consider (skip) "es = []" | (rejected) "es \<noteq> []" "?bad" | (run) "es \<noteq> []" "\<not> ?bad" by blast
  then show thesis
  proof cases
    case skip
    then show thesis using assms by (intro unchanged) (simp_all add: StageBatch_pg_def)
  next
    case rejected
    then obtain err where "StageBatch_pg hashtext visit es = fail_with err" using StageBatch_rejects by blast
    then show thesis using assms by (intro unchanged) simp_all
  next
    case run
    note runs = StageBatch_runs(1) [OF run, of hashtext visit] StageBatch_runs(2) [OF run]
    from assms [unfolded runs(1)] timely_stage_tx show thesis
    proof (cases rule: in_tx_cases)
      case (all a now)
      show thesis by (rule that(2) [OF run(1) runs(2)]) (use all(1-3) in simp_all)
    qed (rule that(1), auto)
  qed
qed

text \<open>The invariant of a session: the tables agree, and no event key is from the future.\<close>

definition store_ok :: "(string \<Rightarrow> int) \<Rightarrow> pg \<Rightarrow> bool" where
  "store_ok hashtext s = tail_ok hashtext (clock s) (database s)"

lemma store_ok_later:
  assumes "store_ok hashtext s" and "database s' = database s" and "clock s \<le> clock s'"
  shows "store_ok hashtext s'"
  using tail_ok_later [OF assms(1) [unfolded store_ok_def] assms(3)] unfolding store_ok_def assms(2) .

lemma store_ok_tx:
  assumes "store_ok hashtext s" and "clock s \<le> now" "now \<le> clock s'"
    and "tail_ok hashtext now (database s) \<Longrightarrow> tail_ok hashtext now (database s')"
  shows "store_ok hashtext s'"
  unfolding store_ok_def
  by (rule tail_ok_later [OF assms(4) [OF tail_ok_later] assms(3)])
    (rule assms(1) [unfolded store_ok_def], rule assms(2))

lemma StageBatch_ok:
  assumes "store_ok hashtext s" and "StageBatch_pg hashtext visit es s = (r, s')"
  shows "store_ok hashtext s'"
  using assms(2)
proof (cases rule: StageBatch_effect)
  case (all t)
  show ?thesis by (rule store_ok_tx [OF assms(1) all(4,5) stage_tx_ok [OF _ all(3)]])
qed (rule store_ok_later [OF assms(1)])

lemma RecordTailDecision_effect:
  assumes "RecordTailDecision owner lease decision s = (r, s')"
  obtains (unchanged) "\<exists>err. r = Inl err" "database s' = database s" "clock s \<le> clock s'"
  | (all) b now where "yields (decide_tx owner lease decision now) (database s) b (database s')"
      "clock s \<le> now" "now \<le> clock s'" "r = Inr b \<or> r = Inl Unavailable"
  using assms [unfolded RecordTailDecision_def] timely_decide_tx by (cases rule: in_tx_cases)

lemma RecordTailDecision_ok:
  assumes "store_ok hashtext s" and "RecordTailDecision owner lease decision s = (r, s')"
  shows "store_ok hashtext s'"
  using assms(2)
proof (cases rule: RecordTailDecision_effect)
  case (all b t)
  show ?thesis by (rule store_ok_tx [OF assms(1) all(2,3) decide_tx_ok [OF _ all(1)]])
qed (rule store_ok_later [OF assms(1)])

lemma autocommit_ok:
  assumes "store_ok hashtext s" and "autocommit f s = (r, s')"
    and "\<And>locked now d a d'. tail_ok hashtext now d \<Longrightarrow> f locked now d = Inr (a, d') \<Longrightarrow> tail_ok hashtext now d'"
  shows "store_ok hashtext s'"
  using assms(2)
proof (cases rule: autocommit_cases)
  case (all a locked)
  show ?thesis by (rule store_ok_tx [OF assms(1) all(2) order_refl assms(3) [OF _ all(1)]])
qed (rule store_ok_later [OF assms(1)])

lemma ClaimTailTraces_ok:
  assumes "store_ok hashtext s" and "ClaimTailTraces owner quiet ttl limit s = (r, s')"
  shows "store_ok hashtext s'"
  by (rule autocommit_ok [OF assms(1) assms(2) [unfolded ClaimTailTraces_def Let_def] claim_traces_ok])

lemma ClaimTailOutbox_ok:
  assumes "store_ok hashtext s" and "ClaimTailOutbox owner ttl limit s = (r, s')"
  shows "store_ok hashtext s'"
  by (rule autocommit_ok [OF assms(1) assms(2) [unfolded ClaimTailOutbox_def Let_def] claim_outbox_ok])

lemma MarkTailOutboxPublished_autocommits:
  assumes "MarkTailOutboxPublished owner key s = (r, s')"
  obtains q where "autocommit (mark_published owner key) s = (q, s')" "r = Inr () \<longleftrightarrow> q = Inr 1"
  using assms by (auto simp: MarkTailOutboxPublished_def and_then_def split: sum.splits prod.splits if_splits)

lemma MarkTailOutboxPublished_ok:
  assumes "store_ok hashtext s" and "MarkTailOutboxPublished owner key s = (r, s')"
  shows "store_ok hashtext s'"
proof -
  obtain q where q: "autocommit (mark_published owner key) s = (q, s')"
    using MarkTailOutboxPublished_autocommits [OF assms(2)] .
  show ?thesis by (rule autocommit_ok [OF assms(1) q mark_published_ok])
qed

text \<open>Operations on the other tables.\<close>

lemma autocommit_elsewhere:
  assumes "store_ok hashtext s" and "autocommit f s = (r, s')"
    and "\<And>locked now d a d'. f locked now d = Inr (a, d') \<Longrightarrow>
      tail_traces d' = tail_traces d \<and> tail_buffers d' = tail_buffers d \<and> tail_outbox d' = tail_outbox d \<and>
      tail_event_keys d' = tail_event_keys d \<and> tail_decisions d' = tail_decisions d"
  shows "store_ok hashtext s'"
  using assms(1,2) by (rule autocommit_ok) (use assms(3) tail_ok_cong in blast)

lemma metadata_ok:
  assumes "store_ok hashtext s"
  shows "autocommit (claim_delivery key tenantID) s = (q1, s') \<Longrightarrow> store_ok hashtext s'"
    and "autocommit (settle_delivery key status err) s = (q2, s') \<Longrightarrow> store_ok hashtext s'"
    and "autocommit (insert_dead_letter letter_tenant letter_key version reason sha part offset) s = (q3, s') \<Longrightarrow> store_ok hashtext s'"
    and "autocommit (insert_audit tenantID action attrs) s = (q4, s') \<Longrightarrow> store_ok hashtext s'"
proof -
  show "autocommit (claim_delivery key tenantID) s = (q1, s') \<Longrightarrow> store_ok hashtext s'"
    by (rule autocommit_elsewhere [OF assms], assumption) (auto simp: claim_delivery_def split: option.splits if_splits)
  show "autocommit (settle_delivery key status err) s = (q2, s') \<Longrightarrow> store_ok hashtext s'"
    by (rule autocommit_elsewhere [OF assms], assumption) (auto simp: settle_delivery_def Let_def)
  show "autocommit (insert_dead_letter letter_tenant letter_key version reason sha part offset) s = (q3, s') \<Longrightarrow> store_ok hashtext s'"
    by (rule autocommit_elsewhere [OF assms], assumption) (auto simp: insert_dead_letter_def Let_def split: if_splits)
  show "autocommit (insert_audit tenantID action attrs) s = (q4, s') \<Longrightarrow> store_ok hashtext s'"
    by (rule autocommit_elsewhere [OF assms], assumption) (auto simp: insert_audit_def Let_def split: if_splits)
qed

lemma CreateTenantKey_ok:
  assumes "store_ok hashtext s" and "CreateTenantKey tenantID keyHash s = (r, s')"
  shows "store_ok hashtext s'"
proof -
  have "tail_ok hashtext now (database s') = tail_ok hashtext now (database s)" for now
    using CreateTenantKey_effect [OF assms(2)]
    by (intro tail_ok_cong) (auto simp: key_created_def dest: arg_cong [where f = tail_traces]
      arg_cong [where f = tail_buffers] arg_cong [where f = tail_outbox] arg_cong [where f = tail_event_keys]
      arg_cong [where f = tail_decisions])
  moreover have "clock s \<le> clock s'" using CreateTenantKey_effect [OF assms(2)] by blast
  ultimately show ?thesis using assms(1) tail_ok_later unfolding store_ok_def by blast
qed

end
