(* ===== verification/TailRuns.thy ===== *)
theory TailRuns
  imports TailLifecycle
begin

text \<open>
  Runs of \<^verbatim>\<open>internal/metadata\<close> as a whole: any number of workers and gateways calling the store in any
  order, over any faults of the database, and what holds in every state such a run reaches.
\<close>

subsection \<open>Runs\<close>

text \<open>
  One call of the store. The order in which \<^verbatim>\<open>StageBatch\<close> visits the traces of a batch is up to
  each call. \<open>elsewhere\<close> is what does not touch the tables: reads, time passing, and the fate
  of the coming statements.
\<close>

inductive store_step :: "(string \<Rightarrow> int) \<Rightarrow> pg \<Rightarrow> pg \<Rightarrow> bool" for hashtext where
  stage: "StageBatch_pg hashtext visit es s = (r1, s') \<Longrightarrow> store_step hashtext s s'"
| claim: "ClaimTailTraces owner quiet ttl limit s = (r2, s') \<Longrightarrow> store_step hashtext s s'"
| decide: "RecordTailDecision owner lease decision s = (r3, s') \<Longrightarrow> store_step hashtext s s'"
| claim_outbox: "ClaimTailOutbox owner ttl limit s = (r4, s') \<Longrightarrow> store_step hashtext s s'"
| mark: "MarkTailOutboxPublished owner key s = (r5, s') \<Longrightarrow> store_step hashtext s s'"
| expire: "DeleteTailDataBefore tenantID cutoff s = (r6, s') \<Longrightarrow> store_step hashtext s s'"
| erase: "DeleteTenantTailData tenantID s = (r7, s') \<Longrightarrow> store_step hashtext s s'"
| create_key: "CreateTenantKey tenantID keyHash s = (r8, s') \<Longrightarrow> store_step hashtext s s'"
| claim_delivery: "ClaimDelivery key tenantID s = (r9, s') \<Longrightarrow> store_step hashtext s s'"
| persisted: "MarkPersisted key s = (r10, s') \<Longrightarrow> store_step hashtext s s'"
| lost: "RecordLoss key errorClass s = (r11, s') \<Longrightarrow> store_step hashtext s s'"
| dead_letter: "RecordDeadLetter tenantID key version reason sha part offset s = (r12, s') \<Longrightarrow> store_step hashtext s s'"
| audit: "RecordAudit tenantID action metadata s = (r13, s') \<Longrightarrow> store_step hashtext s s'"
| elsewhere: "database s' = database s \<Longrightarrow> clock s \<le> clock s' \<Longrightarrow> store_step hashtext s s'"

definition tail_empty :: "db \<Rightarrow> bool" where
  "tail_empty d = (tail_traces d = [] \<and> tail_buffers d = [] \<and> tail_outbox d = [] \<and> tail_event_keys d = [] \<and>
     tail_decisions d = [])"

definition reachable :: "(string \<Rightarrow> int) \<Rightarrow> pg \<Rightarrow> bool" where
  "reachable hashtext s = (\<exists>s0. tail_empty (database s0) \<and> (store_step hashtext)\<^sup>*\<^sup>* s0 s)"

lemma store_step_ok: "store_step hashtext s s' \<Longrightarrow> store_ok hashtext s \<Longrightarrow> store_ok hashtext s'"
proof (induction rule: store_step.induct)
  case (expire tenantID cutoff s r s')
  from expire(1) have "clock s \<le> clock s'" by (rule DeleteTailDataBefore_effect)
  then show ?case using DeleteTailDataBefore_ok [OF _ expire(1)] expire(2) tail_ok_later
    unfolding store_ok_def by blast
next
  case (erase tenantID s r s')
  from erase(1) have "clock s \<le> clock s'" by (rule DeleteTenantTailData_effect)
  then show ?case using DeleteTenantTailData_ok [OF _ erase(1)] erase(2) tail_ok_later
    unfolding store_ok_def by blast
next
  case (claim_delivery key tenantID s r s')
  obtain q where "autocommit (claim_delivery key tenantID) s = (q, s')"
    using claim_delivery(1) by (auto simp: ClaimDelivery_def and_then_def split: sum.splits prod.splits option.splits)
  then show ?case by (rule metadata_ok(1) [OF claim_delivery(2)])
next
  case (persisted key s r s')
  then show ?case using MarkPersisted_settles metadata_ok(2) by blast
next
  case (lost key errorClass s r s')
  then show ?case using RecordLoss_settles metadata_ok(2) by blast
next
  case (dead_letter tenantID key version reason sha part offset s r s')
  then show ?case unfolding RecordDeadLetter_def Let_def using metadata_ok(3) by blast
next
  case (audit tenantID action metadata s r s')
  then show ?case unfolding RecordAudit_def using metadata_ok(4) by blast
qed (blast intro: StageBatch_ok ClaimTailTraces_ok RecordTailDecision_ok ClaimTailOutbox_ok
    MarkTailOutboxPublished_ok CreateTenantKey_ok store_ok_later)+

lemma reachable_ok:
  assumes "reachable hashtext s"
  shows "store_ok hashtext s"
proof -
  obtain s0 where s0: "tail_empty (database s0)" and run: "(store_step hashtext)\<^sup>*\<^sup>* s0 s"
    using assms unfolding reachable_def by blast
  have "store_ok hashtext s0"
    using s0 unfolding store_ok_def tail_empty_def by (intro tail_ok_empty) auto
  from run this show ?thesis by induction (auto intro: store_step_ok)
qed

lemma reachable_step: "reachable hashtext s \<Longrightarrow> store_step hashtext s s' \<Longrightarrow> reachable hashtext s'"
  unfolding reachable_def by (meson rtranclp.rtrancl_into_rtrancl)

subsection \<open>What staging records\<close>

lemma unique_keys_fold:
  fixes ks :: "string list"
  defines "step \<equiv> \<lambda>e keys. if EventKey e \<in> set keys then keys else keys @ [EventKey e]"
  shows "distinct ks \<Longrightarrow> distinct (fold step es ks) \<and> set (fold step es ks) = set ks \<union> EventKey ` set es"
  by (induction es arbitrary: ks) (auto simp: step_def)

lemma unique_keys_set: "distinct (unique_keys es)" "set (unique_keys es) = EventKey ` set es"
  using unique_keys_fold [of "[]" es] by (simp_all add: unique_keys_def)

lemma count_keys:
  assumes "unique_rows d" and "distinct ks"
    and "count_where (\<lambda>k. P k \<and> ek_key k \<in> set ks) (tail_event_keys d) = length ks"
  shows "set ks \<subseteq> ek_key ` set (tail_event_keys d)"
proof -
  let ?rows = "filter (\<lambda>k. P k \<and> ek_key k \<in> set ks) (tail_event_keys d)"
  have "distinct (map ek_key ?rows)"
    using assms(1) by (simp add: unique_rows_def distinct_map_filter)
  then have "card (ek_key ` set ?rows) = length ?rows"
    using distinct_card by fastforce
  moreover have "length ?rows = card (set ks)"
    using assms(2,3) by (simp add: count_where_def distinct_card)
  moreover have sub: "ek_key ` set ?rows \<subseteq> set ks" by auto
  ultimately have "ek_key ` set ?rows = set ks"
    using card_subset_eq [OF finite_set sub] by simp
  moreover have "ek_key ` set ?rows \<subseteq> ek_key ` set (tail_event_keys d)" by auto
  ultimately show ?thesis by (simp only:)
qed

lemma recheck_known:
  assumes "unique_rows d" and "yields (recheck_events now t i es) d u d'"
  shows "EventKey ` set es \<subseteq> ek_key ` set (tail_event_keys d)"
proof -
  have "count_where (\<lambda>k. (ek_tenant k = t \<and> ek_trace k = i) \<and> ek_key k \<in> set (unique_keys es)) (tail_event_keys d)
      = length (unique_keys es)"
    using assms(2) unfolding recheck_events_def Let_def conj_assoc
    by (elim yields_and_then yields_select) (simp split: if_split_asm)
  from count_keys [OF assms(1) unique_keys_set(1) this] show ?thesis by (simp add: unique_keys_set)
qed

lemma buffer_events_keys:
  assumes "yields (buffer_events now t i n es) d u d'"
  shows "ek_key ` set (tail_event_keys d') = ek_key ` set (tail_event_keys d) \<union> EventKey ` set es"
  using buffer_events_effect [OF assms]
proof
  assume "\<exists>keys. distinct keys \<and> set keys = new_keys es d \<and> n + length keys \<le> 200 \<and>
       length (new_batch es d) = length keys \<and> distinct (map EventKey (new_batch es d)) \<and>
       (\<forall>b \<in> set (tail_buffers d). bf_key b \<notin> new_keys es d) \<and>
       d' = buffered_db now t i keys (new_batch es d) d"
  then obtain keys where keys: "set keys = new_keys es d" and d': "d' = buffered_db now t i keys (new_batch es d) d"
    by blast
  have "ek_key ` set (tail_event_keys d') = ek_key ` set (tail_event_keys d) \<union> set keys"
    by (simp add: d' buffered_tables image_Un flip: set_map)
  then show ?thesis by (auto simp: keys new_keys_def)
qed (auto simp: new_keys_def)

lemma evictTailTrace_keys: "yields (evictTailTrace now t i reason) d u d' \<Longrightarrow> tail_event_keys d' = tail_event_keys d"
  by (auto simp: evictTailTrace_def select_def delete_buffers_def close_trace_def insert_decision_def Let_def
      elim!: yields_elims split: if_splits)

lemma stageTraceTx_keys:
  assumes "tail_ok hashtext now d" and "yields (stageTraceTx hashtext now t i es) d u d'"
  shows "ek_key ` set (tail_event_keys d') = ek_key ` set (tail_event_keys d) \<union> EventKey ` set es"
  using assms(2)
proof (cases rule: stageTraceTx_effect)
  case (retry r)
  then show ?thesis using recheck_known [OF _ retry(5)] assms(1) by (auto simp: tail_ok_def)
next
  case (extend r)
  show ?thesis by (rule buffer_events_keys [OF extend(4)])
next
  case (new d1)
  have "tail_event_keys d1 = tail_event_keys d"
    using new(2) evictTailTrace_keys by auto
  then show ?thesis using buffer_events_keys [OF new(3)] by (simp add: opened_db_def)
qed

lemma stage_tx_keys:
  assumes "yields (stage_tx hashtext t groups now) d u d'" and "tail_ok hashtext now d"
  shows "ek_key ` set (tail_event_keys d') =
    ek_key ` set (tail_event_keys d) \<union> (\<Union>(i, es) \<in> set groups. EventKey ` set es)"
  using assms
proof (induction groups arbitrary: d)
  case (Cons g groups)
  obtain i es where g: "g = (i, es)" by fastforce
  obtain d1 where d1: "yields (stageTraceTx hashtext now t i es) d () d1"
    and rest: "yields (stage_tx hashtext t groups now) d1 u d'"
    using Cons.prems(1) by (auto simp: stage_tx_def g elim!: yields_and_then)
  show ?case
    using Cons.IH [OF rest stageTraceTx_ok [OF Cons.prems(2) d1]] stageTraceTx_keys [OF Cons.prems(2) d1]
    by (auto simp: g)
qed (auto simp: stage_tx_def elim: yields_ret)

text \<open>A batch is split into its traces, each with its envelopes in their order.\<close>

lemma by_trace_snoc:
  "by_trace (es @ [e]) = AList.update (tailTraceID e) (get_or [] (by_trace es) (tailTraceID e) @ [e]) (by_trace es)"
  by (simp add: by_trace_def)

lemma by_trace_spec:
  "map_of (by_trace es) i =
     (case filter (\<lambda>e. tailTraceID e = i) es of [] \<Rightarrow> None | e # g \<Rightarrow> Some (e # g)) \<and> distinct (map fst (by_trace es))"
proof (induction es arbitrary: i rule: rev_induct)
  case (snoc e es)
  then show ?case
    by (auto simp: by_trace_snoc update_conv' get_or_def distinct_update split: list.splits)
qed (simp add: by_trace_def)

lemma by_trace_group:
  "(i, g) \<in> set (by_trace es) \<longleftrightarrow> g = filter (\<lambda>e. tailTraceID e = i) es \<and> g \<noteq> []"
  using by_trace_spec [of es i] map_of_is_SomeI [of "by_trace es" i g] map_of_SomeD [of "by_trace es" i g]
  by (auto split: list.splits)

lemma by_trace_covers: "(\<Union>(i, g) \<in> set (by_trace es). EventKey ` set g) = EventKey ` set es"
proof -
  have "\<exists>i g. (i, g) \<in> set (by_trace es) \<and> e \<in> set g" if "e \<in> set es" for e
    using that by (intro exI [of _ "tailTraceID e"]) (auto simp: by_trace_group filter_empty_conv)
  then show ?thesis by (fastforce simp: by_trace_group)
qed

text \<open>\<^verbatim>\<open>range\<close> over a map visits every entry once, in some order.\<close>

definition permutes_groups :: "visit \<Rightarrow> bool" where
  "permutes_groups visit = (\<forall>groups. mset (visit groups) = mset groups)"

lemma permutes_groups_set: "permutes_groups visit \<Longrightarrow> set (visit groups) = set groups"
  by (metis permutes_groups_def mset_eq_setD)

lemma StageBatch_keys:
  assumes "store_ok hashtext s" and "permutes_groups visit" and "StageBatch_pg hashtext visit es s = (r, s')"
  shows "database s' = database s \<and> (r = Inr () \<longrightarrow> es = []) \<or>
    ek_key ` set (tail_event_keys (database s')) = ek_key ` set (tail_event_keys (database s)) \<union> EventKey ` set es"
  using assms(3)
proof (cases rule: StageBatch_effect)
  case (all t)
  have "tail_ok hashtext t (database s)"
    using assms(1) all(4) tail_ok_later unfolding store_ok_def by blast
  from stage_tx_keys [OF all(3) this] show ?thesis
    by (simp add: permutes_groups_set [OF assms(2)] by_trace_covers)
qed blast

subsection \<open>Isolation of tenants\<close>

text \<open>
  A program is confined to a tenant when, whatever it does, the rows of the others stay as they
  are. Statements are, one by one, and the programs built from them inherit it.
\<close>

definition other_rows ::
  "string \<Rightarrow> db \<Rightarrow> trace_row list \<times> buffer_row list \<times> outbox_row list \<times> event_key_row list \<times> decision_row list" where
  "other_rows t d =
     (filter (\<lambda>r. tr_tenant r \<noteq> t) (tail_traces d), filter (\<lambda>b. bf_tenant b \<noteq> t) (tail_buffers d),
      filter (\<lambda>m. ob_tenant m \<noteq> t) (tail_outbox d), filter (\<lambda>k. ek_tenant k \<noteq> t) (tail_event_keys d),
      filter (\<lambda>c. dc_tenant c \<noteq> t) (tail_decisions d))"

definition confined :: "string \<Rightarrow> (pg, go_error, 'a) program \<Rightarrow> bool" where
  "confined t m = (\<forall>d a d'. yields m d a d' \<longrightarrow> other_rows t d' = other_rows t d)"

named_theorems confined_rules \<open>programs confined to a tenant\<close>

lemma confined_ret [confined_rules]: "confined t (ret a)"
  by (auto simp: confined_def elim: yields_ret)

lemma confined_fail_with [confined_rules]: "confined t (fail_with e)"
  by (simp add: confined_def)

lemma confined_and_then [confined_rules]: "confined t m \<Longrightarrow> (\<And>a. confined t (k a)) \<Longrightarrow> confined t (and_then m k)"
  unfolding confined_def by (metis yields_and_then)

lemma confined_each [confined_rules]: "(\<And>x. confined t (f x)) \<Longrightarrow> confined t (each f xs)"
  by (induction xs) (auto intro: confined_rules)

lemma confined_if [confined_rules]: "confined t m \<Longrightarrow> confined t n \<Longrightarrow> confined t (if b then m else n)"
  by simp

lemma confined_option [confined_rules]:
  "confined t m \<Longrightarrow> (\<And>a. confined t (n a)) \<Longrightarrow> confined t (case x of None \<Rightarrow> m | Some a \<Rightarrow> n a)"
  by (simp split: option.split)

lemma confined_prod [confined_rules]: "(\<And>a b. confined t (n a b)) \<Longrightarrow> confined t (case x of (a, b) \<Rightarrow> n a b)"
  by (simp split: prod.split)

lemma confined_Let [confined_rules]: "(\<And>a. confined t (n a)) \<Longrightarrow> confined t (let a = x in n a)"
  by simp

lemma confined_tx_stmt:
  assumes "\<And>locked d a d'. f locked now d = Inr (a, d') \<Longrightarrow> other_rows t d' = other_rows t d"
  shows "confined t (tx_stmt now f)"
  using assms unfolding confined_def by (metis yields_tx_stmt)

lemma filter_update_where:
  "(\<And>r. q r \<Longrightarrow> \<not> p r \<and> \<not> p (f r)) \<Longrightarrow> filter p (update_where q f rows) = filter p rows"
  by (induction rows) (auto simp: update_where_def)

lemma filter_delete_other: "(\<And>r. q r \<Longrightarrow> \<not> p r) \<Longrightarrow> filter p (delete_where q rows) = filter p rows"
  by (auto simp: intro: filter_cong)

lemma add_event_keys_other:
  "add_event_keys t i now keys rows = (ins, rows') \<Longrightarrow>
     filter (\<lambda>k. ek_tenant k \<noteq> t) rows' = filter (\<lambda>k. ek_tenant k \<noteq> t) rows"
  by (drule add_event_keys_eq) (auto simp: filter_empty_conv)

lemma confined_statements [confined_rules]:
  "confined t (tx_stmt now (select q))"
  "confined t (tx_stmt now (oldest_unlocked hashtext t' i))"
  "confined t (tx_stmt now (insert_trace t i))"
  "confined t (tx_stmt now (insert_event_keys t i keys))"
  "confined t (tx_stmt now (insert_buffers t i batch))"
  "confined t (tx_stmt now (touch_trace t i n))"
  "confined t (tx_stmt now (delete_buffers t i))"
  "confined t (tx_stmt now (close_trace p t i reason n))"
  "confined t (tx_stmt now (insert_decision b t i reason kept n))"
  "confined t (tx_stmt now (insert_outbox t key env))"
  by (intro confined_tx_stmt,
    auto simp: other_rows_def select_def oldest_unlocked_def insert_trace_def insert_event_keys_def
      insert_buffers_def touch_trace_def delete_buffers_def close_trace_def insert_decision_def insert_outbox_def
      Let_def is_trace_def in_trace_def filter_empty_conv simp del: filter_delete_where
      intro!: filter_update_where filter_delete_other
      dest!: add_event_keys_other split: if_splits prod.splits)+

lemma confined_transactions:
  "confined t (stage_tx hashtext t groups now)"
  "confined (LeaseTenant lease) (decide_tx owner lease decision now)"
  unfolding stage_tx_def stageTraceTx_def buffer_events_def recheck_events_def evictOldestTailTrace_def
    evictTailTrace_def decide_tx_def settle_tx_def Let_def
  by (intro confined_rules)+

lemma pruned_other_rows:
  assumes "\<And>m. po m \<Longrightarrow> ob_tenant m = t" and "\<And>k. pk k \<Longrightarrow> ek_tenant k = t"
    and "\<And>c. pc c \<Longrightarrow> dc_tenant c = t" and "\<And>r. pr r \<Longrightarrow> tr_tenant r = t"
  shows "other_rows t (pruned_db po pk pc pr d) = other_rows t d"
  using assms
  by (auto simp: other_rows_def pruned_db_def list_ex_iff is_trace_def simp del: filter_delete_where
      intro!: filter_delete_other)

lemma confined_stage:
  assumes "StageBatch_pg hashtext visit es s = (r, s')"
  shows "other_rows (TenantID (hd es)) (database s') = other_rows (TenantID (hd es)) (database s)"
  using assms
proof (cases rule: StageBatch_effect)
  case (all now)
  show ?thesis using confined_transactions(1) all(3) unfolding confined_def by blast
qed simp

lemma confined_calls:
  "RecordTailDecision owner lease decision s = (r1, s') \<Longrightarrow>
     other_rows (LeaseTenant lease) (database s') = other_rows (LeaseTenant lease) (database s)"
  "DeleteTailDataBefore t cutoff s = (r2, s') \<Longrightarrow> other_rows t (database s') = other_rows t (database s)"
  "DeleteTenantTailData t s = (r3, s') \<Longrightarrow> other_rows t (database s') = other_rows t (database s)"
  by (erule RecordTailDecision_effect DeleteTailDataBefore_effect DeleteTenantTailData_effect,
    use confined_transactions(2) in \<open>auto simp: confined_def intro!: pruned_other_rows\<close>)+

text \<open>
  C25. Tenants do not touch each other's telemetry: staging a batch, deciding a trace, expiring old data
  and erasing a tenant leave every trace, buffered event, outbox message, event key and decision
  of the other tenants exactly as it was, whether the call succeeds or fails.
\<close>

theorem tenants_isolated:
  "other_rows (TenantID (hd es)) (database (snd (StageBatch_pg hashtext visit es s)))
     = other_rows (TenantID (hd es)) (database s) \<and>
   other_rows (LeaseTenant lease) (database (snd (RecordTailDecision owner lease decision s)))
     = other_rows (LeaseTenant lease) (database s) \<and>
   other_rows t (database (snd (DeleteTailDataBefore t cutoff s))) = other_rows t (database s) \<and>
   other_rows t (database (snd (DeleteTenantTailData t s))) = other_rows t (database s)"
  using confined_stage [OF prod.collapse [symmetric]] confined_calls [OF prod.collapse [symmetric]] by blast

end
