(* ===== verification/TailGuarantees.thy ===== *)
theory TailGuarantees
  imports TailRuns
begin

text \<open>
  What the durable tail buffer promises to its callers, as properties of its operations and of every
  state its runs reach.
\<close>

subsection \<open>Bounds\<close>

lemma count_where_classes:
  "finite K \<Longrightarrow> (\<And>r. r \<in> set rows \<Longrightarrow> f r \<in> K) \<Longrightarrow> count_where p rows = (\<Sum>k \<in> K. count_where (\<lambda>r. p r \<and> f r = k) rows)"
proof (induction rows)
  case (Cons r rows)
  have "(\<Sum>k \<in> K. count_where (\<lambda>r. p r \<and> f r = k) (r # rows))
      = (\<Sum>k \<in> K. (if k = f r then if p r then 1 else 0 else 0) + count_where (\<lambda>r. p r \<and> f r = k) rows)"
    by (intro sum.cong) (auto simp: count_where_def)
  also have "\<dots> = (if p r then 1 else 0) + count_where p rows"
    using Cons by (simp add: sum.distrib)
  finally show ?case by (simp add: count_where_def)
qed (simp add: count_where_def)

lemma active_traces_bounded:
  assumes "shards_bounded hashtext d"
  shows "count_where (\<lambda>r. tr_tenant r = t \<and> undecided r) (tail_traces d) \<le> 1000"
proof -
  let ?f = "\<lambda>r :: trace_row. shard hashtext (tr_trace r)"
  have shards: "?f r \<in> {0..<10}" for r by (simp add: shard_def tailLockShards_def)
  have "count_where (\<lambda>r. (tr_tenant r = t \<and> undecided r) \<and> ?f r = k) (tail_traces d) \<le> 100" for k
  proof (cases "\<exists>r0 \<in> set (tail_traces d). ?f r0 = k")
    case True
    then obtain r0 where "?f r0 = k" by blast
    then have "(\<lambda>r. (tr_tenant r = t \<and> undecided r) \<and> ?f r = k) = active_in_shard hashtext t (tr_trace r0)"
      by (auto simp: active_in_shard_def)
    then show ?thesis using assms by (simp add: shards_bounded_def)
  next
    case False
    then have "count_where (\<lambda>r. (tr_tenant r = t \<and> undecided r) \<and> ?f r = k) (tail_traces d) = 0"
      unfolding count_where_0 by blast
    then show ?thesis by linarith
  qed
  then have "(\<Sum>k \<in> {0..<10}. count_where (\<lambda>r. (tr_tenant r = t \<and> undecided r) \<and> ?f r = k) (tail_traces d))
      \<le> of_nat (card {0..<10::int}) * 100"
    by (rule sum_bounded_above)
  then show ?thesis
    using count_where_classes [of "{0..<10}" "tail_traces d" ?f "\<lambda>r. tr_tenant r = t \<and> undecided r"] shards by simp
qed

lemma buffers_bounded:
  assumes "tail_ok hashtext now d"
  shows "count_where (in_trace t i) (tail_buffers d) \<le> 200"
proof (cases "count_where (in_trace t i) (tail_buffers d) = 0")
  case False
  then obtain b where "b \<in> set (tail_buffers d)" "in_trace t i b" by auto
  then obtain r where "r \<in> set (tail_traces d)" "is_trace t i r" "undecided r"
    using assms unfolding tail_ok_def buffers_open_def in_trace_def by blast
  then show ?thesis
    using assms unfolding tail_ok_def spans_counted_def is_trace_def by metis
qed linarith

text \<open>
  C22. The buffer is bounded: in every state that any calls of the store reach, over any faults, a
  tenant has at most \<^const>\<open>defaultTailMaxTraces\<close> undecided traces, and no trace has more than
  \<^const>\<open>defaultTailMaxSpans\<close> buffered events. Only a hundred traces fit one lock shard, and the ten
  shards together give the bound.
\<close>

theorem tail_bounded:
  assumes "reachable hashtext s"
  shows "count_where (\<lambda>r. tr_tenant r = t \<and> undecided r) (tail_traces (database s)) \<le> defaultTailMaxTraces \<and>
    count_where (in_trace t i) (tail_buffers (database s)) \<le> defaultTailMaxSpans"
proof -
  have ok: "tail_ok hashtext (clock s) (database s)"
    using reachable_ok [OF assms] by (simp only: store_ok_def)
  then have "shards_bounded hashtext (database s)" by (simp only: tail_ok_def)
  from active_traces_bounded [OF this] buffers_bounded [OF ok] show ?thesis
    by (simp add: tail_limits)
qed

text \<open>A session for the examples: one tenant, and a first span that was staged.\<close>

definition first_session :: pg where
  "first_session = \<lparr>database = empty_db\<lparr>tenants := [''tenant-a'']\<rparr>, clock = 0, script = []\<rparr>"

definition first_span :: envelope where
  "first_span = make_envelope ''tenant-a'' ''v1'' []
     \<lparr>EventID = ''e1'', Signal = ''trace'', TraceID = ''t1'', SpanID = ''s1'', ParentSpanID = '''',
      Name = ''checkout'', Attributes = []\<rparr>"

definition staged_session :: pg where
  "staged_session = snd (StageBatch_pg (\<lambda>_. 0) (\<lambda>groups. groups) [first_span] first_session)"

lemma first_reachable: "reachable hashtext first_session"
  unfolding reachable_def tail_empty_def by (rule exI [of _ first_session]) (simp add: first_session_def empty_db_def)

lemma staged_reachable: "reachable (\<lambda>_. 0) staged_session"
  unfolding staged_session_def
  by (rule reachable_step [OF first_reachable store_step.stage [OF prod.collapse [symmetric]]])

lemma tail_bounded_witness:
  "count_where (\<lambda>r. tr_tenant r = ''tenant-a'' \<and> undecided r) (tail_traces (database staged_session)) \<le> 1000"
  using tail_bounded [OF staged_reachable, of "''tenant-a''"] by (simp add: tail_limits)

subsection \<open>Nothing is lost silently\<close>




lemma staged_database:
  "tail_event_keys (database staged_session)
     = [\<lparr>ek_key = ''tenant-a:e1'', ek_tenant = ''tenant-a'', ek_trace = ''t1'', ek_created_at = 0\<rparr>]"
  "map bf_key (tail_buffers (database staged_session)) = [''tenant-a:e1'']"
  by code_simp+


definition adds_keys :: "envelope list \<Rightarrow> db \<Rightarrow> db \<Rightarrow> bool" where
  "adds_keys es d d' =
     (ek_key ` set (tail_event_keys d') = ek_key ` set (tail_event_keys d) \<union> EventKey ` set es)"

text \<open>
  C6. A batch is taken whole or not at all: after \<^verbatim>\<open>StageBatch\<close> either nothing has changed, or exactly the
  keys of all its events have been added to the remembered ones; after a success it is always the latter.
\<close>

theorem stage_all_or_nothing:
  assumes "reachable hashtext s" and "permutes_groups visit" and "StageBatch_pg hashtext visit es s = (r, s')"
  shows "(database s' = database s \<or> adds_keys es (database s) (database s')) \<and>
    (r = Inr () \<longrightarrow> adds_keys es (database s) (database s'))"
proof -
  have "store_ok hashtext s" using reachable_ok [OF assms(1)] .
  from StageBatch_keys [OF this assms(2,3)] show ?thesis unfolding adds_keys_def by auto
qed

lemma stage_all_or_nothing_witness:
  "ek_key ` set (tail_event_keys (database staged_session)) = {''tenant-a:e1''}"
proof -
  have run: "fst (StageBatch_pg (\<lambda>_. 0) (\<lambda>groups. groups) [first_span] first_session) = Inr ()"
    "tail_event_keys (database first_session) = []" "EventKey first_span = ''tenant-a:e1''" by code_simp+
  have "permutes_groups (\<lambda>groups. groups)" by (simp add: permutes_groups_def)
  from stage_all_or_nothing [OF first_reachable this prod.collapse [symmetric], of "\<lambda>_. 0" "[first_span]"]
  show ?thesis by (simp add: run adds_keys_def flip: staged_session_def)
qed

subsection \<open>Retries\<close>

lemma tx_select_quiet: "script s = [] \<Longrightarrow> tx_stmt now (select q) s = (Inr (q (database s)), s)"
  by (simp add: tx_stmt_quiet select_def)

lemma each_skip: "(\<And>x. x \<in> set xs \<Longrightarrow> f x s = (Inr (), s)) \<Longrightarrow> each f xs s = (Inr (), s)"
  by (induction xs) (auto simp: and_then_Inr)

lemma add_known_keys:
  "set keys \<subseteq> ek_key ` set rows \<Longrightarrow> add_event_keys t i now keys rows = ([], rows)"
  by (induction keys) (auto simp: list_ex_iff)

lemma buffer_known_events:
  assumes "script s = []" and "EventKey ` set es \<subseteq> ek_key ` set (tail_event_keys (database s))"
  shows "buffer_events now t i n es s = (Inr (), s)"
  using assms add_known_keys [of "map EventKey es" "tail_event_keys (database s)" t i now]
  by (simp add: buffer_events_def and_then_Inr tx_stmt_quiet insert_event_keys_def)

text \<open>Every event of a batch is remembered, under its own trace.\<close>

definition remembered :: "string \<Rightarrow> string \<Rightarrow> envelope list \<Rightarrow> db \<Rightarrow> bool" where
  "remembered t i es d =
     (\<forall>e \<in> set es. \<exists>k \<in> set (tail_event_keys d). ek_key k = EventKey e \<and> ek_tenant k = t \<and> ek_trace k = i)"

lemma recheck_remembered:
  assumes "unique_rows (database s)" and "script s = []" and "remembered t i es (database s)"
  shows "recheck_events now t i es s = (Inr (), s)"
proof -
  let ?keys = "tail_event_keys (database s)" let ?ks = "unique_keys es"
  let ?p = "\<lambda>k. ek_tenant k = t \<and> ek_trace k = i \<and> ek_key k \<in> set ?ks"
  have "distinct (map ek_key (filter ?p ?keys))"
    using assms(1) by (simp add: unique_rows_def distinct_map_filter)
  then have "count_where ?p ?keys = card (ek_key ` set (filter ?p ?keys))"
    unfolding count_where_def using distinct_card by fastforce
  moreover have "ek_key ` set (filter ?p ?keys) = set ?ks"
    using assms(3) unfolding unique_keys_set(2) remembered_def by force
  ultimately have "count_where ?p ?keys = length ?ks"
    using distinct_card [OF unique_keys_set(1)] by simp
  then show ?thesis
    using assms(2) by (simp add: recheck_events_def Let_def and_then_Inr tx_select_quiet)
qed

lemma remembered_trace:
  assumes "tail_ok hashtext now d" and "remembered t i es d" and "es \<noteq> []"
  obtains r where "find (is_trace t i) (tail_traces d) = Some r"
proof -
  obtain e k where k: "k \<in> set (tail_event_keys d)" "ek_tenant k = t" "ek_trace k = i"
    using assms(2,3) unfolding remembered_def by (cases es) auto
  have "\<exists>r \<in> set (tail_traces d). is_trace t i r"
    using assms(1) k unfolding tail_ok_def events_kept_def buffers_open_def decisions_close_def decision_key_def
      in_trace_def is_trace_key by (metis (no_types, lifting))
  then have "find (is_trace t i) (tail_traces d) \<noteq> None" by (auto simp: find_None_iff)
  then show thesis using that by blast
qed

lemma retry_trace:
  assumes "tail_ok hashtext (clock s) (database s)" and "script s = []" and "remembered t i es (database s)" and "es \<noteq> []"
  shows "stageTraceTx hashtext now t i es s = (Inr (), s)"
proof -
  obtain r where r: "find (is_trace t i) (tail_traces (database s)) = Some r"
    using remembered_trace [OF assms(1,3,4)] .
  have known: "EventKey ` set es \<subseteq> ek_key ` set (tail_event_keys (database s))"
    using assms(3) unfolding remembered_def by force
  have u: "unique_rows (database s)" using assms(1) by (simp only: tail_ok_def)
  show ?thesis
    using recheck_remembered [OF u assms(2,3)] buffer_known_events [OF assms(2) known]
    by (simp add: stageTraceTx_def and_then_Inr tx_select_quiet assms(2) r)
qed

text \<open>
  A retry is harmless: a batch whose events are all remembered is accepted again, even when its
  traces have been decided since, and changes nothing.
\<close>

theorem retry_accepted:
  assumes "reachable hashtext s" and "script s = []" and "permutes_groups visit" and "es \<noteq> []" and "t \<noteq> []"
    and "\<forall>e \<in> set es. TenantID e = t \<and> (\<exists>k \<in> set (tail_event_keys (database s)).
      ek_key k = EventKey e \<and> ek_tenant k = t \<and> ek_trace k = tailTraceID e)"
  shows "StageBatch_pg hashtext visit es s = (Inr (), s)"
proof -
  have ok: "tail_ok hashtext (clock s) (database s)"
    using reachable_ok [OF assms(1)] by (simp only: store_ok_def)
  have t: "TenantID (hd es) = t" using assms(4,6) by (cases es) auto
  have run: "StageBatch_pg hashtext visit es = in_tx (stage_tx hashtext t (visit (by_trace es)))"
    using StageBatch_runs(1) [OF assms(4)] assms(5,6) unfolding t list_ex_iff by blast
  have "stageTraceTx hashtext now t i g s = (Inr (), s)" if "(i, g) \<in> set (by_trace es)" for i g now
  proof (rule retry_trace [OF ok assms(2)])
    show "g \<noteq> []" using that unfolding by_trace_group by blast
    show "remembered t i g (database s)" using that assms(6) by (auto simp: by_trace_group remembered_def)
  qed
  then have "\<forall>(i, g) \<in> set (visit (by_trace es)). stageTraceTx hashtext now t i g s = (Inr (), s)" for now
    using permutes_groups_set [OF assms(3)] by auto
  then have "stage_tx hashtext t (visit (by_trace es)) now s = (Inr (), s)" for now
    unfolding stage_tx_def by (intro each_skip) auto
  then show ?thesis unfolding run by (rule in_tx_quiet [OF assms(2) _ assms(2)])
qed

lemma retry_accepted_witness:
  "StageBatch_pg (\<lambda>_. 0) (\<lambda>groups. groups) [first_span] staged_session = (Inr (), staged_session)"
proof -
  have "script staged_session = []" "TenantID first_span = ''tenant-a''" "EventKey first_span = ''tenant-a:e1''"
    "tailTraceID first_span = ''t1''" by code_simp+
  then show ?thesis
    using retry_accepted [OF staged_reachable, of "\<lambda>groups. groups" "[first_span]" "''tenant-a''"]
    by (simp add: permutes_groups_def staged_database)
qed

subsection \<open>Decisions and the outbox\<close>

lemma close_db_rows:
  "tail_outbox (close_db now t i reason kept out d) = out"
  "tail_buffers (close_db now t i reason kept out d) = delete_where (in_trace t i) (tail_buffers d)"
  "tail_decisions (close_db now t i reason kept out d) = tail_decisions d @
     [\<lparr>dc_tenant = t, dc_trace = i, dc_reason = reason, dc_retained = kept,
       dc_span_count = count_where (in_trace t i) (tail_buffers d), dc_created_at = now\<rparr>]"
  by (simp_all add: close_db_def Let_def)

text \<open>
  C12. A decision takes effect once, on the trace as it was leased, and keeps what it retains. When the trace is decided
  already, has changed since (its generation is another one), or its row does not name the caller as the owner of the
  lease, nothing changes and the caller is not told that it decided. Whether the lease has run out is not asked here,
  only whether another worker has taken it. A decision that is confirmed empties the buffer of its trace, is on record
  with the number of its events, and moves every buffered event to the outbox exactly when the trace is retained.
\<close>

theorem decision_settles:
  assumes "reachable hashtext s" and "RecordTailDecision owner lease decision s = (r, s')"
  shows "(\<not> lease_current owner lease (database s) \<longrightarrow> database s' = database s \<and> r \<noteq> Inr True) \<and>
    (r = Inr True \<longrightarrow>
      (let buffered = filter (in_trace (LeaseTenant lease) (LeaseTrace lease)) (tail_buffers (database s))
       in tail_buffers (database s') = delete_where (in_trace (LeaseTenant lease) (LeaseTrace lease)) (tail_buffers (database s)) \<and>
          (\<exists>c \<in> set (tail_decisions (database s')). dc_tenant c = LeaseTenant lease \<and> dc_trace c = LeaseTrace lease \<and>
             dc_reason c = Reason decision \<and> dc_retained c = Retained decision \<and> dc_span_count c = length buffered) \<and>
          prefix (tail_outbox (database s)) (tail_outbox (database s')) \<and>
          ob_key ` set (tail_outbox (database s')) = ob_key ` set (tail_outbox (database s)) \<union>
            (if Retained decision then bf_key ` set buffered else {})))"
proof -
  have u: "unique_rows (database s)"
    using reachable_ok [OF assms(1)] by (simp only: store_ok_def tail_ok_def)
  show ?thesis
    using assms(2)
  proof (cases rule: RecordTailDecision_effect)
    case (all b now)
    note eff = decide_tx_effect [OF all(1) u]
    show ?thesis
    proof (cases "lease_current owner lease (database s)")
      case True
      with eff have d: "database s' = close_db now (LeaseTenant lease) (LeaseTrace lease) (Reason decision) (Retained decision)
          (decided_outbox now lease decision (database s)) (database s)" by simp
      show ?thesis
        using True
        by (simp add: d close_db_rows Let_def count_where_def decided_outbox_def outbox_after_prefix
            outbox_after_keys buffered_rows_def)
    qed (use eff all(4) in auto)
  qed auto
qed

definition first_lease :: TailTraceLease where
  "first_lease = \<lparr>LeaseTenant = ''tenant-a'', LeaseTrace = ''t1'', Generation = 2\<rparr>"

definition leased_session :: pg where
  "leased_session = snd (ClaimTailTraces ''worker'' 0 30000000000 10 staged_session)"

definition failed_trace :: Decision where
  "failed_trace = \<lparr>DecisionTraceID = ''t1'', Reason = ''retained_error'', Retained = True,
     Evicted = False, Spans = []\<rparr>"

lemma leased_reachable: "reachable (\<lambda>_. 0) leased_session"
  unfolding leased_session_def
  by (rule reachable_step [OF staged_reachable store_step.claim [OF prod.collapse [symmetric]]])

lemma decision_settles_witness:
  "ob_key ` set (tail_outbox (database (snd (RecordTailDecision ''worker'' first_lease failed_trace leased_session))))
     = {''tenant-a:e1''}"
proof -
  have run: "fst (RecordTailDecision ''worker'' first_lease failed_trace leased_session) = Inr True"
    "tail_outbox (database leased_session) = []" "Retained failed_trace"
    "bf_key ` set (filter (in_trace (LeaseTenant first_lease) (LeaseTrace first_lease)) (tail_buffers (database leased_session)))
       = {''tenant-a:e1''}"
    by code_simp+
  from decision_settles [OF leased_reachable prod.collapse [symmetric], of "''worker''" first_lease failed_trace]
  show ?thesis by (simp only: run Let_def) simp
qed

text \<open>What a claim selects: at most as many rows as asked for, all of them eligible.\<close>

lemma claimed_rows:
  assumes "distinct (map key rows)"
  shows "length (filter (\<lambda>r. key r \<in> set (map key (take n (filter u (ordered_by f (filter p rows)))))) rows) \<le> n"
    and "r \<in> set rows \<Longrightarrow> key r \<in> set (map key (take n (filter u (ordered_by f (filter p rows))))) \<Longrightarrow> p r"
proof -
  let ?sel = "take n (filter u (ordered_by f (filter p rows)))"
  have eligible: "set ?sel \<subseteq> {r \<in> set rows. p r}"
    using set_take_subset [of n "filter u (ordered_by f (filter p rows))"] by auto
  let ?chosen = "filter (\<lambda>r. key r \<in> set (map key ?sel)) rows"
  have "length ?chosen = card (key ` set ?chosen)"
    using distinct_card [OF distinct_map_filter [OF assms]] by (simp only: set_map length_map)
  also have "\<dots> \<le> card (set (map key ?sel))" by (intro card_mono) auto
  also have "\<dots> \<le> n" using card_length [of "map key ?sel"] by simp
  finally show "length ?chosen \<le> n" .
  show "p r" if "r \<in> set rows" "key r \<in> set (map key ?sel)"
    using that eligible assms by (auto simp: distinct_map inj_on_def)
qed

lemma autocommit_returned:
  assumes "autocommit f s = (Inr a, s')"
  obtains locked where "f locked (clock s') (database s) = Inr (a, database s')"
  using assms by (cases rule: autocommit_cases) auto

lemma claim_traces_result:
  assumes "unique_rows d" and "claim_traces owner quiet ttl n locked now d = Inr (leases, d')"
  shows "length leases \<le> n \<and> set leases \<subseteq> lease_of ` {r \<in> set (tail_traces d). ready quiet now r}"
proof -
  let ?key = "\<lambda>r. (tr_tenant r, tr_trace r)"
  have u: "distinct (map ?key (tail_traces d))"
    using assms(1) by (simp add: unique_rows_def trace_key_def [abs_def])
  obtain sel where sel: "sel = map ?key (take n (filter (\<lambda>r. \<not> locked ''tail_traces'' [tr_tenant r, tr_trace r])
      (ordered_by tr_last_seen (filter (ready quiet now) (tail_traces d)))))" by blast
  have leases: "leases = map lease_of (filter (\<lambda>r. ?key r \<in> set sel) (tail_traces d))"
    using assms(2) unfolding claim_traces_def Let_def sel by blast
  show ?thesis
  proof
    show "length leases \<le> n" unfolding leases sel length_map by (rule claimed_rows(1) [OF u])
    have "set leases = lease_of ` {r \<in> set (tail_traces d). ?key r \<in> set sel}"
      unfolding leases by simp
    also have "\<dots> \<subseteq> lease_of ` {r \<in> set (tail_traces d). ready quiet now r}"
      unfolding sel by (intro image_mono) (use claimed_rows(2) [OF u] in blast)
    finally show "set leases \<subseteq> lease_of ` {r \<in> set (tail_traces d). ready quiet now r}" .
  qed
qed

lemma claim_outbox_result:
  assumes "unique_rows d" and "claim_outbox owner ttl n locked now d = Inr (messages, d')"
  shows "length messages \<le> n \<and> MsgKey ` set messages \<subseteq> ob_key ` {m \<in> set (tail_outbox d).
    ob_published_at m = None \<and> expired (ob_lease_expires m) now}"
proof -
  have u: "distinct (map ob_key (tail_outbox d))" using assms(1) by (simp add: unique_rows_def)
  obtain sel where sel: "sel = map ob_key (take n (filter (\<lambda>m. \<not> locked ''tail_outbox'' [ob_key m])
      (ordered_by ob_created_at
        (filter (\<lambda>m. ob_published_at m = None \<and> expired (ob_lease_expires m) now) (tail_outbox d)))))" by blast
  have messages: "messages = map (\<lambda>m. \<lparr>MsgKey = ob_key m, MsgEnvelope = ob_envelope m\<rparr>)
      (filter (\<lambda>m. ob_key m \<in> set sel) (tail_outbox d))"
    using assms(2) unfolding claim_outbox_def Let_def sel by blast
  show ?thesis
  proof
    show "length messages \<le> n" unfolding messages sel length_map by (rule claimed_rows(1) [OF u])
    have "MsgKey ` set messages = ob_key ` {m \<in> set (tail_outbox d). ob_key m \<in> set sel}"
      unfolding messages by (simp add: image_image)
    also have "\<dots> \<subseteq> ob_key ` {m \<in> set (tail_outbox d). ob_published_at m = None \<and> expired (ob_lease_expires m) now}"
      unfolding sel by (intro image_mono) (use claimed_rows(2) [OF u] in blast)
    finally show "MsgKey ` set messages \<subseteq> ob_key ` {m \<in> set (tail_outbox d).
        ob_published_at m = None \<and> expired (ob_lease_expires m) now}" .
  qed
qed

text \<open>
  C26. Leases exclude each other: a claim gives out at most as many traces and messages as asked for, and
  only quiet open traces and unpublished messages without a live lease of another worker.
\<close>

theorem claims_exclusive:
  assumes "reachable hashtext s" and "ClaimTailTraces owner quiet ttl limit s = (Inr leases, s1)"
    and "ClaimTailOutbox owner ttl limit s = (Inr messages, s2)"
  shows "length leases \<le> nat (max 1 limit) \<and> length messages \<le> nat (max 1 limit) \<and>
    set leases \<subseteq> lease_of ` {r \<in> set (tail_traces (database s)). undecided r \<and>
      expired (tr_lease_expires r) (clock s1) \<and> tr_last_seen r \<le> clock s1 - microseconds quiet} \<and>
    MsgKey ` set messages \<subseteq> ob_key ` {m \<in> set (tail_outbox (database s)). ob_published_at m = None \<and>
      expired (ob_lease_expires m) (clock s2)}"
proof -
  have u: "unique_rows (database s)"
    using reachable_ok [OF assms(1)] by (simp only: store_ok_def tail_ok_def)
  have limit: "nat (if limit < 1 then 1 else limit) = nat (max 1 limit)" by simp
  obtain l1 where l1: "claim_traces owner quiet ttl (nat (max 1 limit)) l1 (clock s1) (database s) = Inr (leases, database s1)"
    using assms(2) unfolding ClaimTailTraces_def Let_def limit by (rule autocommit_returned)
  obtain l2 where l2: "claim_outbox owner ttl (nat (max 1 limit)) l2 (clock s2) (database s) = Inr (messages, database s2)"
    using assms(3) unfolding ClaimTailOutbox_def Let_def limit by (rule autocommit_returned)
  have "{r \<in> set (tail_traces (database s)). ready quiet (clock s1) r}
      = {r \<in> set (tail_traces (database s)). undecided r \<and> expired (tr_lease_expires r) (clock s1) \<and>
          tr_last_seen r \<le> clock s1 - microseconds quiet}"
    unfolding ready_def by blast
  then show ?thesis
    using claim_traces_result [OF u l1] claim_outbox_result [OF u l2] by simp
qed

lemma claims_exclusive_witness:
  "length (case fst (ClaimTailTraces ''worker'' 0 30000000000 (-1) staged_session) of Inr leases \<Rightarrow> leases | _ \<Rightarrow> []) \<le> 1"
proof -
  have run: "fst (ClaimTailTraces ''worker'' 0 30000000000 (-1) staged_session) = Inr [first_lease]"
    "fst (ClaimTailOutbox ''worker'' 30000000000 (-1) staged_session) = Inr []"
    by code_simp+
  have first: "p = (Inr a, snd p)" if "fst p = Inr a" for p :: "(go_error + 'a) \<times> pg" and a
    using that by (metis prod.collapse)
  have "length [first_lease] \<le> nat (max 1 (-1))"
    using claims_exclusive [OF staged_reachable first [OF run(1)] first [OF run(2)]] by (elim conjE)
  then show ?thesis by (simp add: run)
qed

text \<open>
  Only the worker that holds a message can mark it published, and only once: a call that succeeds found
  the message unpublished under a lease of the caller and leaves it published; without such a
  message nothing changes.
\<close>

theorem published_by_holder:
  assumes "reachable hashtext s" and "MarkTailOutboxPublished owner key s = (r, s')"
  shows "(r = Inr () \<longrightarrow> (\<exists>m \<in> set (tail_outbox (database s)). ob_key m = key \<and> ob_lease_owner m = Some owner \<and>
        ob_published_at m = None) \<and>
      (\<forall>m \<in> set (tail_outbox (database s')). ob_key m = key \<longrightarrow> ob_published_at m \<noteq> None)) \<and>
    ((\<forall>m \<in> set (tail_outbox (database s)). ob_key m = key \<longrightarrow> ob_lease_owner m \<noteq> Some owner \<or> ob_published_at m \<noteq> None)
      \<longrightarrow> database s' = database s \<and> r \<noteq> Inr ())"
proof -
  let ?chosen = "\<lambda>m. ob_key m = key \<and> ob_lease_owner m = Some owner \<and> ob_published_at m = None"
  let ?out = "tail_outbox (database s)"
  have u: "distinct (map ob_key ?out)"
    using reachable_ok [OF assms(1)] unfolding store_ok_def tail_ok_def unique_rows_def by blast
  obtain q where q: "autocommit (mark_published owner key) s = (q, s')" "r = Inr () \<longleftrightarrow> q = Inr 1"
    using MarkTailOutboxPublished_autocommits [OF assms(2)] .
  from q(1) show ?thesis
  proof (cases rule: autocommit_cases)
    case (all a locked)
    let ?f = "\<lambda>m. m\<lparr>ob_published_at := Some (clock s'), ob_lease_owner := None, ob_lease_expires := None\<rparr>"
    have n: "a = count_where ?chosen ?out"
      and d: "database s' = database s\<lparr>tail_outbox := update_where ?chosen ?f ?out\<rparr>"
      using all(1) [symmetric] unfolding mark_published_def Let_def by simp_all
    have none: "database s' = database s" if "\<forall>m \<in> set ?out. \<not> ?chosen m"
    proof -
      have "update_where ?chosen ?f ?out = ?out"
        unfolding update_where_def by (rule map_idI) (use that in auto)
      then show ?thesis unfolding d by simp
    qed
    have zero: "a = 0 \<longleftrightarrow> (\<forall>m \<in> set ?out. \<not> ?chosen m)" unfolding n count_where_0 ..
    have published: "ob_published_at m' \<noteq> None"
      if m: "m \<in> set ?out" "?chosen m" and m': "m' \<in> set (tail_outbox (database s'))" "ob_key m' = key" for m m'
    proof -
      obtain m0 where m0: "m0 \<in> set ?out" "m' = (if ?chosen m0 then ?f m0 else m0)"
        using m'(1) unfolding d by (auto simp: update_where_def)
      show ?thesis
      proof (cases "?chosen m0")
        case False
        then have "m0 = m" using u m m0 m'(2) by (auto simp: distinct_map inj_on_def)
        with False m(2) show ?thesis by blast
      qed (use m0(2) in simp)
    qed
    show ?thesis
      using q(2) all(3) none zero published by (metis Inl_Inr_False Inr_inject One_nat_def zero_neq_one)
  qed (use q(2) in auto)
qed

lemma published_by_holder_witness:
  "fst (MarkTailOutboxPublished ''worker'' ''tenant-a:e1'' leased_session) \<noteq> Inr ()"
proof -
  have "tail_outbox (database leased_session) = []" by code_simp
  with published_by_holder [OF leased_reachable prod.collapse [symmetric]] show ?thesis by simp
qed

subsection \<open>Expiry and erasure\<close>

lemma filter_delete_none: "(\<And>r. r \<in> set rows \<Longrightarrow> p r \<Longrightarrow> \<not> q r) \<Longrightarrow> filter p (delete_where q rows) = filter p rows"
  by (induction rows) (auto simp: delete_where_def)

lemma delete_none: "(\<And>r. r \<in> set rows \<Longrightarrow> \<not> q r) \<Longrightarrow> delete_where q rows = rows"
  by (simp add: delete_where_def)

text \<open>What retention must never touch: buffered events, open traces and unpublished messages.\<close>

definition pending :: "db \<Rightarrow> buffer_row list \<times> trace_row list \<times> outbox_row list" where
  "pending d = (tail_buffers d, filter undecided (tail_traces d), filter (\<lambda>m. ob_published_at m = None) (tail_outbox d))"

lemma DeleteTailDataBefore_pending:
  assumes "buffers_open (database s)" and "unique_rows (database s)" and "DeleteTailDataBefore t cutoff s = (r, s')"
  shows "pending (database s') = pending (database s)"
  using assms(3)
proof (cases rule: DeleteTailDataBefore_effect)
  case all
  let ?pr = "\<lambda>r. tr_tenant r = t \<and> (case tr_decided_at r of None \<Rightarrow> False | Some x \<Rightarrow> x < cutoff)"
  have "\<not> ?pr x" if b: "b \<in> set (tail_buffers (database s))" and x: "x \<in> set (tail_traces (database s))"
      "is_trace (bf_tenant b) (bf_trace b) x" for b x
  proof -
    obtain y where y: "y \<in> set (tail_traces (database s))" "is_trace (bf_tenant b) (bf_trace b) y" "undecided y"
      using assms(1) b unfolding buffers_open_def by blast
    have "x = y" by (rule same_trace [OF assms(2) x(1) y(1)]) (use x(2) y(2) in \<open>simp add: is_trace_key\<close>)
    with y(3) show ?thesis by (simp add: undecided_def)
  qed
  then have "tail_buffers (database s') = tail_buffers (database s)"
    unfolding all(1) pruned_db_def by (auto simp: list_ex_iff intro!: delete_none)
  moreover have "filter undecided (tail_traces (database s')) = filter undecided (tail_traces (database s))"
    unfolding all(1) pruned_db_def
    by (simp del: filter_delete_where) (rule filter_delete_none, simp add: undecided_def)
  moreover have "filter (\<lambda>m. ob_published_at m = None) (tail_outbox (database s'))
      = filter (\<lambda>m. ob_published_at m = None) (tail_outbox (database s))"
    unfolding all(1) pruned_db_def by (simp del: filter_delete_where) (rule filter_delete_none, simp)
  ultimately show ?thesis by (simp add: pending_def)
qed (simp add: pending_def)

text \<open>
  Expiry never turns a delay into a loss: \<^verbatim>\<open>DeleteTailDataBefore\<close> leaves every buffered event, every open
  trace and every unpublished message in place, and when it succeeds nothing of the
  tenant that was decided, remembered or published before the cutoff is left.
\<close>

theorem expiry_keeps_pending:
  assumes "reachable hashtext s" and "DeleteTailDataBefore t cutoff s = (r, s')"
  shows "tail_buffers (database s') = tail_buffers (database s) \<and>
    filter undecided (tail_traces (database s')) = filter undecided (tail_traces (database s)) \<and>
    filter (\<lambda>m. ob_published_at m = None) (tail_outbox (database s'))
      = filter (\<lambda>m. ob_published_at m = None) (tail_outbox (database s)) \<and>
    (r = Inr () \<longrightarrow>
      (\<forall>x \<in> set (tail_traces (database s')). tr_tenant x = t \<longrightarrow> undecided x \<or> cutoff \<le> the (tr_decided_at x)) \<and>
      (\<forall>c \<in> set (tail_decisions (database s')). dc_tenant c = t \<longrightarrow> cutoff \<le> dc_created_at c) \<and>
      (\<forall>k \<in> set (tail_event_keys (database s')). ek_tenant k = t \<longrightarrow> cutoff \<le> ek_created_at k) \<and>
      (\<forall>m \<in> set (tail_outbox (database s')). ob_tenant m = t \<longrightarrow> ob_published_at m = None \<or> cutoff \<le> ob_created_at m))"
proof -
  have ok: "buffers_open (database s)" "unique_rows (database s)"
    using reachable_ok [OF assms(1)] by (simp_all only: store_ok_def tail_ok_def)
  have kept: "pending (database s') = pending (database s)"
    by (rule DeleteTailDataBefore_pending [OF ok assms(2)])
  from assms(2) show ?thesis
  proof (cases rule: DeleteTailDataBefore_effect)
    case all
    have "\<forall>x \<in> set (tail_traces (database s')). tr_tenant x = t \<longrightarrow> undecided x \<or> cutoff \<le> the (tr_decided_at x)"
      unfolding all(1) pruned_db_def by (auto simp: undecided_def not_less split: option.splits)
    moreover have "\<forall>c \<in> set (tail_decisions (database s')). dc_tenant c = t \<longrightarrow> cutoff \<le> dc_created_at c"
      "\<forall>k \<in> set (tail_event_keys (database s')). ek_tenant k = t \<longrightarrow> cutoff \<le> ek_created_at k"
      "\<forall>m \<in> set (tail_outbox (database s')). ob_tenant m = t \<longrightarrow> ob_published_at m = None \<or> cutoff \<le> ob_created_at m"
      unfolding all(1) pruned_db_def by (simp_all add: not_less)
    ultimately show ?thesis using kept unfolding pending_def by blast
  qed (use kept in \<open>auto simp: pending_def\<close>)
qed

lemma expiry_keeps_pending_witness:
  "tail_buffers (database (snd (DeleteTailDataBefore ''tenant-a'' 99 staged_session))) = tail_buffers (database staged_session)"
  using expiry_keeps_pending [OF staged_reachable prod.collapse [symmetric]] by blast



text \<open>
  An event that occurs twice in one batch is remembered once but inserted twice: the primary key of the buffer refuses
  the batch, and every retry of it.
\<close>

lemma repeated_event_refused:
  "fst (StageBatch_pg (\<lambda>_. 0) (\<lambda>groups. groups) [first_span, first_span] first_session) = Inl (Constraint ''tail_buffers_pkey'')"
  by code_simp

end
