(* ===== verification/QueryApi.thy ===== *)
theory QueryApi
  imports GatewayHttp Consumer TailGuarantees
begin

text \<open>
  \<^verbatim>\<open>internal/query/api.go\<close>: the read side of the platform. Every route runs after authentication and
  works on the tenant the authenticator named; deletion needs an explicit confirmation and removes the
  undelivered tail data before it asks ClickHouse for the stored telemetry.
\<close>

subsection \<open>The API and its requests\<close>

record 's trace_store =
  StoreTrace :: "string \<Rightarrow> string \<Rightarrow> ('s, go_error, Span list) program"
  StoreUsage :: "string \<Rightarrow> ('s, go_error, UsageMetrics) program"
  StoreDependencies :: "string \<Rightarrow> ('s, go_error, Dependency list) program"

record 's api =
  APIAuthenticator :: "(string \<Rightarrow> ('s, go_error, string option) program) option"
  APIStore :: "'s trace_store option"
  Deleter :: "(string \<Rightarrow> ('s, go_error, unit) program) option"
  TailDeleter :: "(string \<Rightarrow> ('s, go_error, unit) program) option"
  Auditor :: "(string \<Rightarrow> string \<Rightarrow> attrs \<Rightarrow> ('s, go_error, unit) program) option"
  AuditReader :: "(string \<Rightarrow> int \<Rightarrow> ('s, go_error, AuditEvent list) program) option"
  SamplingReader :: "(string \<Rightarrow> int \<Rightarrow> ('s, go_error, TailDecision list) program) option"

record query_request = http_request +
  DeleteConfirm :: string

text \<open>
  What is encoded as JSON. A nil slice is replaced by an empty one before it is encoded, so an
  answer holds a list.
\<close>

datatype query_body =
    ErrorText string
  | StateBody attrs
  | UsageBody UsageMetrics
  | DependenciesBody int "Dependency list"
  | AuditBody "AuditEvent list"
  | SamplingBody "TailDecision list"
  | TraceBody string "Span list"

record query_response =
  QueryStatus :: nat
  Answer :: query_body

definition query_error :: "string \<Rightarrow> nat \<Rightarrow> query_response" where
  "query_error message status = \<lparr>QueryStatus = status, Answer = ErrorText message\<rparr>"

definition query_not_found :: query_response where
  "query_not_found = query_error ''404 page not found'' 404"

definition json :: "query_body \<Rightarrow> query_response" where
  "json body = \<lparr>QueryStatus = 200, Answer = body\<rparr>"

text \<open>\<^verbatim>\<open>^[A-Za-z0-9_-]{1,128}$\<close> on a whole string.\<close>

definition trace_id_char :: "char \<Rightarrow> bool" where
  "trace_id_char c = (is_letter c \<or> is_digit c \<or> c = CHR ''_'' \<or> c = CHR ''-'')"

definition traceID_matches :: "string \<Rightarrow> bool" where
  "traceID_matches s = (1 \<le> length s \<and> length s \<le> 128 \<and> list_all trace_id_char s)"

subsection \<open>The handler\<close>

text \<open>A read: its error is a 503 with a fixed text, its value the body of a 200.\<close>

definition answer_with ::
  "string \<Rightarrow> ('a \<Rightarrow> query_body) \<Rightarrow> ('s, go_error, 'a) program \<Rightarrow> 's \<Rightarrow> query_response \<times> 's" where
  "answer_with failure body m s =
     (case m s of
        (Inl err, s) \<Rightarrow> (query_error failure 503, s)
      | (Inr a, s) \<Rightarrow> (json (body a), s))"

definition serve_deletion :: "'s api \<Rightarrow> query_request \<Rightarrow> string \<Rightarrow> 's \<Rightarrow> query_response \<times> 's" where
  "serve_deletion a r tenant s =
     (if Method r \<noteq> ''POST'' \<or> DeleteConfirm r \<noteq> ''DELETE_SANITIZED_TELEMETRY''
      then (query_error ''explicit deletion confirmation required'' 400, s)
      else case (Deleter a, TailDeleter a, Auditor a) of
        (Some deleteTenantTelemetry, Some deleteTenantTailData, Some recordAudit) \<Rightarrow>
          (case deleteTenantTailData tenant s of
             (Inl err, s) \<Rightarrow> (query_error ''deletion unavailable'' 503, s)
           | (Inr _, s) \<Rightarrow>
               (case deleteTenantTelemetry tenant s of
                  (Inl err, s) \<Rightarrow> (query_error ''deletion unavailable'' 503, s)
                | (Inr _, s) \<Rightarrow>
                    answer_with ''deletion audit unavailable''
                      (\<lambda>_. StateBody [(''state'', ''mutation_requested''), (''scope'', ''all_sanitized_telemetry'')])
                      (recordAudit tenant ''tenant_telemetry_deletion_requested''
                         [(''scope'', ''clickhouse_mutation_requested_and_tail_data_deleted''),
                          (''state'', ''mutation_requested'')]) s))
      | _ \<Rightarrow> (query_error ''deletion unavailable'' 503, s))"

definition serve_read :: "'s api \<Rightarrow> 's trace_store \<Rightarrow> query_request \<Rightarrow> string \<Rightarrow> 's \<Rightarrow> query_response \<times> 's" where
  "serve_read a store r tenant s =
     (if Path r = ''/v1/metrics'' then
        answer_with ''query unavailable'' UsageBody (StoreUsage store tenant) s
      else if Path r = ''/v1/dependencies'' then
        answer_with ''query unavailable'' (DependenciesBody 24) (StoreDependencies store tenant) s
      else if Path r = ''/v1/audit'' then
        (case AuditReader a of
           None \<Rightarrow> (query_error ''audit unavailable'' 503, s)
         | Some auditEvents \<Rightarrow> answer_with ''audit unavailable'' AuditBody (auditEvents tenant 100) s)
      else if Path r = ''/v1/sampling'' then
        (case SamplingReader a of
           None \<Rightarrow> (query_error ''sampling unavailable'' 503, s)
         | Some tailDecisions \<Rightarrow> answer_with ''sampling unavailable'' SamplingBody (tailDecisions tenant 100) s)
      else if \<not> has_prefix (Path r) ''/v1/traces/'' then (query_not_found, s)
      else let trace = trim_prefix (Path r) ''/v1/traces/''
           in if \<not> traceID_matches trace then (query_error ''invalid trace id'' 400, s)
              else answer_with ''query unavailable'' (TraceBody trace) (StoreTrace store tenant trace) s)"

definition query_ServeHTTP :: "'s api \<Rightarrow> query_request \<Rightarrow> 's \<Rightarrow> query_response \<times> 's" where
  "query_ServeHTTP a r s =
     (if Method r \<noteq> ''GET'' \<and> Method r \<noteq> ''POST'' then (query_not_found, s)
      else case (APIAuthenticator a, APIStore a) of
        (Some authenticate, Some store) \<Rightarrow>
          (case authenticate (APIKey r) s of
             (Inl err, s) \<Rightarrow> (query_error ''query unavailable'' 503, s)
           | (Inr None, s) \<Rightarrow> (query_error ''unauthorized'' 401, s)
           | (Inr (Some tenant), s) \<Rightarrow>
               if Path r = ''/v1/retention/delete'' then serve_deletion a r tenant s
               else if Method r \<noteq> ''GET'' then (query_not_found, s)
               else serve_read a store r tenant s)
      | _ \<Rightarrow> (query_error ''query unavailable'' 503, s))"

subsection \<open>What the API needs\<close>

text \<open>
  The contract of the stores behind the API. \<open>data\<close> is what they hold; authentication and the five reads
  leave it alone, deleting tail data erases it, and the record of a deletion is kept with it.
  \<open>asked\<close> says that ClickHouse was asked to delete the telemetry of a tenant.
\<close>

locale query_backend =
  fixes a :: "'s api" and data :: "'s \<Rightarrow> 'd" and sane :: "'d \<Rightarrow> bool"
    and gone :: "string \<Rightarrow> 'd \<Rightarrow> bool" and audited :: "string \<Rightarrow> 'd \<Rightarrow> bool" and asked :: "string \<Rightarrow> 's \<Rightarrow> bool"
  assumes authenticate_reads: "APIAuthenticator a = Some f \<Longrightarrow> f key s = (r1, s') \<Longrightarrow> data s' = data s"
    and trace_reads: "APIStore a = Some store \<Longrightarrow> StoreTrace store t i s = (r2, s') \<Longrightarrow> data s' = data s"
    and usage_reads: "APIStore a = Some store \<Longrightarrow> StoreUsage store t s = (r3, s') \<Longrightarrow> data s' = data s"
    and dependencies_read: "APIStore a = Some store \<Longrightarrow> StoreDependencies store t s = (r4, s') \<Longrightarrow> data s' = data s"
    and audit_reads: "AuditReader a = Some g \<Longrightarrow> g t n s = (r5, s') \<Longrightarrow> data s' = data s"
    and sampling_reads: "SamplingReader a = Some h \<Longrightarrow> h t n s = (r6, s') \<Longrightarrow> data s' = data s"
    and tail_erases: "TailDeleter a = Some k \<Longrightarrow> sane (data s) \<Longrightarrow> k t s = (Inr (), s') \<Longrightarrow> gone t (data s')"
    and telemetry_asked: "Deleter a = Some k \<Longrightarrow> k t s = (Inr (), s') \<Longrightarrow> data s' = data s \<and> asked t s'"
    and audit_records: "Auditor a = Some l \<Longrightarrow> l t ''tenant_telemetry_deletion_requested'' m s = (Inr (), s') \<Longrightarrow>
      audited t (data s') \<and> (gone t (data s) \<longrightarrow> gone t (data s')) \<and> (asked t s \<longrightarrow> asked t s')"
begin

lemma answer_with_reads:
  assumes "\<And>r s'. m s = (r, s') \<Longrightarrow> data s' = data s"
  shows "data (snd (answer_with failure body m s)) = data s"
  using assms by (auto simp: answer_with_def split: prod.splits sum.splits)

lemma serve_read_reads:
  assumes "APIStore a = Some store"
  shows "data (snd (serve_read a store r tenant s)) = data s"
proof -
  have "data (snd (answer_with failure body (StoreTrace store tenant i) s)) = data s" for failure body i
    by (rule answer_with_reads) (rule trace_reads [OF assms])
  moreover have "data (snd (answer_with failure body (StoreUsage store tenant) s)) = data s" for failure body
    by (rule answer_with_reads) (rule usage_reads [OF assms])
  moreover have "data (snd (answer_with failure body (StoreDependencies store tenant) s)) = data s" for failure body
    by (rule answer_with_reads) (rule dependencies_read [OF assms])
  moreover have "data (snd (answer_with failure body (g tenant n) s)) = data s"
    if "AuditReader a = Some g" for failure body g n
    by (rule answer_with_reads) (rule audit_reads [OF that])
  moreover have "data (snd (answer_with failure body (h tenant n) s)) = data s"
    if "SamplingReader a = Some h" for failure body h n
    by (rule answer_with_reads) (rule sampling_reads [OF that])
  ultimately show ?thesis by (simp add: serve_read_def Let_def split: option.splits)
qed

text \<open>Nothing but a confirmed deletion changes what the stores hold.\<close>

lemma only_deletion_writes:
  assumes "\<not> (Method r = ''POST'' \<and> Path r = ''/v1/retention/delete'' \<and> DeleteConfirm r = ''DELETE_SANITIZED_TELEMETRY'')"
  shows "data (snd (query_ServeHTTP a r s)) = data s"
proof (cases "APIAuthenticator a")
  case (Some f)
  obtain who s1 where who: "f (APIKey r) s = (who, s1)" by fastforce
  have s1: "data s1 = data s" by (rule authenticate_reads [OF Some who])
  have deletion: "serve_deletion a r tenant s1 = (query_error ''explicit deletion confirmation required'' 400, s1)"
    if "Path r = ''/v1/retention/delete''" for tenant
    using assms that by (auto simp: serve_deletion_def)
  show ?thesis
    using who s1 Some serve_read_reads
    by (auto simp: query_ServeHTTP_def deletion split: option.splits sum.splits)
qed (simp add: query_ServeHTTP_def)

lemma deletion_complete:
  assumes "sane (data s)" and "query_ServeHTTP a r s = (response, s')"
    and "Path r = ''/v1/retention/delete''" and "QueryStatus response = 200"
  obtains f tenant s1 where "APIAuthenticator a = Some f" "f (APIKey r) s = (Inr (Some tenant), s1)"
    "Method r = ''POST''" "DeleteConfirm r = ''DELETE_SANITIZED_TELEMETRY''"
    "gone tenant (data s')" "audited tenant (data s')" "asked tenant s'"
proof -
  obtain f tenant s1 where f: "APIAuthenticator a = Some f" "f (APIKey r) s = (Inr (Some tenant), s1)"
    and served: "serve_deletion a r tenant s1 = (response, s')"
    using assms(2-4)
    by (auto simp: query_ServeHTTP_def query_error_def query_not_found_def split: if_splits option.splits prod.splits sum.splits)
  have s1: "sane (data s1)" using authenticate_reads [OF f] assms(1) by simp
  have confirmed: "Method r = ''POST''" "DeleteConfirm r = ''DELETE_SANITIZED_TELEMETRY''"
    using served assms(4) by (auto simp: serve_deletion_def query_error_def split: if_splits)
  obtain del tail rec s2 s3 where calls: "Deleter a = Some del" "TailDeleter a = Some tail" "Auditor a = Some rec"
      "tail tenant s1 = (Inr (), s2)" "del tenant s2 = (Inr (), s3)"
    and recorded: "answer_with ''deletion audit unavailable''
      (\<lambda>_. StateBody [(''state'', ''mutation_requested''), (''scope'', ''all_sanitized_telemetry'')])
      (rec tenant ''tenant_telemetry_deletion_requested''
         [(''scope'', ''clickhouse_mutation_requested_and_tail_data_deleted''),
          (''state'', ''mutation_requested'')]) s3 = (response, s')"
    using served assms(4)
    by (auto simp: serve_deletion_def query_error_def split: if_splits option.splits prod.splits sum.splits)
  have s': "rec tenant ''tenant_telemetry_deletion_requested''
         [(''scope'', ''clickhouse_mutation_requested_and_tail_data_deleted''),
          (''state'', ''mutation_requested'')] s3 = (Inr (), s')"
    using recorded assms(4) by (auto simp: answer_with_def query_error_def split: prod.splits sum.splits)
  show thesis
    using that f confirmed tail_erases [OF calls(2) s1 calls(4)] telemetry_asked [OF calls(1,5)]
      audit_records [OF calls(3) s'] by metis
qed

end

subsection \<open>The query service\<close>

text \<open>The API as \<^verbatim>\<open>cmd/query/main.go\<close> assembles it: PostgreSQL for everything but the stored telemetry.\<close>

definition pg_api :: "ch_codecs \<Rightarrow> 'c transport \<Rightarrow> string \<Rightarrow> ('c, 'k) telemetry_world api" where
  "pg_api codecs send endpoint =
     \<lparr>APIAuthenticator = Some (\<lambda>key. on_ledger (Tenant key)),
      APIStore = Some
        \<lparr>StoreTrace = \<lambda>tenant trace. on_clickhouse (QueryTrace codecs send (NewClickHouse endpoint) tenant trace),
         StoreUsage = \<lambda>tenant. on_clickhouse (QueryUsage codecs send (NewClickHouse endpoint) tenant),
         StoreDependencies = \<lambda>tenant. on_clickhouse (QueryDependencies codecs send (NewClickHouse endpoint) tenant)\<rparr>,
      Deleter = Some (\<lambda>tenant. on_clickhouse (DeleteTenantTelemetry codecs send (NewClickHouse endpoint) tenant)),
      TailDeleter = Some (\<lambda>tenant. on_ledger (DeleteTenantTailData tenant)),
      Auditor = Some (\<lambda>tenant action m. on_ledger (RecordAudit tenant action m)),
      AuditReader = Some (\<lambda>tenant limit. on_ledger (AuditEvents tenant limit)),
      SamplingReader = Some (\<lambda>tenant limit. on_ledger (TailDecisions tenant limit))\<rparr>"

definition deletion_audited :: "string \<Rightarrow> db \<Rightarrow> bool" where
  "deletion_audited tenant d =
     list_ex (\<lambda>r. au_tenant r = Some tenant \<and> au_action r = ''tenant_telemetry_deletion_requested'') (audit_events d)"

text \<open>
  What a deletion relies on of ClickHouse: a server that answers the erase statement of a tenant with a
  status of class 2 has accepted it. \<open>asked\<close> is the set of tenants it has accepted one for.
\<close>

definition clickhouse_erases :: "'c transport \<Rightarrow> ('c \<Rightarrow> string set) \<Rightarrow> bool" where
  "clickhouse_erases send asked =
     (\<forall>tenant q st status body st'. scoped tenant q \<longrightarrow> map_of (ChParams q) ''query'' = Some erase_query \<longrightarrow>
        send q st = (Inr (status, body), st') \<longrightarrow> status div 100 = 2 \<longrightarrow> tenant \<in> asked st')"

lemma DeleteTenantTelemetry_asks:
  fixes send :: "'c transport"
  assumes "clickhouse_erases send asked" and "DeleteTenantTelemetry codecs send endpoint tenant st = (Inr (), st')"
  shows "tenant \<in> asked st'"
proof -
  obtain body where run: "parameterized codecs send endpoint erase_query [(''param_tenant'', tenant)] st = (Inr body, st')"
    using assms(2) by (auto simp: DeleteTenantTelemetry_def and_then_def split: prod.splits sum.splits)
  show ?thesis
  proof (cases "ParseURL codecs (endpoint @ ''/'')")
    case (Some url)
    then obtain base start where url: "ParseURL codecs (endpoint @ ''/'') = Some (base, start)" by (cases url) auto
    obtain q where q: "scoped tenant q" "map_of (ChParams q) ''query'' = Some erase_query"
      and request: "\<And>send :: 'c transport.
        parameterized codecs send endpoint erase_query [(''param_tenant'', tenant)] = do_request send q"
      by (rule parameterized_request [OF url, of erase_query "[(''param_tenant'', tenant)]" tenant])
        (auto intro: that)
    obtain status where "send q st = (Inr (status, body), st')" "status div 100 = 2"
      using run unfolding request
      by (auto simp: do_request_def and_then_def split: prod.splits sum.splits if_splits)
    with assms(1) q show ?thesis unfolding clickhouse_erases_def by blast
  qed (use run in \<open>simp add: parameterized_def\<close>)
qed

lemma select_reads: "autocommit (select q) s = (r, s') \<Longrightarrow> database s' = database s"
  by (erule autocommit_cases) (simp_all add: select_def)

lemma RecordAudit_effect:
  assumes "RecordAudit tenant action m s = (Inr (), s')"
  shows "erased t (database s') = erased t (database s)"
    and "\<exists>r \<in> set (audit_events (database s')). au_tenant r = Some tenant \<and> au_action r = action"
proof -
  have "insert_audit tenant action m locked now d = Inr (u, d') \<Longrightarrow>
      erased t d' = erased t d \<and> (\<exists>r \<in> set (audit_events d'). au_tenant r = Some tenant \<and> au_action r = action)"
    for locked now d d' u
    by (auto simp: insert_audit_def erased_def split: if_splits)
  then show "erased t (database s') = erased t (database s)"
    and "\<exists>r \<in> set (audit_events (database s')). au_tenant r = Some tenant \<and> au_action r = action"
    using assms unfolding RecordAudit_def by (auto elim!: autocommit_cases)
qed

lemma pg_query_backend:
  assumes "clickhouse_erases send asked"
  shows "query_backend (pg_api codecs send endpoint) (\<lambda>w. database (ledger_db w)) buffers_open erased deletion_audited
    (\<lambda>t w. t \<in> asked (clickhouse w))"
proof (unfold_locales, goal_cases)
  case (1 f key s r s')
  then show ?case by (auto simp: pg_api_def Tenant_def elim!: onE select_reads)
next
  case (2 store t i s r s')
  then show ?case by (auto simp: pg_api_def elim!: onE)
next
  case (3 store t s r s')
  then show ?case by (auto simp: pg_api_def elim!: onE)
next
  case (4 store t s r s')
  then show ?case by (auto simp: pg_api_def elim!: onE)
next
  case (5 g t n s r s')
  then show ?case by (auto simp: pg_api_def AuditEvents_def Let_def elim!: onE select_reads)
next
  case (6 h t n s r s')
  then show ?case by (auto simp: pg_api_def TailDecisions_def Let_def elim!: onE select_reads)
next
  case (7 k s t s')
  then show ?case by (auto simp: pg_api_def elim!: onE DeleteTenantTailData_erases)
next
  case (8 k t s s')
  then show ?case by (auto simp: pg_api_def elim!: onE DeleteTenantTelemetry_asks [OF assms])
next
  case (9 l t m s s')
  then show ?case
    by (auto simp: pg_api_def deletion_audited_def list_ex_iff RecordAudit_effect(1) elim!: onE dest: RecordAudit_effect(2))
qed

text \<open>A server that keeps what it is sent.\<close>

definition sent_erasures :: "ch_request list \<Rightarrow> string set" where
  "sent_erasures sent =
     {tenant. \<exists>q \<in> set sent. scoped tenant q \<and> map_of (ChParams q) ''query'' = Some erase_query}"

lemma record_send_erases: "clickhouse_erases record_send sent_erasures"
  by (auto simp: clickhouse_erases_def record_send_def sent_erasures_def)

abbreviation recording_api :: "(ch_request list, broker_message list) telemetry_world api" where
  "recording_api \<equiv> pg_api key_codecs record_send ''http://clickhouse:8123''"

interpretation recording_query: query_backend recording_api "\<lambda>w. database (ledger_db w)" buffers_open erased
  deletion_audited "\<lambda>t w. t \<in> sent_erasures (clickhouse w)"
  by (rule pg_query_backend [OF record_send_erases])

subsection \<open>What the API guarantees\<close>

text \<open>What an API can do in the name of one tenant.\<close>

definition tenant_view ::
  "string \<Rightarrow> 's api \<Rightarrow>
    ((string \<Rightarrow> ('s, go_error, Span list) program) \<times> ('s, go_error, UsageMetrics) program
       \<times> ('s, go_error, Dependency list) program) option
    \<times> ('s, go_error, unit) program option \<times> ('s, go_error, unit) program option
    \<times> (string \<Rightarrow> attrs \<Rightarrow> ('s, go_error, unit) program) option
    \<times> (int \<Rightarrow> ('s, go_error, AuditEvent list) program) option
    \<times> (int \<Rightarrow> ('s, go_error, TailDecision list) program) option" where
  "tenant_view tenant a =
     (map_option (\<lambda>st. (StoreTrace st tenant, StoreUsage st tenant, StoreDependencies st tenant)) (APIStore a),
      map_option (\<lambda>f. f tenant) (Deleter a), map_option (\<lambda>f. f tenant) (TailDeleter a),
      map_option (\<lambda>f. f tenant) (Auditor a), map_option (\<lambda>f. f tenant) (AuditReader a),
      map_option (\<lambda>f. f tenant) (SamplingReader a))"

lemma serve_deletion_view:
  assumes "tenant_view tenant a = tenant_view tenant b"
  shows "serve_deletion a r tenant s = serve_deletion b r tenant s"
  using assms
  by (cases "Deleter a"; cases "TailDeleter a"; cases "Auditor a"; cases "Deleter b"; cases "TailDeleter b"; cases "Auditor b")
    (simp_all add: tenant_view_def serve_deletion_def cong: prod.case_cong sum.case_cong)

lemma serve_read_view:
  assumes "tenant_view tenant a = tenant_view tenant b" and "APIStore a = Some st" and "APIStore b = Some st'"
  shows "serve_read a st r tenant s = serve_read b st' r tenant s"
  using assms
  by (cases "AuditReader a"; cases "AuditReader b"; cases "SamplingReader a"; cases "SamplingReader b")
    (simp_all add: tenant_view_def serve_read_def Let_def)

text \<open>
  C32. No request reaches another tenant's data: two deployments that share the authenticator and agree on what
  can be done in the name of the tenant it names give every request the same answer and the same effect,
  whatever they do for other tenants; when it names none, they need not agree on anything.
\<close>

theorem query_tenant_confined:
  assumes "APIAuthenticator a = Some f" and "APIAuthenticator b = Some f" and "APIStore a \<noteq> None" and "APIStore b \<noteq> None"
    and "f (APIKey r) s = (who, s1)"
    and "\<forall>tenant. who = Inr (Some tenant) \<longrightarrow> tenant_view tenant a = tenant_view tenant b"
  shows "query_ServeHTTP a r s = query_ServeHTTP b r s"
proof -
  obtain st st' where st: "APIStore a = Some st" "APIStore b = Some st'" using assms(3,4) by blast
  show ?thesis
  proof (cases "\<exists>tenant. who = Inr (Some tenant)")
    case True
    then obtain tenant where who: "who = Inr (Some tenant)" by blast
    with assms(6) have view: "tenant_view tenant a = tenant_view tenant b" by blast
    show ?thesis
      using serve_deletion_view [OF view] serve_read_view [OF view st]
      by (simp add: query_ServeHTTP_def assms(1,2,5) st who)
  next
    case False
    then show ?thesis
      by (auto simp: query_ServeHTTP_def assms(1,2,5) st split: sum.splits option.splits)
  qed
qed

definition a_request :: "string \<Rightarrow> string \<Rightarrow> string \<Rightarrow> query_request" where
  "a_request verb path confirm = \<lparr>Method = verb, Path = path, APIKey = ''key-a'', ContentType = [], Body = None,
     DeleteConfirm = confirm\<rparr>"

lemma query_tenant_confined_witness:
  "query_ServeHTTP (recording_api\<lparr>APIAuthenticator := Some (\<lambda>_. ret (Some ''tenant-a''))\<rparr>)
     (a_request ''GET'' ''/v1/audit'' []) first_delivery
   = query_ServeHTTP (recording_api\<lparr>APIAuthenticator := Some (\<lambda>_. ret (Some ''tenant-a'')),
       AuditReader := Some (\<lambda>t n. on_ledger (if t = ''tenant-a'' then AuditEvents t n else fail_with Unavailable))\<rparr>)
     (a_request ''GET'' ''/v1/audit'' []) first_delivery"
  by (rule query_tenant_confined [where f = "\<lambda>_. ret (Some ''tenant-a'')" and who = "Inr (Some ''tenant-a'')"
        and ?s1.0 = first_delivery])
    (simp_all add: pg_api_def tenant_view_def fun_eq_iff)

text \<open>
  C33. Reading never writes: whatever ClickHouse does and whatever faults PostgreSQL has, a request that is not a
  confirmed deletion, authenticated or not, leaves the database as it was.
\<close>

theorem query_reads_only:
  assumes "\<not> (Method r = ''POST'' \<and> Path r = ''/v1/retention/delete'' \<and> DeleteConfirm r = ''DELETE_SANITIZED_TELEMETRY'')"
  shows "database (ledger_db (snd (query_ServeHTTP (pg_api codecs send endpoint) r w))) = database (ledger_db w)"
  by (rule query_backend.only_deletion_writes [OF pg_query_backend [where asked = "\<lambda>_. UNIV"] assms])
    (simp add: clickhouse_erases_def)

lemma query_reads_only_witness:
  "database (ledger_db (snd (query_ServeHTTP recording_api (a_request ''GET'' ''/v1/retention/delete'' []) first_delivery)))
     = database (ledger_db first_delivery)"
  by (rule query_reads_only) (simp add: a_request_def)


lemma DeleteTenantTailData_quiet:
  assumes "script s = []"
  shows "DeleteTenantTailData t s = (Inr (), s\<lparr>database := pruned_db (\<lambda>m. ob_tenant m = t) (\<lambda>k. ek_tenant k = t)
    (\<lambda>c. dc_tenant c = t) (\<lambda>r. tr_tenant r = t) (database s)\<rparr>)"
  unfolding DeleteTenantTailData_def
  by (rule in_tx_quiet [OF assms])
    (simp_all add: assms and_then_def tx_stmt_quiet delete_outbox_def delete_event_keys_def delete_decisions_def
      delete_traces_def pruned_db_def)

lemma deletion_quiet:
  assumes "script (ledger_db w) = []" and "tenant \<in> set (tenants (database (ledger_db w)))"
  shows "QueryStatus (fst (serve_deletion recording_api
    (a_request ''POST'' ''/v1/retention/delete'' ''DELETE_SANITIZED_TELEMETRY'') tenant w)) = 200"
  by (simp add: serve_deletion_def a_request_def pg_api_def on_ledger_def on_clickhouse_def DeleteTenantTailData_quiet
      assms DeleteTenantTelemetry_def parameterized_def key_codecs_def do_request_def record_send_def and_then_def
      answer_with_def RecordAudit_def autocommit_quiet insert_audit_def pruned_db_def json_def)

definition deletion_day :: "(ch_request list, broker_message list) telemetry_world" where
  "deletion_day = \<lparr>ledger_db = \<lparr>database = empty_db\<lparr>tenants := [''tenant-a''],
       api_keys := [\<lparr>ak_tenant = ''tenant-a'', ak_hash = HashAPIKey ''key-a'', ak_disabled_at = None\<rparr>],
       tail_decisions := [\<lparr>dc_tenant = ''tenant-a'', dc_trace = ''t1'', dc_reason = ''error'', dc_retained = True,
         dc_span_count = 1, dc_created_at = 0\<rparr>]\<rparr>, clock = 60, script = []\<rparr>,
     clickhouse = [], kafka = []\<rparr>"


end
