(* ===== verification/Broker.thy ===== *)
theory Broker
  imports Ingest
begin

text \<open>
  \<^verbatim>\<open>internal/broker/kafka.go\<close>: the publisher of the tail worker. The Kafka client is a third-party library: its writer is
  a program over the state \<open>'b\<close> of the cluster, and \<open>Topic\<close> observes which messages, key and value, the topic has been
  given. The writer has one topic, \<^verbatim>\<open>TelemetryTopic\<close>. \<^verbatim>\<open>json.Marshal\<close> is a parameter as well.
\<close>

record 'b kafka_publisher =
  Marshal :: "envelope \<Rightarrow> string option"
  WriteMessages :: "string \<Rightarrow> string \<Rightarrow> ('b, go_error, unit) program"
  Topic :: "'b \<Rightarrow> (string \<times> string) set"

definition kafka_Publish :: "'b kafka_publisher \<Rightarrow> envelope \<Rightarrow> ('b, go_error, unit) program" where
  "kafka_Publish K envelope =
     (case Marshal K envelope of
        None \<Rightarrow> fail_with (Errorf ''json'')
      | Some payload \<Rightarrow> WriteMessages K (EventKey envelope) payload)"

text \<open>
  What the writer documents for the settings of \<^verbatim>\<open>NewKafkaPublisher\<close>, synchronous and with acknowledgement by all replicas: a
  call adds the message it is given or nothing, and one that returns without an error has added it. A call
  that returns an error may have added it too.
\<close>

definition acknowledges :: "'b kafka_publisher \<Rightarrow> bool" where
  "acknowledges K =
     (\<forall>key val b r b'. WriteMessages K key val b = (r, b') \<longrightarrow>
        Topic K b \<subseteq> Topic K b' \<and> Topic K b' \<subseteq> insert (key, val) (Topic K b) \<and>
        (r = Inr () \<longrightarrow> (key, val) \<in> Topic K b'))"

text \<open>The message of an envelope, and the envelopes whose message is in the topic.\<close>

definition message_of :: "'b kafka_publisher \<Rightarrow> envelope \<Rightarrow> string \<times> string \<Rightarrow> bool" where
  "message_of K e m = (fst m = EventKey e \<and> Marshal K e = Some (snd m))"

definition in_topic :: "'b kafka_publisher \<Rightarrow> 'b \<Rightarrow> envelope set" where
  "in_topic K b = {e. \<exists>m \<in> Topic K b. message_of K e m}"

lemma kafka_Publish_effect:
  assumes "acknowledges K" and "kafka_Publish K e b = (r, b')"
  shows "Topic K b \<subseteq> Topic K b'" and "\<And>m. m \<in> Topic K b' \<Longrightarrow> m \<in> Topic K b \<or> message_of K e m"
    and "r = Inr () \<Longrightarrow> e \<in> in_topic K b'"
proof -
  have "Topic K b \<subseteq> Topic K b' \<and> (\<forall>m \<in> Topic K b'. m \<in> Topic K b \<or> message_of K e m) \<and>
      (r = Inr () \<longrightarrow> e \<in> in_topic K b')"
  proof (cases "Marshal K e")
    case (Some payload)
    then have "WriteMessages K (EventKey e) payload b = (r, b')" using assms(2) by (simp add: kafka_Publish_def)
    then have w: "Topic K b \<subseteq> Topic K b'" "Topic K b' \<subseteq> insert (EventKey e, payload) (Topic K b)"
      "r = Inr () \<Longrightarrow> (EventKey e, payload) \<in> Topic K b'"
      using assms(1) unfolding acknowledges_def by blast+
    have "message_of K e (EventKey e, payload)" by (simp add: message_of_def Some)
    then show ?thesis using w unfolding in_topic_def by blast
  qed (use assms(2) in \<open>auto simp: kafka_Publish_def\<close>)
  then show "Topic K b \<subseteq> Topic K b'" and "\<And>m. m \<in> Topic K b' \<Longrightarrow> m \<in> Topic K b \<or> message_of K e m"
    and "r = Inr () \<Longrightarrow> e \<in> in_topic K b'" by blast+
qed

lemma in_topic_mono: "Topic K b \<subseteq> Topic K b' \<Longrightarrow> in_topic K b \<subseteq> in_topic K b'"
  unfolding in_topic_def by blast

subsection \<open>A cluster for the examples\<close>

text \<open>What becomes of the next messages; all that follow arrive and are acknowledged.\<close>

datatype fate = Arrives | Unacknowledged | Undelivered

record scripted_cluster =
  topic_log :: "(string \<times> string) list"
  fates :: "fate list"

definition scripted_write :: "string \<Rightarrow> string \<Rightarrow> (scripted_cluster, go_error, unit) program" where
  "scripted_write key val b =
     (let appended = b\<lparr>topic_log := topic_log b @ [(key, val)], fates := tl (fates b)\<rparr>
      in case fates b of
           Undelivered # _ \<Rightarrow> (Inl Unavailable, b\<lparr>fates := tl (fates b)\<rparr>)
         | Unacknowledged # _ \<Rightarrow> (Inl Unavailable, appended)
         | _ \<Rightarrow> (Inr (), appended))"

definition scripted_kafka :: "(envelope \<Rightarrow> string option) \<Rightarrow> scripted_cluster kafka_publisher" where
  "scripted_kafka marshal = \<lparr>Marshal = marshal, WriteMessages = scripted_write, Topic = \<lambda>b. set (topic_log b)\<rparr>"

definition empty_topic :: scripted_cluster where
  "empty_topic = \<lparr>topic_log = [], fates = []\<rparr>"

lemma scripted_acknowledges: "acknowledges (scripted_kafka marshal)"
  by (auto simp: acknowledges_def scripted_kafka_def scripted_write_def Let_def split: list.splits fate.splits)

end
