(* ===== verification/TailRunner.thy ===== *)
theory TailRunner
  imports TailGuarantees Broker
begin

text \<open>
  \<^verbatim>\<open>internal/tail/runner.go\<close>: the worker that decides quiet traces and publishes what they retain. The store
  and the broker are its interfaces; the laws it needs of them are a locale, which the PostgreSQL
  store with the Kafka publisher satisfies.
\<close>

subsection \<open>The runner\<close>

record 's tail_source =
  ClaimTraces :: "string \<Rightarrow> int \<Rightarrow> int \<Rightarrow> int \<Rightarrow> ('s, go_error, TailTraceLease list) program"
  LoadTrace :: "TailTraceLease \<Rightarrow> ('s, go_error, envelope list) program"
  RecordDecision :: "string \<Rightarrow> TailTraceLease \<Rightarrow> Decision \<Rightarrow> ('s, go_error, bool) program"
  ClaimOutbox :: "string \<Rightarrow> int \<Rightarrow> int \<Rightarrow> ('s, go_error, TailOutboxMessage list) program"
  MarkPublished :: "string \<Rightarrow> string \<Rightarrow> ('s, go_error, unit) program"

record runner_config =
  Owner :: string
  Interval :: string
  Quiet :: int
  LeaseTTL :: int
  BatchSize :: int
  SamplingConfig :: Config

definition runner_defaults :: "runner_config \<Rightarrow> runner_config" where
  "runner_defaults c =
     (let c = (if Owner c = [] then c\<lparr>Owner := ''tailer''\<rparr> else c);
          c = (if Quiet c \<le> 0 then c\<lparr>Quiet := 2 * second\<rparr> else c);
          c = (if LeaseTTL c \<le> 0 then c\<lparr>LeaseTTL := 15 * second\<rparr> else c)
      in if BatchSize c < 1 then c\<lparr>BatchSize := 32\<rparr> else c)"

definition process_lease ::
  "millis_reader \<Rightarrow> 's tail_source \<Rightarrow> runner_config \<Rightarrow> TailTraceLease \<Rightarrow> ('s, go_error, unit) program" where
  "process_lease millis store cfg lease =
     and_then (wrapped ''load_tail_trace'' (LoadTrace store lease)) (\<lambda>spans.
       case Decide millis (LeaseTrace lease) spans (SamplingConfig cfg) of
         None \<Rightarrow> fail_with (Panicked ''integer divide by zero'')
       | Some decision \<Rightarrow>
           and_then (wrapped ''record_tail_decision'' (RecordDecision store (Owner cfg) lease decision)) (\<lambda>_. ret ()))"

definition publish_message ::
  "'s tail_source \<Rightarrow> (envelope \<Rightarrow> ('s, go_error, unit) program) \<Rightarrow> runner_config \<Rightarrow> TailOutboxMessage
     \<Rightarrow> ('s, go_error, unit) program" where
  "publish_message store publish cfg message =
     and_then (wrapped ''publish_tail_outbox'' (publish (MsgEnvelope message))) (\<lambda>_.
       wrapped ''mark_tail_outbox'' (MarkPublished store (Owner cfg) (MsgKey message)))"

definition runner_process ::
  "millis_reader \<Rightarrow> 's tail_source \<Rightarrow> (envelope \<Rightarrow> ('s, go_error, unit) program) \<Rightarrow> runner_config
     \<Rightarrow> ('s, go_error, unit) program" where
  "runner_process millis store publish cfg =
     (let cfg = runner_defaults cfg
      in and_then (wrapped ''claim_tail_traces''
             (ClaimTraces store (Owner cfg) (Quiet cfg) (LeaseTTL cfg) (BatchSize cfg))) (\<lambda>leases.
         and_then (each (process_lease millis store cfg) leases) (\<lambda>_.
         and_then (wrapped ''claim_tail_outbox''
             (ClaimOutbox store (Owner cfg) (LeaseTTL cfg) (BatchSize cfg))) (\<lambda>messages.
         each (publish_message store publish cfg) messages))))"

text \<open>
  \<^verbatim>\<open>Run\<close>: what the \<^verbatim>\<open>select\<close> of its loop wakes up for is given; \<open>None\<close> is a loop that is still waiting
  at the end of it. A ticker with an interval that is not positive panics.
\<close>

datatype wake = Cancelled | Ticked

fun runner_loop :: "('s, go_error, unit) program \<Rightarrow> wake list \<Rightarrow> ('s, go_error, unit option) program" where
  "runner_loop process [] = ret None"
| "runner_loop process (Cancelled # wakes) = ret (Some ())"
| "runner_loop process (Ticked # wakes) = and_then process (\<lambda>_. runner_loop process wakes)"

definition runner_run ::
  "(string \<Rightarrow> int option) \<Rightarrow> millis_reader \<Rightarrow> 's tail_source \<Rightarrow> (envelope \<Rightarrow> ('s, go_error, unit) program)
     \<Rightarrow> runner_config \<Rightarrow> wake list \<Rightarrow> ('s, go_error, unit option) program" where
  "runner_run parse_duration millis store publish cfg wakes =
     (let cfg = (if Interval cfg = [] then cfg\<lparr>Interval := ''1s''\<rparr> else cfg);
          process = runner_process millis store publish cfg
      in case parse_duration (Interval cfg) of
           None \<Rightarrow> fail_with (Errorf ''time: invalid duration'')
         | Some interval \<Rightarrow>
             and_then process (\<lambda>_.
               if interval \<le> 0 then fail_with (Panicked ''non-positive interval for NewTicker'')
               else runner_loop process wakes))"

subsection \<open>What the runner needs\<close>

text \<open>
  The outbox as the runner sees it: the envelope of each key, the keys marked published, and what the
  broker has acknowledged. Nothing but a mark makes a key published, and a publisher that
  returns without an error has put the envelope into the log.
\<close>

locale outbox =
  fixes store :: "'s tail_source"
    and publish :: "envelope \<Rightarrow> ('s, go_error, unit) program"
    and sane :: "'s \<Rightarrow> bool"
    and entries :: "'s \<Rightarrow> string \<rightharpoonup> envelope"
    and marked :: "'s \<Rightarrow> string set"
    and logged :: "'s \<Rightarrow> envelope set"
    and calm :: "'s \<Rightarrow> 's \<Rightarrow> bool"
  assumes calmD: "calm s s' \<Longrightarrow> sane s' \<and> marked s' \<subseteq> marked s \<and> entries s \<subseteq>\<^sub>m entries s' \<and> logged s \<subseteq> logged s'"
    and claim_calm: "sane s \<Longrightarrow> ClaimTraces store owner quiet ttl limit s = (r1, s') \<Longrightarrow> calm s s'"
    and load_calm: "sane s \<Longrightarrow> LoadTrace store lease s = (r2, s') \<Longrightarrow> calm s s'"
    and record_calm: "sane s \<Longrightarrow> RecordDecision store owner lease decision s = (r3, s') \<Longrightarrow> calm s s'"
    and outbox_calm: "sane s \<Longrightarrow> ClaimOutbox store owner ttl limit s = (r4, s') \<Longrightarrow> calm s s'"
    and outbox_entries: "sane s \<Longrightarrow> ClaimOutbox store owner ttl limit s = (Inr messages, s') \<Longrightarrow>
      m \<in> set messages \<Longrightarrow> entries s' (MsgKey m) = Some (MsgEnvelope m)"
    and publish_calm: "sane s \<Longrightarrow> publish e s = (r5, s') \<Longrightarrow> calm s s'"
    and publish_logs: "sane s \<Longrightarrow> publish e s = (Inr (), s') \<Longrightarrow> e \<in> logged s'"
    and mark_only: "sane s \<Longrightarrow> MarkPublished store owner key s = (r6, s') \<Longrightarrow>
      sane s' \<and> marked s' \<subseteq> insert key (marked s) \<and> entries s \<subseteq>\<^sub>m entries s' \<and> logged s \<subseteq> logged s'"
begin

definition delivered :: "'s \<Rightarrow> bool" where
  "delivered s = (sane s \<and> (\<forall>k \<in> marked s. \<exists>e. entries s k = Some e \<and> e \<in> logged s))"

definition known :: "TailOutboxMessage list \<Rightarrow> 's \<Rightarrow> bool" where
  "known messages s = (\<forall>m \<in> set messages. entries s (MsgKey m) = Some (MsgEnvelope m))"

lemma delivered_grows:
  assumes "delivered s" and "sane s'" and "marked s' \<subseteq> marked s \<union> K"
    and "entries s \<subseteq>\<^sub>m entries s'" and "logged s \<subseteq> logged s'"
    and "\<And>k. k \<in> K \<Longrightarrow> \<exists>e. entries s k = Some e \<and> e \<in> logged s"
  shows "delivered s'"
  unfolding delivered_def
proof (intro conjI ballI assms(2))
  fix k assume "k \<in> marked s'"
  then have "k \<in> marked s \<or> k \<in> K" using assms(3) by blast
  then obtain e where e: "entries s k = Some e" "e \<in> logged s"
    using assms(1,6) unfolding delivered_def by blast
  then have "entries s' k = Some e" using assms(4) unfolding map_le_def by (metis domI)
  then show "\<exists>e. entries s' k = Some e \<and> e \<in> logged s'" using e(2) assms(5) by blast
qed

lemma calm_delivered: "delivered s \<Longrightarrow> calm s s' \<Longrightarrow> delivered s'"
  using calmD [of s s'] delivered_grows [of s s' "{}"] by auto

lemma calm_known: "known messages s \<Longrightarrow> calm s s' \<Longrightarrow> known messages s'"
  using calmD unfolding known_def map_le_def by (metis domI)

lemma keeps_calm:
  assumes "\<And>s r s'. sane s \<Longrightarrow> m s = (r, s') \<Longrightarrow> calm s s'"
  shows "keeps delivered m"
  by (rule hoareI) (use assms calm_delivered delivered_def in blast)+

lemma process_lease_delivered: "keeps delivered (process_lease millis store cfg lease)"
  unfolding process_lease_def
  by (intro hoare_rules) (auto intro!: keeps_calm intro: load_calm record_calm)

lemma publish_message_delivered:
  assumes "message \<in> set messages"
  shows "hoare (\<lambda>s. delivered s \<and> known messages s) (publish_message store publish cfg message)
    (\<lambda>_ s. delivered s \<and> known messages s) (\<lambda>_. delivered)"
proof (rule hoareI)
  fix s t
  assume pre: "delivered s \<and> known messages s"
  have "delivered t \<and> (r = Inr () \<longrightarrow> known messages t)"
    if run: "publish_message store publish cfg message s = (r, t)" for r
  proof -
    obtain p s1 where p: "publish (MsgEnvelope message) s = (p, s1)" by fastforce
    have c: "calm s s1" using publish_calm [OF _ p] pre by (simp add: delivered_def)
    then have ok: "delivered s1" "known messages s1" using pre calm_delivered calm_known by blast+
    show ?thesis
    proof (cases p)
      case (Inl err)
      then show ?thesis using run p ok by (auto simp: publish_message_def and_then_def wrapped_def)
    next
      case (Inr u)
      obtain q where q: "MarkPublished store (Owner cfg) (MsgKey message) s1 = (q, t)"
        using run p Inr by (auto simp: publish_message_def and_then_def wrapped_def split: prod.splits sum.splits)
      have sane: "sane s1" using ok(1) by (simp add: delivered_def)
      note mark = mark_only [OF sane q]
      have "MsgEnvelope message \<in> logged s1" using publish_logs p Inr pre by (auto simp: delivered_def)
      then have "\<exists>e. entries s1 (MsgKey message) = Some e \<and> e \<in> logged s1"
        using ok(2) assms by (auto simp: known_def)
      then have "delivered t"
        using mark by (intro delivered_grows [OF ok(1), of t "{MsgKey message}"]) auto
      moreover have "known messages t"
        using mark ok(2) unfolding known_def map_le_def by (metis domI)
      ultimately show ?thesis by blast
    qed
  qed
  then show "delivered t" if "publish_message store publish cfg message s = (Inl e, t)" for e using that by blast
  then show "delivered t \<and> known messages t" if "publish_message store publish cfg message s = (Inr a, t)" for a
    using that \<open>\<And>r. publish_message store publish cfg message s = (r, t) \<Longrightarrow> delivered t \<and> (r = Inr () \<longrightarrow> known messages t)\<close>
    by auto
qed

lemma claim_outbox_known:
  "hoare delivered (ClaimOutbox store owner ttl limit) (\<lambda>messages s. delivered s \<and> known messages s) (\<lambda>_. delivered)"
proof (rule hoareI)
  fix s t
  assume d: "delivered s"
  then have sane: "sane s" by (simp only: delivered_def)
  show "delivered t" if "ClaimOutbox store owner ttl limit s = (Inl e, t)" for e
    by (rule calm_delivered [OF d outbox_calm [OF sane that]])
  show "delivered t \<and> known messages t" if "ClaimOutbox store owner ttl limit s = (Inr messages, t)" for messages
    using calm_delivered [OF d outbox_calm [OF sane that]] outbox_entries [OF sane that] unfolding known_def by blast
qed

lemma process_delivered: "keeps delivered (runner_process millis store publish cfg)"
  unfolding runner_process_def Let_def
proof (rule hoare_and_then)
  let ?c = "runner_defaults cfg"
  show "keeps delivered (wrapped ''claim_tail_traces'' (ClaimTraces store (Owner ?c) (Quiet ?c) (LeaseTTL ?c) (BatchSize ?c)))"
    by (intro hoare_wrapped keeps_calm claim_calm)
  have publishing: "hoare (\<lambda>s. delivered s \<and> known messages s) (each (publish_message store publish ?c) messages)
      (\<lambda>_. delivered) (\<lambda>_. delivered)" for messages
    by (rule hoare_conseq [OF hoare_each [OF publish_message_delivered]]) auto
  show "hoare delivered (and_then (each (process_lease millis store ?c) leases) (\<lambda>_.
      and_then (wrapped ''claim_tail_outbox'' (ClaimOutbox store (Owner ?c) (LeaseTTL ?c) (BatchSize ?c))) (\<lambda>messages.
      each (publish_message store publish ?c) messages))) (\<lambda>_. delivered) (\<lambda>_. delivered)" for leases
    by (rule hoare_and_then [OF hoare_each [OF process_lease_delivered]],
        rule hoare_and_then [OF hoare_wrapped [OF claim_outbox_known] publishing])
qed

end

subsection \<open>The runner on PostgreSQL\<close>

record 'b tail_world =
  tail_pg :: pg
  tail_broker :: 'b

definition on_pg :: "(pg, go_error, 'a) program \<Rightarrow> ('b tail_world, go_error, 'a) program" where
  "on_pg m w = (let (r, s) = m (tail_pg w) in (r, w\<lparr>tail_pg := s\<rparr>))"

definition on_broker :: "('b, go_error, 'a) program \<Rightarrow> ('b tail_world, go_error, 'a) program" where
  "on_broker m w = (let (r, b) = m (tail_broker w) in (r, w\<lparr>tail_broker := b\<rparr>))"

definition pg_source :: "'b tail_world tail_source" where
  "pg_source = \<lparr>ClaimTraces = \<lambda>owner quiet ttl limit. on_pg (ClaimTailTraces owner quiet ttl limit),
     LoadTrace = \<lambda>lease. on_pg (LoadTailTrace lease),
     RecordDecision = \<lambda>owner lease decision. on_pg (RecordTailDecision owner lease decision),
     ClaimOutbox = \<lambda>owner ttl limit. on_pg (ClaimTailOutbox owner ttl limit),
     MarkPublished = \<lambda>owner key. on_pg (MarkTailOutboxPublished owner key)\<rparr>"

lemma on_pgE:
  assumes "on_pg m w = (r, w')"
  obtains s where "m (tail_pg w) = (r, s)" "w' = w\<lparr>tail_pg := s\<rparr>"
  using assms by (auto simp: on_pg_def Let_def split: prod.splits)

definition outbox_view :: "outbox_row \<Rightarrow> string \<times> envelope \<times> bool" where
  "outbox_view m = (ob_key m, ob_envelope m, ob_published_at m \<noteq> None)"

definition outbox_entries :: "pg \<Rightarrow> string \<rightharpoonup> envelope" where
  "outbox_entries s = map_of (map (\<lambda>m. (ob_key m, ob_envelope m)) (tail_outbox (database s)))"

definition published_keys :: "pg \<Rightarrow> string set" where
  "published_keys s = ob_key ` {m \<in> set (tail_outbox (database s)). ob_published_at m \<noteq> None}"

definition world_calm :: "'b kafka_publisher \<Rightarrow> (string \<Rightarrow> int) \<Rightarrow> 'b tail_world \<Rightarrow> 'b tail_world \<Rightarrow> bool" where
  "world_calm K hashtext w w' =
     (store_ok hashtext (tail_pg w') \<and> published_keys (tail_pg w') \<subseteq> published_keys (tail_pg w) \<and>
      outbox_entries (tail_pg w) \<subseteq>\<^sub>m outbox_entries (tail_pg w') \<and>
      Topic K (tail_broker w) \<subseteq> Topic K (tail_broker w'))"

lemma outbox_view_entries:
  assumes "map outbox_view (tail_outbox (database s')) = map outbox_view (tail_outbox (database s))"
  shows "outbox_entries s' = outbox_entries s" "published_keys s' = published_keys s"
proof -
  have "map (\<lambda>(k, e, p). (k, e)) (map outbox_view (tail_outbox (database s'))) =
      map (\<lambda>(k, e, p). (k, e)) (map outbox_view (tail_outbox (database s)))" using assms by simp
  then show "outbox_entries s' = outbox_entries s" by (simp add: outbox_entries_def outbox_view_def comp_def)
  have keys: "published_keys x = fst ` {v \<in> set (map outbox_view (tail_outbox (database x))). snd (snd v)}" for x
    by (force simp: published_keys_def outbox_view_def)
  show "published_keys s' = published_keys s" unfolding keys assms ..
qed

lemma calm_same_outbox:
  assumes "store_ok hashtext s'" and "map outbox_view (tail_outbox (database s')) = map outbox_view (tail_outbox (database (tail_pg w)))"
  shows "world_calm K hashtext w (w\<lparr>tail_pg := s'\<rparr>)"
  using assms(1) outbox_view_entries [OF assms(2)] by (simp add: world_calm_def)

lemma calm_new_messages:
  assumes "store_ok hashtext s'" and "prefix (tail_outbox (database (tail_pg w))) (tail_outbox (database s'))"
    and "\<forall>m \<in> set (tail_outbox (database s')) - set (tail_outbox (database (tail_pg w))). ob_published_at m = None"
  shows "world_calm K hashtext w (w\<lparr>tail_pg := s'\<rparr>)"
proof -
  obtain new where new: "tail_outbox (database s') = tail_outbox (database (tail_pg w)) @ new"
    using assms(2) by (auto simp: prefix_def)
  have "outbox_entries (tail_pg w) \<subseteq>\<^sub>m outbox_entries s'"
    by (simp add: outbox_entries_def new map_le_def map_add_def split: option.split)
      (auto simp: map_add_Some_iff)
  moreover have "m \<in> set (tail_outbox (database (tail_pg w)))"
    if "m \<in> set (tail_outbox (database s'))" "ob_published_at m \<noteq> None" for m
    using assms(3) [rule_format, OF DiffI [OF that(1)]] that(2) by metis
  then have "published_keys s' \<subseteq> published_keys (tail_pg w)"
    unfolding published_keys_def by blast
  ultimately show ?thesis using assms(1) by (simp add: world_calm_def)
qed

lemma claim_traces_outbox:
  "claim_traces owner quiet ttl n locked now d = Inr (leases, d') \<Longrightarrow> tail_outbox d' = tail_outbox d"
  by (auto simp: claim_traces_def Let_def)

lemma outbox_view_update:
  "(\<And>m. outbox_view (f m) = outbox_view m) \<Longrightarrow> map outbox_view (update_where q f rows) = map outbox_view rows"
  by (rule map_update_where)

lemma claim_outbox_view:
  assumes "claim_outbox owner ttl n locked now d = Inr (messages, d')"
  shows "map outbox_view (tail_outbox d') = map outbox_view (tail_outbox d)"
  using assms by (auto simp: claim_outbox_def Let_def outbox_view_def intro!: outbox_view_update)

lemma claim_outbox_messages:
  assumes "claim_outbox owner ttl n locked now d = Inr (messages, d')" and "message \<in> set messages"
  obtains m where "m \<in> set (tail_outbox d)" "MsgKey message = ob_key m" "MsgEnvelope message = ob_envelope m"
  using assms unfolding claim_outbox_def Let_def by auto

lemma autocommit_view:
  assumes "autocommit f s = (r, s')"
    and "\<And>locked now d a d'. f locked now d = Inr (a, d') \<Longrightarrow> map outbox_view (tail_outbox d') = map outbox_view (tail_outbox d)"
  shows "map outbox_view (tail_outbox (database s')) = map outbox_view (tail_outbox (database s))"
  using assms(1)
proof (cases rule: autocommit_cases)
  case (all a locked)
  show ?thesis by (rule assms(2) [OF all(1)])
qed simp

lemma decide_outbox:
  assumes "store_ok hashtext s" and "RecordTailDecision owner lease decision s = (r, s')"
  shows "prefix (tail_outbox (database s)) (tail_outbox (database s')) \<and>
    (\<forall>m \<in> set (tail_outbox (database s')) - set (tail_outbox (database s)). ob_published_at m = None)"
proof -
  have u: "unique_rows (database s)" using assms(1) by (simp only: store_ok_def tail_ok_def)
  show ?thesis
    using assms(2)
  proof (cases rule: RecordTailDecision_effect)
    case (all b now)
    have "tail_outbox (database s') \<in> {tail_outbox (database s), decided_outbox now lease decision (database s)}"
      using decide_tx_effect [OF all(1) u] close_db_rows(1) by (auto split: if_splits)
    moreover have "ob_published_at m = None"
      if "m \<in> set (decided_outbox now lease decision (database s))" "m \<notin> set (tail_outbox (database s))" for m
      using that outbox_after_new unfolding decided_outbox_def by (fastforce simp: outbox_row_of_def split: if_splits)
    ultimately show ?thesis
      using outbox_after_prefix by (auto simp: decided_outbox_def split: if_splits)
  qed simp
qed

lemma mark_outbox:
  assumes "mark_published owner key locked now (database s) = Inr (n, database s')"
  shows "published_keys s' \<subseteq> insert key (published_keys s)" "outbox_entries s' = outbox_entries s"
proof -
  let ?chosen = "\<lambda>m. ob_key m = key \<and> ob_lease_owner m = Some owner \<and> ob_published_at m = None"
  let ?f = "\<lambda>m. m\<lparr>ob_published_at := Some now, ob_lease_owner := None, ob_lease_expires := None\<rparr>"
  have out: "tail_outbox (database s') = update_where ?chosen ?f (tail_outbox (database s))"
    using assms [symmetric] unfolding mark_published_def Let_def by simp
  show "published_keys s' \<subseteq> insert key (published_keys s)"
    unfolding published_keys_def out by (auto simp: set_update_where)
  show "outbox_entries s' = outbox_entries s"
    unfolding outbox_entries_def out by (subst map_update_where) simp_all
qed

text \<open>The publisher that \<^verbatim>\<open>cmd/tailer/main.go\<close> gives the runner.\<close>

definition broker_publish :: "'b kafka_publisher \<Rightarrow> envelope \<Rightarrow> ('b tail_world, go_error, unit) program" where
  "broker_publish K e = on_broker (kafka_Publish K e)"

text \<open>The laws of the outbox, one by one.\<close>

lemma pg_claim_calm:
  assumes ok: "store_ok hashtext (tail_pg w)" and "ClaimTraces pg_source owner quiet ttl limit w = (r, w')"
  shows "world_calm K hashtext w w'"
proof -
  obtain s where s: "ClaimTailTraces owner quiet ttl limit (tail_pg w) = (r, s)" "w' = w\<lparr>tail_pg := s\<rparr>"
    using assms(2) by (auto simp: pg_source_def elim: on_pgE)
  have "map outbox_view (tail_outbox (database s)) = map outbox_view (tail_outbox (database (tail_pg w)))"
    by (rule autocommit_view [OF s(1) [unfolded ClaimTailTraces_def Let_def]]) (simp add: claim_traces_outbox)
  then show ?thesis unfolding s(2) by (rule calm_same_outbox [OF ClaimTailTraces_ok [OF ok s(1)]])
qed

lemma pg_load_calm:
  assumes ok: "store_ok hashtext (tail_pg w)" and "LoadTrace pg_source lease w = (r, w')"
  shows "world_calm K hashtext w w'"
proof -
  obtain s where s: "LoadTailTrace lease (tail_pg w) = (r, s)" "w' = w\<lparr>tail_pg := s\<rparr>"
    using assms(2) by (auto simp: pg_source_def elim: on_pgE)
  have "map outbox_view (tail_outbox (database s)) = map outbox_view (tail_outbox (database (tail_pg w)))"
    by (rule autocommit_view [OF s(1) [unfolded LoadTailTrace_def]]) (simp add: select_def)
  moreover have "store_ok hashtext s"
    by (rule autocommit_ok [OF ok s(1) [unfolded LoadTailTrace_def]]) (simp add: select_def)
  ultimately show ?thesis unfolding s(2) by (intro calm_same_outbox)
qed

lemma pg_record_calm:
  assumes ok: "store_ok hashtext (tail_pg w)" and "RecordDecision pg_source owner lease decision w = (r, w')"
  shows "world_calm K hashtext w w'"
proof -
  obtain s where s: "RecordTailDecision owner lease decision (tail_pg w) = (r, s)" "w' = w\<lparr>tail_pg := s\<rparr>"
    using assms(2) by (auto simp: pg_source_def elim: on_pgE)
  show ?thesis
    unfolding s(2) using decide_outbox [OF ok s(1)]
    by (intro calm_new_messages [OF RecordTailDecision_ok [OF ok s(1)]]) blast+
qed

lemma pg_outbox_calm:
  assumes ok: "store_ok hashtext (tail_pg w)" and "ClaimOutbox pg_source owner ttl limit w = (r, w')"
  shows "world_calm K hashtext w w'"
    and "r = Inr messages \<Longrightarrow> m \<in> set messages \<Longrightarrow> outbox_entries (tail_pg w') (MsgKey m) = Some (MsgEnvelope m)"
proof -
  obtain s where s: "ClaimTailOutbox owner ttl limit (tail_pg w) = (r, s)" "w' = w\<lparr>tail_pg := s\<rparr>"
    using assms(2) by (auto simp: pg_source_def elim: on_pgE)
  have view: "map outbox_view (tail_outbox (database s)) = map outbox_view (tail_outbox (database (tail_pg w)))"
    by (rule autocommit_view [OF s(1) [unfolded ClaimTailOutbox_def Let_def] claim_outbox_view])
  then show "world_calm K hashtext w w'"
    unfolding s(2) by (rule calm_same_outbox [OF ClaimTailOutbox_ok [OF ok s(1)]])
  assume m: "r = Inr messages" "m \<in> set messages"
  obtain n locked where "claim_outbox owner ttl n locked (clock s) (database (tail_pg w)) = Inr (messages, database s)"
    using s(1) m(1) unfolding ClaimTailOutbox_def Let_def by (blast elim: autocommit_returned)
  then obtain row where row: "row \<in> set (tail_outbox (database (tail_pg w)))" "MsgKey m = ob_key row" "MsgEnvelope m = ob_envelope row"
    using claim_outbox_messages m(2) by blast
  have "distinct (map ob_key (tail_outbox (database (tail_pg w))))"
    using ok unfolding store_ok_def tail_ok_def unique_rows_def by blast
  then have "outbox_entries (tail_pg w) (ob_key row) = Some (ob_envelope row)"
    unfolding outbox_entries_def using row(1) by (intro map_of_is_SomeI) (auto simp: comp_def)
  then show "outbox_entries (tail_pg w') (MsgKey m) = Some (MsgEnvelope m)"
    unfolding s(2) using outbox_view_entries(1) [OF view] row(2,3) by simp
qed

lemma pg_mark_only:
  assumes ok: "store_ok hashtext (tail_pg w)" and "MarkPublished pg_source owner key w = (r, w')"
  shows "store_ok hashtext (tail_pg w') \<and> published_keys (tail_pg w') \<subseteq> insert key (published_keys (tail_pg w)) \<and>
    outbox_entries (tail_pg w) \<subseteq>\<^sub>m outbox_entries (tail_pg w') \<and>
    Topic K (tail_broker w) \<subseteq> Topic K (tail_broker w')"
proof -
  obtain s where s: "MarkTailOutboxPublished owner key (tail_pg w) = (r, s)" "w' = w\<lparr>tail_pg := s\<rparr>"
    using assms(2) by (auto simp: pg_source_def elim: on_pgE)
  obtain q where q: "autocommit (mark_published owner key) (tail_pg w) = (q, s)"
    using MarkTailOutboxPublished_autocommits [OF s(1)] .
  have "published_keys s \<subseteq> insert key (published_keys (tail_pg w)) \<and> outbox_entries s = outbox_entries (tail_pg w)"
    using q
  proof (cases rule: autocommit_cases)
    case (all a locked)
    show ?thesis using mark_outbox [OF all(1)] by blast
  qed (auto simp: published_keys_def outbox_entries_def)
  then show ?thesis using MarkTailOutboxPublished_ok [OF ok s(1)] by (simp add: s(2))
qed

lemma broker_publishE:
  assumes "broker_publish K e w = (r, w')"
  obtains b where "kafka_Publish K e (tail_broker w) = (r, b)" "w' = w\<lparr>tail_broker := b\<rparr>"
  using assms by (auto simp: broker_publish_def on_broker_def Let_def split: prod.splits)

lemma publish_calm:
  assumes "acknowledges K" and "store_ok hashtext (tail_pg w)" and "broker_publish K e w = (r, w')"
  shows "world_calm K hashtext w w'" and "r = Inr () \<Longrightarrow> e \<in> in_topic K (tail_broker w')"
proof -
  obtain b where b: "kafka_Publish K e (tail_broker w) = (r, b)" "w' = w\<lparr>tail_broker := b\<rparr>"
    using assms(3) by (rule broker_publishE)
  show "world_calm K hashtext w w'"
    using assms(2) kafka_Publish_effect(1) [OF assms(1) b(1)] by (simp add: world_calm_def b(2))
  show "r = Inr () \<Longrightarrow> e \<in> in_topic K (tail_broker w')"
    using kafka_Publish_effect(3) [OF assms(1) b(1)] by (simp add: b(2))
qed

text \<open>What the outbox relies on of the broker is part of what makes a state sane.\<close>

interpretation pg_outbox: outbox pg_source "broker_publish K" "\<lambda>w. acknowledges K \<and> store_ok hashtext (tail_pg w)"
  "\<lambda>w. outbox_entries (tail_pg w)" "\<lambda>w. published_keys (tail_pg w)" "\<lambda>w. in_topic K (tail_broker w)"
  "\<lambda>w w'. acknowledges K \<and> world_calm K hashtext w w'"
proof (unfold_locales, goal_cases)
  case (1 w w')
  then show ?case using in_topic_mono [of K "tail_broker w" "tail_broker w'"] by (simp add: world_calm_def)
next
  case (2 w owner quiet ttl limit r w')
  then show ?case using pg_claim_calm by metis
next
  case (3 w lease r w')
  then show ?case using pg_load_calm by metis
next
  case (4 w owner lease decision r w')
  then show ?case using pg_record_calm by metis
next
  case (5 w owner ttl limit r w')
  then show ?case using pg_outbox_calm(1) by metis
next
  case (6 w owner ttl limit messages w' m)
  show ?case by (rule pg_outbox_calm(2) [OF conjunct2 [OF 6(1)] 6(2) refl 6(3)])
next
  case (7 w e r w')
  then show ?case using publish_calm(1) by metis
next
  case (8 w e w')
  then show ?case using publish_calm(2) by metis
next
  case (9 w owner key r w')
  have "store_ok hashtext (tail_pg w)" using 9(1) by (rule conjunct2)
  from pg_mark_only [OF this 9(2), of K] show ?case
    using 9(1) in_topic_mono [of K "tail_broker w" "tail_broker w'"] by simp
qed

subsection \<open>What the runner guarantees\<close>

text \<open>Every message that is marked published is in the topic, under its event key.\<close>

definition publications_logged :: "'b kafka_publisher \<Rightarrow> 'b tail_world \<Rightarrow> bool" where
  "publications_logged K w =
     (\<forall>m \<in> set (tail_outbox (database (tail_pg w))). ob_published_at m \<noteq> None \<longrightarrow>
        (\<exists>payload. Marshal K (ob_envelope m) = Some payload \<and>
           (EventKey (ob_envelope m), payload) \<in> Topic K (tail_broker w)))"

lemma publications_in_topic:
  "publications_logged K w \<longleftrightarrow> (\<forall>m \<in> set (tail_outbox (database (tail_pg w))). ob_published_at m \<noteq> None \<longrightarrow>
     ob_envelope m \<in> in_topic K (tail_broker w))"
  by (simp add: publications_logged_def in_topic_def message_of_def Bex_def) blast

lemma delivered_rows:
  assumes "acknowledges K" and "store_ok hashtext (tail_pg w)"
  shows "pg_outbox.delivered K hashtext w \<longleftrightarrow> publications_logged K w"
proof -
  let ?out = "tail_outbox (database (tail_pg w))"
  have "distinct (map ob_key ?out)"
    using assms(2) unfolding store_ok_def tail_ok_def unique_rows_def by blast
  then have "outbox_entries (tail_pg w) (ob_key m) = Some (ob_envelope m)" if "m \<in> set ?out" for m
    unfolding outbox_entries_def using that by (intro map_of_is_SomeI) (auto simp: comp_def)
  then show ?thesis
    using assms unfolding pg_outbox.delivered_def by (auto simp: publications_in_topic published_keys_def)
qed

text \<open>
  C8. Publish before marking: however a pass of the runner on PostgreSQL and Kafka ends, whatever fails on the way,
  before, between or after the messages, every outbox message that is marked published is in the topic, as the JSON
  text of its envelope under its event key. An interruption can only repeat a message, never skip one.
\<close>

theorem published_means_logged:
  assumes "acknowledges K" and "reachable hashtext (tail_pg w)" and "publications_logged K w"
    and "runner_process millis pg_source (broker_publish K) cfg w = (r, w')"
  shows "publications_logged K w'"
proof -
  have ok: "store_ok hashtext (tail_pg w)" using reachable_ok [OF assms(2)] .
  have "pg_outbox.delivered K hashtext (snd (runner_process millis pg_source (broker_publish K) cfg w))"
    by (rule keepsD [OF pg_outbox.process_delivered]) (simp add: delivered_rows [OF assms(1) ok] assms(3))
  then have d: "pg_outbox.delivered K hashtext w'" using assms(4) by simp
  then have "store_ok hashtext (tail_pg w')" unfolding pg_outbox.delivered_def by blast
  from d [unfolded delivered_rows [OF assms(1) this]] show ?thesis .
qed

text \<open>A worker for the examples: it takes every trace that is not leased at once.\<close>

definition first_world :: "scripted_cluster tail_world" where
  "first_world = \<lparr>tail_pg = staged_session\<lparr>clock := 5000000\<rparr>, tail_broker = empty_topic\<rparr>"

definition key_kafka :: "scripted_cluster kafka_publisher" where
  "key_kafka = scripted_kafka (\<lambda>e. Some (EventKey e))"

definition tailer :: runner_config where
  "tailer = \<lparr>Owner = '''', Interval = '''', Quiet = 0, LeaseTTL = 0, BatchSize = 0,
     SamplingConfig = ten_percent\<lparr>HealthySampleModulo := 1\<rparr>\<rparr>"

lemma first_world_reachable: "reachable (\<lambda>_. 0) (tail_pg first_world)"
proof -
  have "store_step (\<lambda>_. 0) staged_session (staged_session\<lparr>clock := 5000000\<rparr>)"
    by (rule store_step.elsewhere, simp, code_simp)
  from reachable_step [OF staged_reachable this] show ?thesis by (simp add: first_world_def)
qed

lemma published_means_logged_witness:
  "topic_log (tail_broker (snd (runner_process (\<lambda>_. None) pg_source (broker_publish key_kafka) tailer first_world)))
     = [(''tenant-a:e1'', ''tenant-a:e1'')] \<and>
   publications_logged key_kafka (snd (runner_process (\<lambda>_. None) pg_source (broker_publish key_kafka) tailer first_world))"
proof
  show "topic_log (tail_broker (snd (runner_process (\<lambda>_. None) pg_source (broker_publish key_kafka) tailer first_world)))
     = [(''tenant-a:e1'', ''tenant-a:e1'')]" by code_simp
  have kafka: "acknowledges key_kafka" unfolding key_kafka_def by (rule scripted_acknowledges)
  have "tail_outbox (database (tail_pg first_world)) = []" by code_simp
  then have "publications_logged key_kafka first_world" by (simp add: publications_logged_def)
  from published_means_logged [OF kafka first_world_reachable this prod.collapse [symmetric]]
  show "publications_logged key_kafka (snd (runner_process (\<lambda>_. None) pg_source (broker_publish key_kafka) tailer first_world))" .
qed

lemma process_lease_decides:
  assumes "process_lease millis pg_source cfg lease w = (Inr (), w')" and "store_ok hashtext (tail_pg w)"
    and "lease_current (Owner cfg) lease (database (tail_pg w))"
  obtains decision now where
    "Decide millis (LeaseTrace lease) (map bf_envelope (buffered_rows (LeaseTenant lease) (LeaseTrace lease)
       (database (tail_pg w)))) (SamplingConfig cfg) = Some decision"
    "database (tail_pg w') = close_db now (LeaseTenant lease) (LeaseTrace lease) (Reason decision) (Retained decision)
       (decided_outbox now lease decision (database (tail_pg w))) (database (tail_pg w))"
proof -
  obtain spans w1 decision b where load: "LoadTrace pg_source lease w = (Inr spans, w1)"
    and decision: "Decide millis (LeaseTrace lease) spans (SamplingConfig cfg) = Some decision"
    and recorded: "RecordDecision pg_source (Owner cfg) lease decision w1 = (Inr b, w')"
    using assms(1)
    by (auto simp: process_lease_def and_then_def wrapped_def split: prod.splits sum.splits option.splits)
  obtain s1 where s1: "LoadTailTrace lease (tail_pg w) = (Inr spans, s1)" "tail_pg w1 = s1"
    using load by (auto simp: pg_source_def elim: on_pgE)
  obtain s2 where s2: "RecordTailDecision (Owner cfg) lease decision s1 = (Inr b, s2)" "tail_pg w' = s2"
    using recorded s1(2) by (auto simp: pg_source_def elim: on_pgE)
  obtain locked where "(spans, database s1) = (map bf_envelope (buffered_rows (LeaseTenant lease) (LeaseTrace lease)
      (database (tail_pg w))), database (tail_pg w))"
    using s1(1) unfolding LoadTailTrace_def by (auto simp: select_def elim: autocommit_returned)
  then have same: "spans = map bf_envelope (buffered_rows (LeaseTenant lease) (LeaseTrace lease) (database (tail_pg w)))"
    "database s1 = database (tail_pg w)" by simp_all
  have u: "unique_rows (database s1)"
    using assms(2) unfolding same(2) store_ok_def tail_ok_def by blast
  from s2(1) show thesis
  proof (cases rule: RecordTailDecision_effect)
    case (all b' now)
    from decide_tx_effect [OF all(1) u] assms(3) that [of decision now] decision show thesis
      by (simp add: same s2(2))
  qed simp
qed

text \<open>
  C24. A failed request is never sampled away: when the runner decides a leased trace of which one
  buffered span reports an error, all of its buffered events go to the outbox, the buffer is
  emptied, and the decision on record says that the error is why.
\<close>

theorem error_traces_kept:
  assumes "reachable hashtext (tail_pg w)" and "lease_current (Owner cfg) lease (database (tail_pg w))"
    and "b \<in> set (tail_buffers (database (tail_pg w)))" "in_trace (LeaseTenant lease) (LeaseTrace lease) b"
    and "isError (bf_envelope b)"
    and "process_lease millis pg_source cfg lease w = (Inr (), w')"
  shows "bf_key ` {b \<in> set (tail_buffers (database (tail_pg w))). in_trace (LeaseTenant lease) (LeaseTrace lease) b}
      \<subseteq> ob_key ` set (tail_outbox (database (tail_pg w'))) \<and>
    (\<forall>b \<in> set (tail_buffers (database (tail_pg w'))). \<not> in_trace (LeaseTenant lease) (LeaseTrace lease) b) \<and>
    (\<exists>c \<in> set (tail_decisions (database (tail_pg w'))). decision_key c = (LeaseTenant lease, LeaseTrace lease) \<and>
       dc_reason c = ''retained_error'' \<and> dc_retained c)"
proof -
  obtain decision now where d: "Decide millis (LeaseTrace lease) (map bf_envelope (buffered_rows (LeaseTenant lease)
      (LeaseTrace lease) (database (tail_pg w)))) (SamplingConfig cfg) = Some decision"
    and db: "database (tail_pg w') = close_db now (LeaseTenant lease) (LeaseTrace lease) (Reason decision) (Retained decision)
       (decided_outbox now lease decision (database (tail_pg w))) (database (tail_pg w))"
    using process_lease_decides [OF assms(6) reachable_ok [OF assms(1)] assms(2)] .
  have "list_ex isError (map bf_envelope (buffered_rows (LeaseTenant lease) (LeaseTrace lease) (database (tail_pg w))))"
    using assms(3-5) by (auto simp: list_ex_iff buffered_rows_def)
  then have "Retained decision" "Reason decision = ''retained_error''"
    using d by (auto simp: Decide_def Let_def retained_def)
  then show ?thesis
    by (simp add: db close_db_rows decided_outbox_def outbox_after_keys buffered_rows_def decision_key_def)
qed

definition failed_span :: envelope where
  "failed_span = make_envelope ''tenant-a'' ''v1'' []
     \<lparr>EventID = ''e1'', Signal = ''trace'', TraceID = ''t1'', SpanID = ''s1'', ParentSpanID = '''',
      Name = ''checkout'', Attributes = [(''http.status_code'', ''503'')]\<rparr>"

definition leased_failure :: "unit tail_world" where
  "leased_failure = \<lparr>tail_pg = snd (ClaimTailTraces ''tailer'' 0 30000000000 10
       (snd (StageBatch_pg (\<lambda>_. 0) (\<lambda>groups. groups) [failed_span] first_session))),
     tail_broker = ()\<rparr>"

lemma leased_failure_reachable: "reachable (\<lambda>_. 0) (tail_pg leased_failure)"
  unfolding leased_failure_def tail_world.simps
  by (rule reachable_step [OF reachable_step [OF first_reachable store_step.stage [OF prod.collapse [symmetric]]]
        store_step.claim [OF prod.collapse [symmetric]]])

lemma error_traces_kept_witness:
  "ob_key ` set (tail_outbox (database (tail_pg (snd (process_lease (\<lambda>_. None) pg_source
     (runner_defaults tailer) first_lease leased_failure))))) \<supseteq> {''tenant-a:e1''}"
proof -
  let ?run = "process_lease (\<lambda>_. None) pg_source (runner_defaults tailer) first_lease leased_failure"
  let ?b = "hd (tail_buffers (database (tail_pg leased_failure)))"
  have run: "fst ?run = Inr ()" "lease_current (Owner (runner_defaults tailer)) first_lease (database (tail_pg leased_failure))"
    "?b \<in> set (tail_buffers (database (tail_pg leased_failure)))" "isError (bf_envelope ?b)"
    "in_trace (LeaseTenant first_lease) (LeaseTrace first_lease) ?b" "bf_key ?b = ''tenant-a:e1''"
    by code_simp+
  have "?run = (Inr (), snd ?run)" by (rule prod_eqI) (simp_all only: run(1) fst_conv snd_conv)
  from conjunct1 [OF error_traces_kept [OF leased_failure_reachable run(2,3,5,4) this]]
  have kept: "bf_key ` {b \<in> set (tail_buffers (database (tail_pg leased_failure))).
      in_trace (LeaseTenant first_lease) (LeaseTrace first_lease) b}
    \<subseteq> ob_key ` set (tail_outbox (database (tail_pg (snd ?run))))" .
  have "bf_key ?b \<in> ob_key ` set (tail_outbox (database (tail_pg (snd ?run))))"
    by (rule subsetD [OF kept imageI]) (rule CollectI, rule conjI, rule run(3), rule run(5))
  then show ?thesis unfolding run(6) by (rule insert_subsetI [OF _ empty_subsetI])
qed

text \<open>A span that arrives after its trace was decided is refused; nothing is recorded of it.\<close>

lemma late_span_refused:
  "fst (StageBatch_pg (\<lambda>_. 0) (\<lambda>groups. groups) [first_span\<lparr>EventKey := ''tenant-a:e2''\<rparr>]
     (tail_pg (snd (runner_process (\<lambda>_. None) pg_source (broker_publish key_kafka) tailer first_world)))) = Inl ErrTailTraceClosed"
  by code_simp

end
