(* ===== verification/Observe.thy ===== *)
theory Observe
  imports GoText "HOL-Library.AList"
begin

text \<open>
  \<^verbatim>\<open>internal/observe/http.go\<close>: the request counters of the HTTP services. Routes are a fixed set of names, so
  nothing of a path, a tenant or a body can become a label. Counters are 64 bits wide and wrap.
  Latencies are numbers of an ordered type with the addition of floating point as a parameter: what
  is proved of them needs no more than their order.
\<close>

subsection \<open>The counters\<close>

type_synonym counter = "64 word"

record 'f http_metrics =
  Service :: string
  Counts :: "(string \<times> counter) list"
  Durations :: "(string \<times> counter list) list"
  DurationSums :: "(string \<times> 'f) list"
  DurationCounts :: "(string \<times> counter) list"

text \<open>The bounds in milliseconds; a latency is compared with them in the unit the client of the model chooses.\<close>

definition durationBuckets :: "nat list" where
  "durationBuckets = [5, 10, 25, 50, 100, 250, 500, 1000, 3000, 10000]"

definition NewHTTP :: "string \<Rightarrow> 'f http_metrics" where
  "NewHTTP service = \<lparr>Service = service, Counts = [], Durations = [], DurationSums = [], DurationCounts = []\<rparr>"

definition route :: "string \<Rightarrow> string" where
  "route path =
     (if has_prefix path ''/v1/traces/'' then ''trace''
      else if path = ''/v1/traces'' then ''ingest''
      else if path = ''/v1/metrics'' then ''metrics''
      else if path = ''/v1/dependencies'' then ''dependencies''
      else if path = ''/v1/audit'' then ''audit''
      else if path = ''/v1/retention/delete'' then ''deletion''
      else ''other'')"

text \<open>\<^verbatim>\<open>m[key] += x\<close> on a Go map: a missing key counts as zero.\<close>

definition bump :: "'v \<Rightarrow> ('v \<Rightarrow> 'v) \<Rightarrow> string \<Rightarrow> (string \<times> 'v) list \<Rightarrow> (string \<times> 'v) list" where
  "bump zero f key m = AList.update key (f (get_or zero m key)) m"

text \<open>
  What is measured: \<open>Within elapsed bucket\<close> compares a time with a bound, \<open>Add\<close> adds to a sum of floating
  point numbers that begins with \<open>Zero\<close>.
\<close>

record 'f clock_arith =
  Within :: "'f \<Rightarrow> nat \<Rightarrow> bool"
  Add :: "'f \<Rightarrow> 'f \<Rightarrow> 'f"
  Zero :: 'f

definition record_request :: "'f clock_arith \<Rightarrow> string \<Rightarrow> nat \<Rightarrow> 'f \<Rightarrow> 'f http_metrics \<Rightarrow> 'f http_metrics" where
  "record_request ar path status elapsed m =
     (let routeName = route path;
          buckets = (case map_of (Durations m) routeName of
            None \<Rightarrow> replicate (length durationBuckets) 0 | Some counts \<Rightarrow> counts)
      in m\<lparr>Counts := bump 0 (\<lambda>n. n + 1) (routeName @ '':'' @ format_nat status) (Counts m),
           Durations := AList.update routeName
             (map2 (\<lambda>bucket n. if Within ar elapsed bucket then n + 1 else n) durationBuckets buckets) (Durations m),
           DurationSums := bump (Zero ar) (\<lambda>x. Add ar x elapsed) routeName (DurationSums m),
           DurationCounts := bump 0 (\<lambda>n. n + 1) routeName (DurationCounts m)\<rparr>)"

text \<open>\<^verbatim>\<open>Wrap\<close>: the handler runs first, then its status is recorded; the time it took is an argument.\<close>

definition Wrap ::
  "'f clock_arith \<Rightarrow> ('r \<Rightarrow> string) \<Rightarrow> ('a \<Rightarrow> nat) \<Rightarrow> ('r \<Rightarrow> 's \<Rightarrow> 'a \<times> 's) \<Rightarrow> 'f \<Rightarrow> 'r
     \<Rightarrow> 'f http_metrics \<times> 's \<Rightarrow> 'a \<times> 'f http_metrics \<times> 's" where
  "Wrap ar path_of status_of handler elapsed r = (\<lambda>(m, s).
     let (response, s) = handler r s
     in (response, record_request ar (path_of r) (status_of response) elapsed m, s))"

subsection \<open>The exposition\<close>

text \<open>
  The lines of \<^verbatim>\<open>/metrics\<close> with a value, by their labels; \<open>None\<close> is the bound \<^verbatim>\<open>+Inf\<close>. \<open>None\<close> for the whole is
  the panic of an index out of range.
\<close>

datatype 'f metric_sample =
    RequestsTotal string string string counter
  | DurationBucket string string "nat option" counter
  | DurationSum string string 'f
  | DurationCount string string counter

definition request_lines :: "'f http_metrics \<Rightarrow> 'f metric_sample list option" where
  "request_lines m =
     those (map (\<lambda>(key, n). case split_on (CHR '':'') key of
         part0 # part1 # _ \<Rightarrow> Some (RequestsTotal (Service m) part0 part1 n)
       | _ \<Rightarrow> None) (Counts m))"

definition duration_lines :: "'f clock_arith \<Rightarrow> 'f http_metrics \<Rightarrow> string \<times> counter list \<Rightarrow> 'f metric_sample list option" where
  "duration_lines ar m = (\<lambda>(routeName, buckets).
     if length durationBuckets < length buckets then None
     else Some (map2 (\<lambda>bucket n. DurationBucket (Service m) routeName (Some bucket) n) durationBuckets buckets @
       [DurationBucket (Service m) routeName None (get_or 0 (DurationCounts m) routeName),
        DurationSum (Service m) routeName (get_or (Zero ar) (DurationSums m) routeName),
        DurationCount (Service m) routeName (get_or 0 (DurationCounts m) routeName)]))"

definition metrics_ServeHTTP :: "'f clock_arith \<Rightarrow> 'f http_metrics \<Rightarrow> string \<Rightarrow> nat \<times> 'f metric_sample list option" where
  "metrics_ServeHTTP ar m verb =
     (if verb \<noteq> ''GET'' then (404, Some [])
      else (200, case (request_lines m, those (map (duration_lines ar m) (Durations m))) of
        (Some requests, Some durations) \<Rightarrow> Some (requests @ concat durations)
      | _ \<Rightarrow> None))"

subsection \<open>What the counters say\<close>

text \<open>A history of requests: path, status and time of each.\<close>

type_synonym 'f history = "(string \<times> nat \<times> 'f) list"

definition observed :: "'f clock_arith \<Rightarrow> string \<Rightarrow> 'f history \<Rightarrow> 'f http_metrics" where
  "observed ar service hist = fold (\<lambda>(path, status, elapsed). record_request ar path status elapsed) hist (NewHTTP service)"

definition route_names :: "string list" where
  "route_names = [''trace'', ''ingest'', ''metrics'', ''dependencies'', ''audit'', ''deletion'', ''other'']"

lemma route_in_names: "route path \<in> set route_names"
  by (simp add: route_def route_names_def)

lemma route_no_colon: "CHR '':'' \<notin> set (route path)"
  by (simp add: route_def)

lemma observed_Nil [simp]: "observed ar service [] = NewHTTP service"
  by (simp add: observed_def)

lemma observed_snoc [simp]:
  "observed ar service (hist @ [(path, status, elapsed)]) = record_request ar path status elapsed (observed ar service hist)"
  by (simp add: observed_def)

lemma Service_observed [simp]: "Service (observed ar service hist) = service"
  by (induction hist rule: rev_induct) (auto simp: NewHTTP_def record_request_def Let_def)

lemma map_of_bump: "map_of (bump zero f key m) k = (if k = key then Some (f (get_or zero m key)) else map_of m k)"
  by (simp add: bump_def update_conv')

text \<open>The key of a counter determines its route and its status.\<close>

definition counter_key :: "string \<Rightarrow> nat \<Rightarrow> string" where
  "counter_key routeName status = routeName @ '':'' @ format_nat status"

lemma split_counter_key: "split_on (CHR '':'') (counter_key (route p) i) = [route p, format_nat i]"
proof -
  have "\<not> is_digit (CHR '':'')" by (simp add: is_digit_def in_range_def byte_of_def)
  then have "CHR '':'' \<notin> set (format_nat i)" using format_nat_digits by blast
  then show ?thesis
    using split_on_append [OF route_no_colon] by (simp add: counter_key_def split_on_no_sep_id)
qed

lemma counter_key_inject: "counter_key (route p) i = counter_key (route q) j \<longleftrightarrow> route p = route q \<and> i = j"
  by (metis split_counter_key list.inject format_nat_inject counter_key_def)

definition requests :: "string \<Rightarrow> nat \<Rightarrow> 'f history \<Rightarrow> nat" where
  "requests routeName status hist = length (filter (\<lambda>(p, s, _). route p = routeName \<and> s = status) hist)"

lemma Counts_record:
  "map_of (Counts (record_request ar p i e m)) k =
     (if k = counter_key (route p) i then Some (get_or 0 (Counts m) k + 1) else map_of (Counts m) k)"
  by (simp add: record_request_def Let_def map_of_bump counter_key_def)

lemma Counts_observed:
  "map_of (Counts (observed ar service hist)) (counter_key (route q) j)
     = (if requests (route q) j hist = 0 then None else Some (of_nat (requests (route q) j hist)))"
proof (induction hist rule: rev_induct)
  case (snoc x hist)
  obtain p i e where x: "x = (p, i, e)" by (cases x)
  show ?case
    unfolding x observed_snoc Counts_record
    using snoc by (cases "route p = route q \<and> i = j") (auto simp: counter_key_inject get_or_def requests_def)
qed (simp add: NewHTTP_def requests_def)

lemma Counts_keys:
  "fst ` set (Counts (observed ar service hist)) = (\<lambda>(p, i, _). counter_key (route p) i) ` set hist"
proof (induction hist rule: rev_induct)
  case (snoc x hist)
  obtain p i e where x: "x = (p, i, e)" by (cases x)
  have "dom (map_of (Counts (observed ar service (hist @ [x]))))
      = insert (counter_key (route p) i) (dom (map_of (Counts (observed ar service hist))))"
    unfolding x observed_snoc by (auto simp: dom_def Counts_record)
  then show ?case using snoc by (simp add: dom_map_of_conv_image_fst x)
qed (simp add: NewHTTP_def)

lemma Counts_distinct: "distinct (map fst (Counts (observed ar service hist)))"
proof (induction hist rule: rev_induct)
  case (snoc x hist)
  then show ?case
    by (cases x) (simp add: record_request_def Let_def bump_def distinct_update)
qed (simp add: NewHTTP_def)

text \<open>The same for the durations: \<open>timed\<close> counts the requests of a route with a time of a kind.\<close>

definition timed :: "('f \<Rightarrow> bool) \<Rightarrow> string \<Rightarrow> 'f history \<Rightarrow> nat" where
  "timed q routeName hist = length (filter (\<lambda>(p, _, e). route p = routeName \<and> q e) hist)"

lemma timed_simps [simp]:
  "timed q routeName [] = 0"
  "timed q routeName (hist @ [(p, i, e)]) = timed q routeName hist + (if route p = routeName \<and> q e then 1 else 0)"
  by (simp_all add: timed_def)

lemma timed_le: "(\<And>e. q e \<Longrightarrow> q' e) \<Longrightarrow> timed q routeName hist \<le> timed q' routeName hist"
  by (induction hist rule: rev_induct) auto

lemma timed_le_length: "timed q routeName hist \<le> length hist"
  by (simp add: timed_def)

lemma DurationCounts_observed:
  "map_of (DurationCounts (observed ar service hist)) r
     = (if timed (\<lambda>_. True) r hist = 0 then None else Some (of_nat (timed (\<lambda>_. True) r hist)))"
  by (induction hist rule: rev_induct)
    (auto simp: NewHTTP_def record_request_def Let_def map_of_bump get_or_def split: if_splits)

lemma bucket_loop: "map2 f bs (map g bs) = map (\<lambda>b. f b (g b)) bs"
  using map2_map_map [of f id bs g] by simp

lemma Durations_observed:
  "map_of (Durations (observed ar service hist)) r
     = (if timed (\<lambda>_. True) r hist = 0 then None
        else Some (map (\<lambda>b. of_nat (timed (\<lambda>e. Within ar e b) r hist)) durationBuckets))"
proof (induction hist rule: rev_induct)
  case (snoc x hist)
  obtain p i e where x: "x = (p, i, e)" by (cases x)
  have none: "timed (\<lambda>e. Within ar e b) r hist = 0" if "timed (\<lambda>_. True) r hist = 0" for b
    using that timed_le [of "\<lambda>e. Within ar e b" "\<lambda>_. True" r hist] by simp
  have "(case map_of (Durations (observed ar service hist)) r of
      None \<Rightarrow> replicate (length durationBuckets) 0 | Some counts \<Rightarrow> counts)
    = map (\<lambda>b. of_nat (timed (\<lambda>e. Within ar e b) r hist)) durationBuckets"
    using snoc none by (simp add: map_replicate_const [symmetric])
  then show ?case
    using snoc
    by (cases "r = route p") (simp_all add: x record_request_def Let_def update_conv' bucket_loop)
qed (simp add: NewHTTP_def)

subsection \<open>What the exposition says\<close>

lemma Durations_distinct: "distinct (map fst (Durations (observed ar service hist)))"
proof (induction hist rule: rev_induct)
  case (snoc x hist)
  then show ?case
    by (cases x) (simp add: record_request_def Let_def distinct_update)
qed (simp add: NewHTTP_def)

lemma those_map: "(\<And>x. x \<in> set xs \<Longrightarrow> f x = Some (g x)) \<Longrightarrow> those (map f xs) = Some (map g xs)"
  by (induction xs) auto

fun sample_route :: "'f metric_sample \<Rightarrow> string" where
  "sample_route (RequestsTotal _ r _ _) = r"
| "sample_route (DurationBucket _ r _ _) = r"
| "sample_route (DurationSum _ r _) = r"
| "sample_route (DurationCount _ r _) = r"

lemma request_lines_observed:
  fixes ar :: "'f clock_arith"
  obtains lines where "request_lines (observed ar service hist) = Some lines"
    and "set lines = {RequestsTotal service (route p) (format_nat i) (of_nat (requests (route p) i hist)) |p i e. (p, i, e) \<in> set hist}"
proof -
  let ?m = "observed ar service hist"
  define line :: "string \<times> counter \<Rightarrow> 'f metric_sample" where
    "line = (\<lambda>(key, n). RequestsTotal service (hd (split_on (CHR '':'') key)) (split_on (CHR '':'') key ! 1) n)"
  have key: "\<exists>p i e. k = counter_key (route p) i \<and> (p, i, e) \<in> set hist \<and> n = of_nat (requests (route p) i hist)"
    if "(k, n) \<in> set (Counts ?m)" for k n
  proof -
    have "k \<in> fst ` set (Counts ?m)" using that by force
    then obtain p i e where k: "k = counter_key (route p) i" "(p, i, e) \<in> set hist"
      unfolding Counts_keys by auto
    moreover have "map_of (Counts ?m) k = Some n" using that Counts_distinct by (metis map_of_is_SomeI)
    ultimately show ?thesis using Counts_observed [of ar service hist p i] by (auto split: if_splits)
  qed
  have "request_lines ?m = Some (map line (Counts ?m))"
    unfolding request_lines_def
  proof (rule those_map)
    fix x assume x: "x \<in> set (Counts ?m)"
    obtain k n where kn: "x = (k, n)" by fastforce
    with x key obtain p i where "k = counter_key (route p) i" by blast
    then show "(case x of (key, n) \<Rightarrow> case split_on (CHR '':'') key of
         part0 # part1 # _ \<Rightarrow> Some (RequestsTotal (Service ?m) part0 part1 n) | _ \<Rightarrow> None) = Some (line x)"
      by (simp add: kn split_counter_key line_def)
  qed
  moreover have "set (map line (Counts ?m))
      = {RequestsTotal service (route p) (format_nat i) (of_nat (requests (route p) i hist)) |p i e. (p, i, e) \<in> set hist}"
  proof (intro set_eqI iffI)
    fix l assume "l \<in> set (map line (Counts ?m))"
    then obtain k n where "(k, n) \<in> set (Counts ?m)" "l = line (k, n)" by auto
    with key [OF this(1)] obtain p i e where "(p, i, e) \<in> set hist"
      "l = RequestsTotal service (route p) (format_nat i) (of_nat (requests (route p) i hist))"
      by (auto simp: line_def split_counter_key)
    then show "l \<in> {RequestsTotal service (route p) (format_nat i) (of_nat (requests (route p) i hist)) |p i e. (p, i, e) \<in> set hist}"
      by blast
  next
    fix l :: "'f metric_sample" assume "l \<in> {RequestsTotal service (route p) (format_nat i) (of_nat (requests (route p) i hist)) |p i e. (p, i, e) \<in> set hist}"
    then obtain p i e where l: "l = RequestsTotal service (route p) (format_nat i) (of_nat (requests (route p) i hist))"
      "(p, i, e) \<in> set hist" by blast
    have "requests (route p) i hist \<noteq> 0" using l(2) by (auto simp: requests_def filter_empty_conv)
    then have "(counter_key (route p) i, of_nat (requests (route p) i hist)) \<in> set (Counts ?m)"
      using Counts_observed [of ar service hist p i] by (simp add: map_of_SomeD)
    then show "l \<in> set (map line (Counts ?m))"
      by (force simp: l(1) line_def split_counter_key)
  qed
  ultimately show thesis by (rule that)
qed

lemma Durations_keys: "fst ` set (Durations (observed ar service hist)) \<subseteq> set route_names"
proof -
  have "timed (\<lambda>_. True) r hist = 0" if "r \<notin> set route_names" for r
    using that route_in_names by (auto simp: timed_def filter_empty_conv)
  then have "map_of (Durations (observed ar service hist)) r = None" if "r \<notin> set route_names" for r
    using that by (simp add: Durations_observed)
  then show ?thesis by (metis map_of_eq_None_iff subsetI)
qed

lemma duration_lines_observed:
  obtains parts where "those (map (duration_lines ar (observed ar service hist)) (Durations (observed ar service hist))) = Some parts"
    and "sample_route ` set (concat parts) \<subseteq> set route_names"
    and "\<And>svc r code n. RequestsTotal svc r code n \<notin> set (concat parts)"
proof -
  let ?m = "observed ar service hist"
  have lengths: "length counts = length durationBuckets" if "(r, counts) \<in> set (Durations ?m)" for r counts
  proof -
    have "map_of (Durations ?m) r = Some counts"
      using that by (intro map_of_is_SomeI) (auto simp: Durations_distinct)
    then show ?thesis by (auto simp: Durations_observed split: if_splits)
  qed
  define part where "part = (\<lambda>(r, counts). map2 (\<lambda>bucket n. DurationBucket service r (Some bucket) n) durationBuckets counts @
       [DurationBucket service r None (get_or 0 (DurationCounts ?m) r),
        DurationSum service r (get_or (Zero ar) (DurationSums ?m) r),
        DurationCount service r (get_or 0 (DurationCounts ?m) r)])"
  have lines: "duration_lines ar ?m x = Some (part x)" if "x \<in> set (Durations ?m)" for x
  proof -
    obtain r counts where x: "x = (r, counts)" by fastforce
    show ?thesis using lengths [of r counts] that by (simp add: x part_def duration_lines_def)
  qed
  have "those (map (duration_lines ar ?m) (Durations ?m)) = Some (map part (Durations ?m))"
    by (rule those_map) (rule lines)
  moreover have "sample_route l = fst x \<and> l \<noteq> RequestsTotal svc r code n"
    if "x \<in> set (Durations ?m)" "l \<in> set (part x)" for x l svc r code n
  proof -
    obtain r' counts where x: "x = (r', counts)" by fastforce
    show ?thesis using that(2) by (auto simp: x part_def)
  qed
  ultimately show thesis using that Durations_keys by (fastforce simp: image_subset_iff)
qed

subsection \<open>Properties\<close>

text \<open>
  C36. What a service reports: whatever requests it has served, reporting never fails, it reports exactly one line for
  each pair of a route and a status that occurred, with the number of those requests modulo 2 to the
  64, and every route on any line is one of seven fixed names: no part of a path is a label.
\<close>

theorem metrics_report:
  "\<exists>lines. metrics_ServeHTTP ar (observed ar service hist) ''GET'' = (200, Some lines) \<and>
    {l \<in> set lines. \<exists>svc r code n. l = RequestsTotal svc r code n}
      = {RequestsTotal service (route p) (format_nat i) (of_nat (requests (route p) i hist)) |p i e. (p, i, e) \<in> set hist} \<and>
    sample_route ` set lines \<subseteq> set route_names"
proof -
  obtain lines where l: "request_lines (observed ar service hist) = Some lines"
    "set lines = {RequestsTotal service (route p) (format_nat i) (of_nat (requests (route p) i hist)) |p i e. (p, i, e) \<in> set hist}"
    by (rule request_lines_observed)
  obtain parts where p: "those (map (duration_lines ar (observed ar service hist)) (Durations (observed ar service hist))) = Some parts"
    "sample_route ` set (concat parts) \<subseteq> set route_names"
    "\<And>svc r code n. RequestsTotal svc r code n \<notin> set (concat parts)"
    by (rule duration_lines_observed [of ar service hist]) (rule that)
  have "metrics_ServeHTTP ar (observed ar service hist) ''GET'' = (200, Some (lines @ concat parts))"
    by (simp add: metrics_ServeHTTP_def l(1) p(1))
  moreover have "{l \<in> set (lines @ concat parts). \<exists>svc r code n. l = RequestsTotal svc r code n} = set lines"
  proof -
    have "\<exists>svc r code n. l = RequestsTotal svc r code n" if "l \<in> set lines" for l
      using that unfolding l(2) by blast
    then show ?thesis using p(3) unfolding set_append by blast
  qed
  moreover have "sample_route ` set (lines @ concat parts) \<subseteq> set route_names"
  proof -
    have "sample_route ` set lines \<subseteq> set route_names"
      unfolding l(2) using route_in_names by fastforce
    then show ?thesis using p(2) by (simp add: image_Un del: set_concat)
  qed
  ultimately show ?thesis
    unfolding l(2) [symmetric] by (intro exI [of _ "lines @ concat parts"] conjI)
qed

text \<open>
  C37. The latency histogram of a route is cumulative, as Prometheus requires: with fewer than 2 to the 64
  requests, the count of a bound is at most that of any larger bound and of \<^verbatim>\<open>+Inf\<close>, and the last is the number of
  requests of the route.
\<close>

theorem histogram_cumulative:
  assumes "length hist < 2 ^ 64"
    and "\<And>e b c. Within ar e b \<Longrightarrow> b \<le> c \<Longrightarrow> Within ar e c"
    and "(r, counts) \<in> set (Durations (observed ar service hist))"
  shows "sorted (map unat counts) \<and> length counts = length durationBuckets \<and>
    unat (last counts) \<le> unat (get_or 0 (DurationCounts (observed ar service hist)) r) \<and>
    unat (get_or 0 (DurationCounts (observed ar service hist)) r) = timed (\<lambda>_. True) r hist"
proof -
  have small: "unat (of_nat (timed q r hist) :: counter) = timed q r hist" for q
    using timed_le_length [of q r hist] assms(1) by (simp add: unsigned_of_nat take_bit_nat_eq_self)
  have "map_of (Durations (observed ar service hist)) r = Some counts"
    using assms(3) by (intro map_of_is_SomeI) (auto simp: Durations_distinct)
  then have counts: "counts = map (\<lambda>b. of_nat (timed (\<lambda>e. Within ar e b) r hist)) durationBuckets"
    and some: "timed (\<lambda>_. True) r hist \<noteq> 0"
    by (auto simp: Durations_observed split: if_splits)
  have total: "get_or 0 (DurationCounts (observed ar service hist)) r = of_nat (timed (\<lambda>_. True) r hist)"
    using some by (simp add: get_or_def DurationCounts_observed)
  have "sorted_wrt (\<lambda>b c. timed (\<lambda>e. Within ar e b) r hist \<le> timed (\<lambda>e. Within ar e c) r hist) durationBuckets"
    by (rule sorted_wrt_mono_rel [of _ "(\<le>)"]) (auto intro: timed_le assms(2) simp: durationBuckets_def)
  then have "sorted (map unat counts)"
    by (simp add: counts small sorted_wrt_map)
  moreover have "unat (last counts) \<le> timed (\<lambda>_. True) r hist"
    by (simp add: counts last_map durationBuckets_def small timed_le)
  ultimately show ?thesis by (simp add: total small counts)
qed

definition millis_clock :: "nat clock_arith" where
  "millis_clock = \<lparr>Within = (\<le>), Add = (+), Zero = 0\<rparr>"

lemma histogram_cumulative_witness:
  "unat (last (snd (hd (Durations (observed millis_clock ''query'' [(''/v1/audit'', 200, 7), (''/v1/audit'', 503, 40)])))))
     \<le> unat (get_or 0 (DurationCounts (observed millis_clock ''query'' [(''/v1/audit'', 200, 7), (''/v1/audit'', 503, 40)])) ''audit'')"
proof -
  let ?m = "observed millis_clock ''query'' [(''/v1/audit'', 200, 7), (''/v1/audit'', 503, 40)]"
  have "hd (Durations ?m) \<in> set (Durations ?m)" "fst (hd (Durations ?m)) = ''audit''"
    by (simp_all add: observed_def NewHTTP_def record_request_def route_def has_prefix_def Let_def)
  then have "(''audit'', snd (hd (Durations ?m))) \<in> set (Durations ?m)" by (metis prod.collapse)
  from histogram_cumulative [OF _ _ this] show ?thesis by (simp add: millis_clock_def)
qed

end
