(* ===== verification/Services.thy ===== *)
theory Services
  imports QueryApi TailRunner Observe
begin

text \<open>
  The commands under \<^verbatim>\<open>cmd/\<close> that are more than wiring: the CORS layer of the query service, the
  configuration of the gateway, the error classes of the tailer, the two migration tools, the
  retention pass and the broker audit.
\<close>

subsection \<open>CORS of the query service\<close>

record cors_request =
  Origin :: string
  CorsMethod :: string
  RequestedMethod :: string

datatype 'r cors_answer = Forbidden | NoContent | Served 'r

text \<open>\<^verbatim>\<open>cors\<close>: the headers it sets, and its own answer to a preflight or that of the handler.\<close>

definition cors ::
  "string \<Rightarrow> cors_request \<Rightarrow> ('s \<Rightarrow> 'r \<times> 's) \<Rightarrow> 's \<Rightarrow> (attrs \<times> 'r cors_answer) \<times> 's" where
  "cors allowedOrigin r next_handler s =
     (let headers = (if Origin r = allowedOrigin
            then [(''Access-Control-Allow-Origin'', allowedOrigin), (''Vary'', ''Origin''),
                  (''Access-Control-Allow-Methods'', ''GET, POST, OPTIONS''),
                  (''Access-Control-Allow-Headers'', ''X-PAOP-API-Key, Content-Type, X-PAOP-Delete-Confirm'')]
            else [])
      in if CorsMethod r = ''OPTIONS''
         then if Origin r \<noteq> allowedOrigin \<or> (RequestedMethod r \<noteq> ''GET'' \<and> RequestedMethod r \<noteq> ''POST'')
              then ((headers, Forbidden), s)
              else ((headers, NoContent), s)
         else let (response, s) = next_handler s in ((headers, Served response), s))"

subsection \<open>Configuration\<close>

text \<open>\<^verbatim>\<open>os.Getenv\<close> reads an unset variable as empty.\<close>

definition valueOr :: "(string \<Rightarrow> string) \<Rightarrow> string \<Rightarrow> string \<Rightarrow> string" where
  "valueOr getenv name fallback = (if getenv name \<noteq> [] then getenv name else fallback)"

text \<open>\<^verbatim>\<open>compilePatterns\<close>: \<open>None\<close> is the panic of \<^verbatim>\<open>regexp.MustCompile\<close>.\<close>

fun compile_each :: "(string \<Rightarrow> regexp option) \<Rightarrow> string list \<Rightarrow> regexp list \<Rightarrow> regexp list option" where
  "compile_each compile [] patterns = Some patterns"
| "compile_each compile (expression # rest) patterns =
     (if expression \<noteq> []
      then case compile expression of
             None \<Rightarrow> None
           | Some re \<Rightarrow> compile_each compile rest (patterns @ [re])
      else compile_each compile rest patterns)"

definition compilePatterns :: "(string \<Rightarrow> regexp option) \<Rightarrow> string \<Rightarrow> regexp list option" where
  "compilePatterns compile raw = compile_each compile (split_on (CHR '','') raw) []"

text \<open>Names and other lists in flags and in SQL files.\<close>

definition trimmed :: "string list \<Rightarrow> string list" where
  "trimmed parts = filter (\<lambda>part. part \<noteq> []) (map trim_space parts)"

definition splitNonEmpty :: "string \<Rightarrow> string list" where
  "splitNonEmpty val = trimmed (split_on (CHR '','') val)"

definition splitStatements :: "string \<Rightarrow> string list" where
  "splitStatements statements = trimmed (split_on (CHR '';'') statements)"

text \<open>
  The configuration of the tail worker, \<^verbatim>\<open>cmd/tailer/main.go\<close>. \<open>parse_duration\<close> is \<^verbatim>\<open>time.ParseDuration\<close>; \<^const>\<open>None\<close> is the
  exit for an invalid configuration.
\<close>

definition duration_env :: "(string \<Rightarrow> string) \<Rightarrow> (string \<Rightarrow> int option) \<Rightarrow> string \<Rightarrow> int \<Rightarrow> int option" where
  "duration_env getenv parse_duration name fallback =
     (if getenv name \<noteq> [] then parse_duration (getenv name) else Some fallback)"

definition integer_env :: "(string \<Rightarrow> string) \<Rightarrow> string \<Rightarrow> int \<Rightarrow> int option" where
  "integer_env getenv name fallback =
     (if getenv name \<noteq> []
      then case atoi (getenv name) of (i, None) \<Rightarrow> Some i | (i, Some err) \<Rightarrow> None
      else Some fallback)"

definition tailer_config :: "(string \<Rightarrow> string) \<Rightarrow> (string \<Rightarrow> int option) \<Rightarrow> runner_config option" where
  "tailer_config getenv parse_duration =
     (case duration_env getenv parse_duration ''PAOP_TAIL_QUIET'' (2 * second) of
        None \<Rightarrow> None
      | Some quiet \<Rightarrow>
          (case integer_env getenv ''PAOP_HEALTHY_SAMPLE_MODULO'' 100 of
             None \<Rightarrow> None
           | Some every \<Rightarrow>
               if every < 1 then None
               else Some \<lparr>Owner = valueOr getenv ''PAOP_TAIL_OWNER'' ''tailer'',
                      Interval = valueOr getenv ''PAOP_TAIL_INTERVAL'' ''1s'', Quiet = quiet, LeaseTTL = 0, BatchSize = 0,
                      SamplingConfig = \<lparr>MaxTraces = 0, MaxSpansPerTrace = 0, HealthySampleModulo = every,
                        SlowThreshold = second\<rparr>\<rparr>))"

text \<open>
  A configuration that is accepted names an owner, and with a modulus that is not a multiple of \<open>2 ^ 32\<close> the worker
  decides every trace.
\<close>

lemma tailer_config_decides:
  assumes "tailer_config getenv parse_duration = Some cfg" and "\<not> 2 ^ 32 dvd HealthySampleModulo (SamplingConfig cfg)"
  shows "Owner cfg \<noteq> [] \<and> Interval cfg \<noteq> [] \<and> Decide millis traceID spans (SamplingConfig cfg) \<noteq> None"
proof -
  obtain quiet every where cfg: "1 \<le> every" "cfg = \<lparr>Owner = valueOr getenv ''PAOP_TAIL_OWNER'' ''tailer'',
      Interval = valueOr getenv ''PAOP_TAIL_INTERVAL'' ''1s'', Quiet = quiet, LeaseTTL = 0, BatchSize = 0,
      SamplingConfig = \<lparr>MaxTraces = 0, MaxSpansPerTrace = 0, HealthySampleModulo = every, SlowThreshold = second\<rparr>\<rparr>"
    using assms(1) by (auto simp: tailer_config_def not_less split: option.splits if_splits)
  have "(word_of_int every :: 32 word) \<noteq> 0" using assms(2) by (simp add: cfg(2) word_of_int_eq_0_iff)
  moreover have "decide_defaults (SamplingConfig cfg) = SamplingConfig cfg" using cfg(1) by (simp add: cfg(2) decide_defaults_def)
  ultimately have "Decide millis traceID spans (SamplingConfig cfg) \<noteq> None"
    by (simp add: Decide_def Let_def sample_total cfg(2) split: bool.split)
  then show ?thesis by (simp add: cfg(2) valueOr_def)
qed

text \<open>A text whose ends are visible ASCII characters is not trimmed.\<close>

lemma spaces_ends:
  "list_all (\<lambda>w. w \<noteq> [] \<and> \<not> (33 \<le> byte_of (hd w) \<and> byte_of (hd w) \<le> 126) \<and>
     \<not> (33 \<le> byte_of (last w) \<and> byte_of (last w) \<le> 126)) spaces"
  by (auto simp: spaces_def list_all_iff)

lemma leading_visible:
  assumes "33 \<le> byte_of c" and "byte_of c \<le> 126"
  shows "leading_space spaces (c # s) = 0" and "leading_space (map rev spaces) (c # s) = 0"
proof -
  have ends: "w \<noteq> [] \<and> hd w \<noteq> c \<and> last w \<noteq> c" if "w \<in> set spaces" for w
    using spaces_ends that assms by (auto simp: list_all_iff)
  have first: "hd u = c" if "prefix u (c # s)" "u \<noteq> []" for u
    using that by (cases u) auto
  have "\<not> prefix w (c # s) \<and> \<not> prefix (rev w) (c # s)" if "w \<in> set spaces" for w
    using ends [OF that] first [of w] first [of "rev w"] by (auto simp: hd_rev)
  then have "find (\<lambda>w. prefix w (c # s)) spaces = None" "find (\<lambda>w. prefix w (c # s)) (map rev spaces) = None"
    by (auto simp: find_None_iff)
  then show "leading_space spaces (c # s) = 0" and "leading_space (map rev spaces) (c # s) = 0"
    by (simp_all add: leading_space_def)
qed

lemma trim_left_none: "leading_space ws s = 0 \<Longrightarrow> trim_left ws s = s"
  by (subst trim_left.simps) simp

lemma trim_space_visible:
  assumes "s \<noteq> []" and "33 \<le> byte_of (hd s)" "byte_of (hd s) \<le> 126" "33 \<le> byte_of (last s)" "byte_of (last s) \<le> 126"
  shows "trim_space s = s"
proof -
  have "hd s # tl s = s" "last s # tl (rev s) = rev s"
    using assms(1) by (auto simp: hd_rev [symmetric])
  then show ?thesis
    using leading_visible(1) [OF assms(2,3), of "tl s"] leading_visible(2) [OF assms(4,5), of "tl (rev s)"]
    by (simp add: trim_space_def trim_left_none)
qed

lemma trim_space_Nil [simp]: "trim_space [] = []"
proof -
  have "leading_space ws [] = 0" for ws :: "string list"
    by (auto simp: leading_space_def find_Some_iff split: option.splits)
  then show ?thesis by (simp add: trim_space_def trim_left_none)
qed

subsection \<open>Error classes of the tailer\<close>

text \<open>
  The text of an error: \<open>base_text\<close> for the errors of drivers and the standard library. \<open>sql_state\<close> is the code of an
  error that is a \<^verbatim>\<open>pgconn.PgError\<close>; \<^verbatim>\<open>errors.As\<close> follows the wrapping.
\<close>

fun error_text :: "(go_error \<Rightarrow> string) \<Rightarrow> go_error \<Rightarrow> string" where
  "error_text base_text (Wrapped msg err) = msg @ '': '' @ error_text base_text err"
| "error_text base_text err = base_text err"

fun as_pg_error :: "(go_error \<Rightarrow> string option) \<Rightarrow> go_error \<Rightarrow> string option" where
  "as_pg_error sql_state (Wrapped msg err) = as_pg_error sql_state err"
| "as_pg_error sql_state err = sql_state err"

definition tail_stages :: "string list" where
  "tail_stages = [''claim_tail_traces'', ''load_tail_trace'', ''record_tail_decision'', ''claim_tail_outbox'',
     ''publish_tail_outbox'', ''mark_tail_outbox'']"

definition errorClass :: "(go_error \<Rightarrow> string) \<Rightarrow> (go_error \<Rightarrow> string option) \<Rightarrow> go_error \<Rightarrow> string" where
  "errorClass base_text sql_state err =
     (case as_pg_error sql_state err of
        Some code \<Rightarrow> ''postgres_'' @ code
      | None \<Rightarrow>
          (case find (contains (error_text base_text err)) tail_stages of
             Some stage \<Rightarrow> stage @ ''_failure''
           | None \<Rightarrow> ''tail_failure''))"
text \<open>Every error of the runner carries the stage it comes from.\<close>

definition staged_error :: "go_error \<Rightarrow> bool" where
  "staged_error err = (case err of Wrapped stage cause \<Rightarrow> stage \<in> set tail_stages | Panicked msg \<Rightarrow> True | _ \<Rightarrow> False)"

definition staged :: "('s, go_error, 'a) program \<Rightarrow> bool" where
  "staged m = (\<forall>s err s'. m s = (Inl err, s') \<longrightarrow> staged_error err)"

lemma stagedD: "staged m \<Longrightarrow> m s = (Inl err, s') \<Longrightarrow> staged_error err"
  by (simp add: staged_def) blast

lemma staged_ret: "staged (ret a)"
  by (simp add: staged_def)

lemma staged_wrapped: "stage \<in> set tail_stages \<Longrightarrow> staged (wrapped stage m)"
  by (auto simp: staged_def wrapped_def staged_error_def split: prod.splits sum.splits)

lemma staged_and_then: "staged m \<Longrightarrow> (\<And>a. staged (k a)) \<Longrightarrow> staged (and_then m k)"
  by (force simp: staged_def and_then_def split: prod.splits sum.splits)

lemma staged_each: "(\<And>x. staged (f x)) \<Longrightarrow> staged (each f xs)"
  by (induction xs) (auto intro: staged_and_then staged_ret simp del: ret_run)

lemma staged_lease: "staged (process_lease millis store cfg lease)"
proof -
  have "staged (case d of None \<Rightarrow> fail_with (Panicked msg)
      | Some decision \<Rightarrow> and_then (wrapped ''record_tail_decision'' (m decision)) (\<lambda>_. ret ()))" for d msg m
  proof (cases d)
    case (Some decision)
    have "staged (and_then (wrapped ''record_tail_decision'' (m decision)) (\<lambda>_. ret ()))"
      by (intro staged_and_then staged_wrapped staged_ret) (simp add: tail_stages_def)
    then show ?thesis by (simp add: Some del: ret_run)
  qed (simp add: staged_def staged_error_def)
  then show ?thesis
    unfolding process_lease_def by (intro staged_and_then staged_wrapped) (simp_all add: tail_stages_def)
qed

lemma runner_process_staged: "staged (runner_process millis store publish cfg)"
  unfolding runner_process_def Let_def publish_message_def
  by (intro staged_and_then staged_each staged_lease staged_wrapped) (simp_all add: tail_stages_def)

lemma contains_prefix: "contains (a @ s) a"
  unfolding contains_iff by (metis append_Nil)

text \<open>
  The log of the tailer names the stage that failed and nothing else: whatever store and broker do, the class of
  an error of a pass is the SQL state of a database error or one of six fixed names; text of an error is
  never logged, and no error goes unclassified.
\<close>

theorem error_class_names_stage:
  assumes "runner_process millis store publish cfg s = (Inl err, s')" and "\<And>msg. err \<noteq> Panicked msg"
  shows "errorClass base_text sql_state err \<in> (\<lambda>stage. stage @ ''_failure'') ` set tail_stages \<or>
    (\<exists>code. as_pg_error sql_state err = Some code \<and> errorClass base_text sql_state err = ''postgres_'' @ code)"
proof -
  have "staged_error err"
    by (rule stagedD [OF runner_process_staged assms(1)])
  then obtain stage cause where err: "err = Wrapped stage cause" "stage \<in> set tail_stages"
    using assms(2) by (auto simp: staged_error_def split: go_error.splits)
  show ?thesis
  proof (cases "as_pg_error sql_state err")
    case None
    have "contains (error_text base_text err) stage"
      by (simp add: err(1) contains_prefix)
    then have "find (contains (error_text base_text err)) tail_stages \<noteq> None"
      using err(2) by (auto simp: find_None_iff)
    then obtain found where found: "find (contains (error_text base_text err)) tail_stages = Some found" by blast
    then have "found \<in> set tail_stages" by (auto simp: find_Some_iff)
    then show ?thesis by (simp add: errorClass_def None found)
  qed (simp add: errorClass_def)
qed

lemma error_class_names_stage_witness:
  "errorClass (\<lambda>_. ''connection refused'') (\<lambda>_. None) (Wrapped ''claim_tail_traces'' Unavailable)
     \<in> (\<lambda>stage. stage @ ''_failure'') ` set tail_stages"
proof -
  let ?down = "first_world\<lparr>tail_pg := (tail_pg first_world)
    \<lparr>script := [\<lparr>took = Refused, elapsed = 0, held = \<lambda>_ _. False\<rparr>]\<rparr>\<rparr>"
  have "runner_process (\<lambda>_. None) pg_source (broker_publish key_kafka) tailer ?down
      = (Inl (Wrapped ''claim_tail_traces'' Unavailable),
         snd (runner_process (\<lambda>_. None) pg_source (broker_publish key_kafka) tailer ?down))"
    by (simp add: prod_eq_iff runner_process_def Let_def and_then_def wrapped_def pg_source_def on_pg_def
        ClaimTailTraces_def autocommit_def next_tick_def split: prod.splits)
  note run = this
  show ?thesis
    using error_class_names_stage [OF run, of "\<lambda>_. ''connection refused''" "\<lambda>_. None"] by simp
qed

end
