(* ===== verification/Migrations.thy ===== *)
theory Migrations
  imports Services "HOL-Library.List_Lexorder" "HOL-Library.Char_ord"
begin

text \<open>
  \<^verbatim>\<open>cmd/migrate\<close> and \<^verbatim>\<open>cmd/clickhouse-migrate\<close>: how the two schemas are brought up to date. PostgreSQL runs a
  migration and records its version in one transaction; ClickHouse has no transactions, and its files
  are run from the beginning again until all their statements succeed.
\<close>

subsection \<open>PostgreSQL\<close>

text \<open>
  The database as the tool sees it. \<open>'d\<close> is the schema; \<open>outcomes\<close> say what becomes of the calls to come, as in
  the model of the metadata store: done, refused with an error, or done but not acknowledged.
\<close>

record 'd migration_db =
  applied_versions :: "string list"
  schema :: 'd
  outcomes :: "outcome list"

definition next_outcome :: "'d migration_db \<Rightarrow> outcome \<times> 'd migration_db" where
  "next_outcome s = (case outcomes s of [] \<Rightarrow> (Done, s) | o1 # os \<Rightarrow> (o1, s\<lparr>outcomes := os\<rparr>))"

text \<open>A call whose failure leaves the data as it is.\<close>

definition reach :: "('d migration_db, go_error, unit) program" where
  "reach s = (let (o1, s) = next_outcome s in if o1 = Done then (Inr (), s) else (Inl Unavailable, s))"

text \<open>The commit of a transaction with its effect \<open>f\<close>.\<close>

definition commit_with :: "('d migration_db \<Rightarrow> 'd migration_db) \<Rightarrow> ('d migration_db, go_error, unit) program" where
  "commit_with f s =
     (let (o1, s) = next_outcome s
      in case o1 of Done \<Rightarrow> (Inr (), f s) | Unacked \<Rightarrow> (Inl Unavailable, f s) | Refused \<Rightarrow> (Inl Unavailable, s))"

text \<open>
  A file is its version and its contents; \<open>None\<close> cannot be read. \<open>exec\<close> runs a script on a schema and may
  reject it.
\<close>

definition version_exists :: "string \<Rightarrow> ('d migration_db, go_error, bool) program" where
  "version_exists version = and_then reach (\<lambda>_ s. (Inr (version \<in> set (applied_versions s)), s))"

definition run_script :: "(string \<Rightarrow> 'd \<Rightarrow> 'd option) \<Rightarrow> string \<Rightarrow> ('d migration_db, go_error, 'd) program" where
  "run_script exec contents = and_then reach (\<lambda>_ s.
     case exec contents (schema s) of None \<Rightarrow> (Inl (Errorf ''migration''), s) | Some d \<Rightarrow> (Inr d, s))"

definition migrate_file ::
  "(string \<Rightarrow> 'd \<Rightarrow> 'd option) \<Rightarrow> string \<times> string option \<Rightarrow> ('d migration_db, go_error, unit) program" where
  "migrate_file exec file =
     and_then (version_exists (fst file)) (\<lambda>exists.
       if exists then ret ()
       else case snd file of
         None \<Rightarrow> fail_with (Errorf ''open'')
       | Some contents \<Rightarrow>
           and_then reach (\<lambda>_.
           and_then (run_script exec contents) (\<lambda>d.
           and_then reach (\<lambda>_. commit_with
             (\<lambda>s. s\<lparr>applied_versions := applied_versions s @ [fst file], schema := d\<rparr>)))))"

definition migrate :: "(string \<Rightarrow> 'd \<Rightarrow> 'd option) \<Rightarrow> (string \<times> string option) list \<Rightarrow> ('d migration_db, go_error, unit) program" where
  "migrate exec files = and_then reach (\<lambda>_. each (migrate_file exec) (sort_key fst files))"

subsection \<open>What the migrations of PostgreSQL leave behind\<close>

text \<open>Running the scripts of some versions, one after the other.\<close>

fun replay :: "(string \<Rightarrow> 'd \<Rightarrow> 'd option) \<Rightarrow> (string \<times> string option) list \<Rightarrow> string list \<Rightarrow> 'd \<Rightarrow> 'd option" where
  "replay exec files [] d = Some d"
| "replay exec files (version # versions) d =
     (case map_of files version of
        Some (Some contents) \<Rightarrow> Option.bind (exec contents d) (replay exec files versions)
      | _ \<Rightarrow> None)"

lemma replay_snoc:
  assumes "replay exec files versions d0 = Some d" and "map_of files version = Some (Some contents)"
    and "exec contents d = Some d'"
  shows "replay exec files (versions @ [version]) d0 = Some d'"
  using assms by (induction versions arbitrary: d0) (auto split: option.splits bind_splits)

definition migrated ::
  "(string \<Rightarrow> 'd \<Rightarrow> 'd option) \<Rightarrow> (string \<times> string option) list \<Rightarrow> 'd \<Rightarrow> 'd migration_db \<Rightarrow> bool" where
  "migrated exec files d0 s =
     (distinct (applied_versions s) \<and> set (applied_versions s) \<subseteq> fst ` set files \<and>
      replay exec files (applied_versions s) d0 = Some (schema s))"

lemma migrated_outcomes [simp]: "migrated exec files d0 (s\<lparr>outcomes := os\<rparr>) = migrated exec files d0 s"
  by (simp add: migrated_def)

lemma next_outcome_eq: "\<exists>os. snd (next_outcome s) = s\<lparr>outcomes := os\<rparr>"
proof (cases "outcomes s")
  case Nil
  then show ?thesis by (intro exI [of _ "outcomes s"]) (simp add: next_outcome_def)
qed (auto simp: next_outcome_def)

lemma reach_next:
  assumes "and_then reach k s = (r, s')"
  shows "(\<exists>os. s' = s\<lparr>outcomes := os\<rparr> \<and> r = Inl Unavailable) \<or> (\<exists>os. k () (s\<lparr>outcomes := os\<rparr>) = (r, s'))"
proof -
  obtain o1 os where "next_outcome s = (o1, s\<lparr>outcomes := os\<rparr>)"
    using next_outcome_eq [of s] by (metis prod.collapse)
  then show ?thesis using assms by (auto simp: and_then_def reach_def split: if_splits)
qed

lemma commit_with_cases:
  assumes "commit_with f s = (r, s')"
  obtains os where "s' = s\<lparr>outcomes := os\<rparr>" "r \<noteq> Inr ()" | os where "s' = f (s\<lparr>outcomes := os\<rparr>)"
proof -
  obtain o1 os where "next_outcome s = (o1, s\<lparr>outcomes := os\<rparr>)"
    using next_outcome_eq [of s] by (metis prod.collapse)
  then show thesis using assms that by (auto simp: commit_with_def split: outcome.splits)
qed

lemma version_next:
  "and_then (version_exists v) k s = (r, s') \<Longrightarrow> (\<exists>os. s' = s\<lparr>outcomes := os\<rparr> \<and> r = Inl Unavailable) \<or>
    (\<exists>os. k (v \<in> set (applied_versions s)) (s\<lparr>outcomes := os\<rparr>) = (r, s'))"
  unfolding version_exists_def and_then_assoc by (drule reach_next) (auto simp: and_then_def)

lemma script_next:
  "and_then (run_script exec c) k s = (r, s') \<Longrightarrow> (\<exists>os err. s' = s\<lparr>outcomes := os\<rparr> \<and> r = Inl err) \<or>
    (\<exists>os d. exec c (schema s) = Some d \<and> k d (s\<lparr>outcomes := os\<rparr>) = (r, s'))"
  unfolding run_script_def and_then_assoc by (drule reach_next) (auto simp: and_then_def split: option.splits)

text \<open>A file is run exactly when its version is not yet recorded, and then both or neither happen.\<close>

lemma migrate_file_cases:
  assumes "migrate_file exec file s = (r, s')"
  obtains (kept) "applied_versions s' = applied_versions s" "schema s' = schema s"
      "r = Inr () \<Longrightarrow> fst file \<in> set (applied_versions s)"
  | (ran) contents where "fst file \<notin> set (applied_versions s)" "snd file = Some contents"
      "exec contents (schema s) = Some (schema s')" "applied_versions s' = applied_versions s @ [fst file]"
proof -
  have "applied_versions s' = applied_versions s \<and> schema s' = schema s \<and> (r = Inr () \<longrightarrow> fst file \<in> set (applied_versions s)) \<or>
    (\<exists>contents. fst file \<notin> set (applied_versions s) \<and> snd file = Some contents \<and>
      exec contents (schema s) = Some (schema s') \<and> applied_versions s' = applied_versions s @ [fst file])"
    using assms
    by (auto simp: migrate_file_def dest!: version_next reach_next script_next elim!: commit_with_cases
        split: if_splits option.splits)
  then show thesis using that by blast
qed
lemma migrate_file_migrated:
  assumes "distinct (map fst files)" and "file \<in> set files"
  shows "keeps (migrated exec files d0) (migrate_file exec file)"
proof -
  have "migrated exec files d0 s'" if s: "migrated exec files d0 s" and run: "migrate_file exec file s = (r, s')" for s r s'
    using run
  proof (cases rule: migrate_file_cases)
    case kept
    then show ?thesis using s by (simp add: migrated_def)
  next
    case (ran contents)
    have "map_of files (fst file) = Some (Some contents)"
      using assms ran(2) by (metis map_of_is_SomeI prod.collapse)
    then show ?thesis
      using s ran assms(2) replay_snoc by (auto simp: migrated_def)
  qed
  then show ?thesis by (intro hoareI)
qed

lemma reach_keeps: "keeps (migrated exec files d0) reach"
proof -
  have "migrated exec files d0 (snd (reach s))" if "migrated exec files d0 s" for s
    using next_outcome_eq [of s] that by (auto simp: reach_def Let_def split: prod.splits)
  then show ?thesis by (intro hoareI) (metis snd_conv)+
qed

lemma migrate_migrated:
  assumes "distinct (map fst files)"
  shows "keeps (migrated exec files d0) (migrate exec files)"
  unfolding migrate_def
  by (rule hoare_and_then [OF reach_keeps], rule hoare_each, rule migrate_file_migrated [OF assms]) simp

lemma each_applied:
  assumes "each (migrate_file exec) files s = (Inr (), s')"
  shows "set (applied_versions s) \<union> fst ` set files \<subseteq> set (applied_versions s')"
  using assms
proof (induction files arbitrary: s)
  case (Cons x files)
  then obtain s1 where s1: "migrate_file exec x s = (Inr (), s1)" "each (migrate_file exec) files s1 = (Inr (), s')"
    by (auto simp: and_then_def split: prod.splits sum.splits)
  from s1(1) have "insert (fst x) (set (applied_versions s)) \<subseteq> set (applied_versions s1)"
    by (cases rule: migrate_file_cases) auto
  with Cons.IH [OF s1(2)] show ?case by auto
qed simp

text \<open>Whatever becomes of earlier runs, each of which may stop anywhere.\<close>

definition after_runs ::
  "(string \<Rightarrow> 'd \<Rightarrow> 'd option) \<Rightarrow> (string \<times> string option) list \<Rightarrow> 'd \<Rightarrow> outcome list list \<Rightarrow> 'd migration_db" where
  "after_runs exec files d0 runs =
     fold (\<lambda>os s. snd (migrate exec files (s\<lparr>outcomes := os\<rparr>))) runs \<lparr>applied_versions = [], schema = d0, outcomes = []\<rparr>"

lemma after_runs_migrated:
  assumes "distinct (map fst files)"
  shows "migrated exec files d0 (after_runs exec files d0 runs)"
proof (induction runs rule: rev_induct)
  case (snoc os runs)
  then show ?case
    using keepsD [OF migrate_migrated [OF assms, of exec d0]] by (simp add: after_runs_def)
qed (simp add: after_runs_def migrated_def)

text \<open>
  C38. Every migration takes effect exactly once: however many runs of the tool were refused, crashed or left
  unacknowledged at whatever call, the schema is what the scripts of the recorded versions make of the
  empty one, each run once and in the order they are recorded; and a run that succeeds leaves every file recorded.
\<close>

theorem migrations_exactly_once:
  assumes "distinct (map fst files)"
  shows "distinct (applied_versions (after_runs exec files d0 runs)) \<and>
    replay exec files (applied_versions (after_runs exec files d0 runs)) d0 = Some (schema (after_runs exec files d0 runs)) \<and>
    (fst (migrate exec files (after_runs exec files d0 runs)) = Inr () \<longrightarrow>
       set (applied_versions (snd (migrate exec files (after_runs exec files d0 runs)))) = fst ` set files)"
proof -
  let ?s = "after_runs exec files d0 runs"
  note ok = after_runs_migrated [OF assms, of exec d0 runs]
  have "set (applied_versions (snd (migrate exec files ?s))) = fst ` set files" if ended: "fst (migrate exec files ?s) = Inr ()"
  proof
    obtain s1 where run: "migrate exec files ?s = each (migrate_file exec) (sort_key fst files) s1"
      using ended by (cases "reach ?s"; cases "fst (reach ?s)") (auto simp: migrate_def and_then_def)
    then have "each (migrate_file exec) (sort_key fst files) s1 = (Inr (), snd (migrate exec files ?s))"
      using ended by (simp add: prod_eq_iff)
    from each_applied [OF this] show "fst ` set files \<subseteq> set (applied_versions (snd (migrate exec files ?s)))"
      by simp
    show "set (applied_versions (snd (migrate exec files ?s))) \<subseteq> fst ` set files"
      using keepsD [OF migrate_migrated [OF assms] ok] by (simp add: migrated_def)
  qed
  with ok show ?thesis by (simp add: migrated_def)
qed

definition two_files :: "(string \<times> string option) list" where
  "two_files = [(''0002.sql'', Some ''b''), (''0001.sql'', Some ''a'')]"

lemma migrations_exactly_once_witness:
  "distinct (applied_versions (after_runs (\<lambda>text d. Some (d @ [text])) two_files ([] :: string list)
     [[Done, Done, Done, Done, Done, Unacked], [Done, Refused]]))"
proof -
  have "distinct (map fst two_files)" by (simp add: two_files_def)
  from migrations_exactly_once [OF this] show ?thesis by (rule conjunct1)
qed

subsection \<open>ClickHouse\<close>

definition apply_statements :: "ch_codecs \<Rightarrow> 'c transport \<Rightarrow> string \<Rightarrow> string \<Rightarrow> ('c, go_error, unit) program" where
  "apply_statements codecs send endpoint statements = each (Execute codecs send endpoint) (splitStatements statements)"

definition applyAll ::
  "ch_codecs \<Rightarrow> 'c transport \<Rightarrow> string \<Rightarrow> (string \<times> string option) list \<Rightarrow> ('c, go_error, unit) program" where
  "applyAll codecs send endpoint files =
     each (\<lambda>file. case snd file of
         None \<Rightarrow> fail_with (Errorf ''open'')
       | Some contents \<Rightarrow> apply_statements codecs send endpoint contents) files"

text \<open>The \<^verbatim>\<open>.sql\<close> files of the directory in the order of their names; an entry says whether it is a directory.\<close>

definition sql_files :: "(string \<times> bool \<times> string option) list \<Rightarrow> (string \<times> string option) list" where
  "sql_files entries =
     sort_key fst (map (\<lambda>(name, _, contents). (name, contents))
       (filter (\<lambda>(name, is_dir, _). \<not> is_dir \<and> suffix ''.sql'' name) entries))"

text \<open>The loop of \<^verbatim>\<open>main\<close>: \<open>attempts\<close> is the number of times it is entered before the deadline of 45 seconds.\<close>

fun migrate_clickhouse ::
  "ch_codecs \<Rightarrow> 'c transport \<Rightarrow> string \<Rightarrow> (string \<times> string option) list \<Rightarrow> nat \<Rightarrow> ('c, go_error, unit) program" where
  "migrate_clickhouse codecs send endpoint files 0 s = (Inl (Errorf ''ClickHouse schema unavailable''), s)"
| "migrate_clickhouse codecs send endpoint files (Suc attempts) s =
     (case applyAll codecs send endpoint files s of
        (Inr _, s) \<Rightarrow> (Inr (), s)
      | (Inl err, s) \<Rightarrow> migrate_clickhouse codecs send endpoint files attempts s)"

lemma each_append: "each f (xs @ ys) = and_then (each f xs) (\<lambda>_. each f ys)"
  by (induction xs) (simp_all add: and_then_assoc del: ret_run)

lemma applyAll_concat:
  "applyAll codecs send endpoint (map (\<lambda>(name, contents). (name, Some contents)) files)
     = each (Execute codecs send endpoint) (concat (map (\<lambda>f. splitStatements (snd f)) files))"
  by (induction files) (auto simp: applyAll_def apply_statements_def each_append case_prod_unfold)

lemma trimmed_clean: "s \<in> set (trimmed parts) \<Longrightarrow> s \<noteq> []"
  by (auto simp: trimmed_def)

lemma migrate_clickhouse_last:
  assumes "migrate_clickhouse codecs send endpoint files n s = (Inr (), s')"
  obtains s1 where "applyAll codecs send endpoint files s1 = (Inr (), s')"
  using assms by (induction n arbitrary: s) (auto split: prod.splits sum.splits)

text \<open>
  A schema that is reported as applied has been run in full: after any number of failed attempts, each statement
  of each file was sent and acknowledged, none empty, in the order of the files and within a file in the
  order it was written, in one attempt without a failure in between.
\<close>

theorem clickhouse_schema_applied:
  assumes "migrate_clickhouse codecs send endpoint (map (\<lambda>(name, contents). (name, Some contents)) files) attempts s = (Inr (), s')"
  shows "\<exists>s1. each (Execute codecs send endpoint) (concat (map (\<lambda>f. splitStatements (snd f)) files)) s1 = (Inr (), s') \<and>
    [] \<notin> set (concat (map (\<lambda>f. splitStatements (snd f)) files))"
proof -
  obtain s1 where "applyAll codecs send endpoint (map (\<lambda>(name, contents). (name, Some contents)) files) s1 = (Inr (), s')"
    using assms by (rule migrate_clickhouse_last)
  then show ?thesis
    by (auto simp: applyAll_concat splitStatements_def dest: trimmed_clean)
qed

lemma clickhouse_schema_applied_witness:
  "\<exists>s1. each (Execute key_codecs record_send ''http://clickhouse:8123'') [''a'', ''b''] s1
     = (Inr (), snd (migrate_clickhouse key_codecs record_send ''http://clickhouse:8123'' [(''1.sql'', Some ''a;b;'')] (Suc 0) []))"
proof -
  let ?run = "migrate_clickhouse key_codecs record_send ''http://clickhouse:8123'' [(''1.sql'', Some ''a;b;'')] (Suc 0) []"
  have split: "splitStatements ''a;b;'' = [''a'', ''b'']"
    by (simp add: splitStatements_def trimmed_def trim_space_visible byte_of_def)
  have sent: "fst (Execute key_codecs record_send endpoint statement s) = Inr ()" for endpoint statement s
    by (simp add: Execute_def key_codecs_def do_request_def record_send_def and_then_def)
  have "fst (each (Execute key_codecs record_send endpoint) statements s) = Inr ()" for endpoint statements s
    by (induction statements arbitrary: s) (simp_all add: and_then_def prod.case_eq_if sent)
  then have run: "fst ?run = Inr ()"
    by (simp add: applyAll_def apply_statements_def and_then_def prod.case_eq_if)
  have "migrate_clickhouse key_codecs record_send ''http://clickhouse:8123''
      (map (\<lambda>(name, contents). (name, Some contents)) [(''1.sql'', ''a;b;'')]) (Suc 0) [] = (Inr (), snd ?run)"
    using run by (simp only: prod_eq_iff fst_conv snd_conv list.map prod.case)
  from clickhouse_schema_applied [OF this]
  show ?thesis by (simp only: split list.map concat.simps snd_conv append_Nil2 append_Nil) blast
qed

end
