(* ===== verification/Synthetic.thy ===== *)
theory Synthetic
  imports GatewayHttp Sampling
begin

text \<open>
  The demo traffic: the span emitter of \<^verbatim>\<open>internal/synthetic/emitter.go\<close> with the two services that use it, and
  the load generator \<^verbatim>\<open>cmd/synthetic-emitter\<close>. Random bytes, the encoders and the HTTP client are parameters.
\<close>

subsection \<open>The emitter\<close>

record emit_request =
  EmitURL :: string
  EmitContentType :: string
  EmitAPIKey :: string
  EmitBody :: string

text \<open>
  \<open>random n\<close> reads \<open>n\<close> random bytes; \<open>post\<close> builds and sends a request and gives the status of the answer; \<open>marshal\<close> is
  \<^verbatim>\<open>json.Marshal\<close> of the request in its OTLP form.
\<close>

record 's emit_env =
  RandomRead :: "nat \<Rightarrow> ('s, go_error, bytes) program"
  MarshalTraces :: "otlpRequest \<Rightarrow> string option"
  PostRequest :: "emit_request \<Rightarrow> ('s, go_error, nat) program"

record Emitter =
  EmitEndpoint :: string
  EmitterKey :: string

definition NewEmitter :: "string \<Rightarrow> string \<Rightarrow> Emitter" where
  "NewEmitter endpoint apiKey = \<lparr>EmitEndpoint = trim_right_byte (CHR 0x2F) endpoint, EmitterKey = apiKey\<rparr>"

text \<open>\<^verbatim>\<open>ID\<close> panics when there is no randomness.\<close>

definition random_id :: "'s emit_env \<Rightarrow> nat \<Rightarrow> ('s, go_error, string) program" where
  "random_id env n s =
     (case RandomRead env n s of
        (Inl err, s) \<Rightarrow> (Inl (Panicked ''rand''), s)
      | (Inr bs, s) \<Rightarrow> (Inr (hex_encode bs), s))"

definition string_value :: "string \<Rightarrow> string \<Rightarrow> otlpAttribute" where
  "string_value key val =
     \<lparr>Key = key, Value = \<lparr>StringField = Some val, BoolField = None, IntField = None, DoubleField = None\<rparr>\<rparr>"

definition emitted_request :: "string \<Rightarrow> string \<Rightarrow> string \<Rightarrow> string \<Rightarrow> string \<Rightarrow> attrs \<Rightarrow> otlpRequest" where
  "emitted_request traceID spanID parentSpanID name service attributes =
     [\<lparr>JResource = [string_value ''service.name'' service],
       ScopeSpans = [[\<lparr>JTraceID = traceID, JSpanID = spanID, JParentSpanID = parentSpanID, JName = name,
         JAttributes = map (\<lambda>(key, val). string_value key val) attributes\<rparr>]]\<rparr>]"

definition Emit ::
  "'s emit_env \<Rightarrow> Emitter \<Rightarrow> string \<Rightarrow> string \<Rightarrow> string \<Rightarrow> string \<Rightarrow> attrs \<Rightarrow> ('s, go_error, string) program" where
  "Emit env e traceID parentSpanID name service attributes =
     (if EmitEndpoint e = [] \<or> EmitterKey e = [] \<or> traceID = [] \<or> name = [] \<or> service = []
      then fail_with (Errorf ''synthetic telemetry configuration invalid'')
      else and_then (random_id env 8) (\<lambda>spanID.
        case MarshalTraces env (emitted_request traceID spanID parentSpanID name service attributes) of
          None \<Rightarrow> fail_with (Errorf ''json'')
        | Some payload \<Rightarrow>
            and_then (PostRequest env \<lparr>EmitURL = EmitEndpoint e @ ''/v1/traces'', EmitContentType = ''application/json'',
              EmitAPIKey = EmitterKey e, EmitBody = payload\<rparr>) (\<lambda>status.
            if status \<noteq> 202 then fail_with (Errorf ''synthetic telemetry not accepted'') else ret spanID)))"

text \<open>The two demo services: a request with the headers they read, and the status they answer.\<close>

record demo_request =
  DemoMethod :: string
  DemoPath :: string
  TraceHeader :: string
  ParentHeader :: string

definition emitted_or :: "('s, go_error, string) program \<Rightarrow> (string \<Rightarrow> 's \<Rightarrow> (go_error + nat) \<times> 's) \<Rightarrow> 's \<Rightarrow> (go_error + nat) \<times> 's" where
  "emitted_or emit next_step s =
     (case emit s of
        (Inl (Panicked msg), s) \<Rightarrow> (Inl (Panicked msg), s)
      | (Inl err, s) \<Rightarrow> (Inr 503, s)
      | (Inr spanID, s) \<Rightarrow> next_step spanID s)"

definition worker_handler :: "'s emit_env \<Rightarrow> Emitter \<Rightarrow> demo_request \<Rightarrow> 's \<Rightarrow> (go_error + nat) \<times> 's" where
  "worker_handler env e r s =
     (if DemoMethod r \<noteq> ''POST'' \<or> DemoPath r \<noteq> ''/jobs'' then (Inr 404, s)
      else if TraceHeader r = [] then (Inr 400, s)
      else emitted_or (Emit env e (TraceHeader r) (ParentHeader r) ''process checkout job'' ''synthetic-async-worker''
          [(''messaging.system'', ''redpanda''), (''messaging.operation'', ''process''),
           (''peer.service'', ''synthetic-go-downstream'')]) (\<lambda>_ s. (Inr 202, s)) s)"

text \<open>The downstream service hands the trace on with its own span as the parent; \<open>call\<close> posts to the worker.\<close>

definition downstream_handler ::
  "'s emit_env \<Rightarrow> Emitter \<Rightarrow> (string \<Rightarrow> string \<Rightarrow> ('s, go_error, nat) program) \<Rightarrow> demo_request \<Rightarrow> 's \<Rightarrow> (go_error + nat) \<times> 's" where
  "downstream_handler env e call r s =
     (if DemoMethod r \<noteq> ''POST'' \<or> DemoPath r \<noteq> ''/checkout'' then (Inr 404, s)
      else if TraceHeader r = [] then (Inr 400, s)
      else emitted_or (Emit env e (TraceHeader r) (ParentHeader r) ''postgres checkout lookup'' ''synthetic-go-downstream''
          [(''db.system'', ''postgresql''), (''peer.service'', ''synthetic-async-worker''),
           (''messaging.destination'', ''synthetic-checkout-jobs'')])
        (\<lambda>spanID s. case call (TraceHeader r) spanID s of
           (Inl err, s) \<Rightarrow> (Inr 503, s)
         | (Inr status, s) \<Rightarrow> if status \<noteq> 202 then (Inr 503, s) else (Inr 202, s)) s)"

subsection \<open>The load generator\<close>

definition spanPayload_attributes :: attrs where
  "spanPayload_attributes = [(''service.name'', ''synthetic-typescript-gateway''), (''http.method'', ''POST''),
     (''db.system'', ''postgresql''), (''messaging.system'', ''redpanda''),
     (''customer.email'', ''synthetic.user@example.test'')]"

text \<open>The request of a batch, given its random trace id and span ids; a batch is one trace.\<close>

definition spanPayload :: "string \<Rightarrow> string list \<Rightarrow> otlpRequest \<times> string list" where
  "spanPayload trace spanIDs =
     ([\<lparr>JResource = [], ScopeSpans = [map (\<lambda>span. \<lparr>JTraceID = trace, JSpanID = span, JParentSpanID = [],
         JName = ''synthetic.checkout'',
         JAttributes = map (\<lambda>(key, val). string_value key val) spanPayload_attributes\<rparr>) spanIDs]\<rparr>], [trace])"

definition stringValue :: "string \<Rightarrow> string \<Rightarrow> key_value option" where
  "stringValue key val = Some \<lparr>GetKey = key, GetValue = Some (AnyValue_StringValue val)\<rparr>"

definition spanPayloadProtobuf :: "bytes \<Rightarrow> bytes list \<Rightarrow> ExportTraceServiceRequest \<times> string list" where
  "spanPayloadProtobuf traceID spanIDs =
     ([\<lparr>GetResource = Some [stringValue ''service.name'' ''synthetic-typescript-gateway''],
        GetScopes = [map (\<lambda>span. \<lparr>PTraceId = traceID, PSpanId = span, PParentSpanId = [], PName = ''synthetic.checkout'',
          PAttributes = [stringValue ''http.method'' ''POST'', stringValue ''db.system'' ''postgresql'',
            stringValue ''messaging.system'' ''redpanda'', stringValue ''customer.email'' ''synthetic.user@example.test''],
          PKind = 0, PStatus = None\<rparr>) spanIDs]\<rparr>], [hex_encode traceID])"

text \<open>An index out of range panics: \<^const>\<open>None\<close>.\<close>

definition percentile :: "'f list \<Rightarrow> 'f \<Rightarrow> nat \<Rightarrow> 'f option" where
  "percentile vals zero p =
     (if length vals = 0 then Some zero
      else let i = (length vals - 1) * p div 100
           in if i < length vals then Some (vals ! i) else None)"

definition emitter_sampled :: "string \<Rightarrow> int \<Rightarrow> bool option" where
  "emitter_sampled traceID every =
     (let m = (word_of_int every :: 32 word) in if m = 0 then None else Some (fnv32a traceID mod m = 0))"

text \<open>
  The pacing of the emitter: \<^verbatim>\<open>for emitted < due \<dots>\<close> queues batches until all that is due has been queued. A
  batch size below 1 would never end: \<^const>\<open>None\<close>.
\<close>

partial_function (option) queue_due :: "int \<Rightarrow> int \<Rightarrow> int \<Rightarrow> int list \<Rightarrow> (int \<times> int list) option" where
  "queue_due batchSize due emitted jobs =
     (if emitted < due
      then let batch = min batchSize (due - emitted)
           in queue_due batchSize due (emitted + batch) (jobs @ [batch])
      else Some (emitted, jobs))"

text \<open>
  The loop of \<^verbatim>\<open>main\<close>: at each tick what is due by then, at most the target; at the deadline what is left.
\<close>

fun pace :: "int \<Rightarrow> int \<Rightarrow> int list \<Rightarrow> int \<Rightarrow> int list \<Rightarrow> (int \<times> int list) option" where
  "pace batchSize target [] emitted jobs = queue_due batchSize target emitted jobs"
| "pace batchSize target (due # ticks) emitted jobs =
     Option.bind (queue_due batchSize (if due > target then target else due) emitted jobs)
       (\<lambda>(emitted, jobs). pace batchSize target ticks emitted jobs)"

lemma queue_due_ends:
  assumes "1 \<le> batchSize"
  shows "\<exists>batches. queue_due batchSize due emitted jobs = Some (max emitted due, jobs @ batches) \<and>
    sum_list batches = max emitted due - emitted \<and> list_all (\<lambda>b. 1 \<le> b \<and> b \<le> batchSize) batches"
proof (induction "nat (due - emitted)" arbitrary: emitted jobs rule: less_induct)
  case less
  show ?case
  proof (cases "emitted < due")
    case True
    let ?b = "min batchSize (due - emitted)"
    have b: "1 \<le> ?b" "?b \<le> batchSize" "emitted + ?b \<le> due" using True assms by auto
    have "nat (due - (emitted + ?b)) < nat (due - emitted)" using b(1) True by linarith
    from less [OF this] obtain batches where
      "queue_due batchSize due (emitted + ?b) (jobs @ [?b]) = Some (max (emitted + ?b) due, (jobs @ [?b]) @ batches)"
      "sum_list batches = max (emitted + ?b) due - (emitted + ?b)" "list_all (\<lambda>b. 1 \<le> b \<and> b \<le> batchSize) batches"
      by blast
    then show ?thesis
      using True b by (intro exI [of _ "?b # batches"]) (simp add: queue_due.simps [of batchSize due emitted] Let_def)
  qed (simp add: queue_due.simps)
qed
text \<open>
  C40. The load generator ends and sends exactly its target: with a batch size of at least 1, whatever the clock
  shows at its ticks, the loops that queue the batches return, the batches add up to the target, and each
  holds between 1 and \<open>batchSize\<close> spans.
\<close>

theorem pacing_terminates:
  assumes "1 \<le> batchSize" and "0 \<le> target"
  shows "\<exists>batches. pace batchSize target ticks 0 [] = Some (target, batches) \<and> sum_list batches = target \<and>
    list_all (\<lambda>b. 1 \<le> b \<and> b \<le> batchSize) batches"
proof -
  have "\<exists>batches. pace batchSize target ticks emitted jobs = Some (target, jobs @ batches) \<and>
      sum_list batches = target - emitted \<and> list_all (\<lambda>b. 1 \<le> b \<and> b \<le> batchSize) batches"
    if "emitted \<le> target" for emitted jobs
    using that
  proof (induction ticks arbitrary: emitted jobs)
    case Nil
    then show ?case using queue_due_ends [OF assms(1), of target emitted jobs] by (simp add: max_def)
  next
    case (Cons due ticks)
    let ?due = "if due > target then target else due"
    obtain first where first: "queue_due batchSize ?due emitted jobs = Some (max emitted ?due, jobs @ first)"
        "sum_list first = max emitted ?due - emitted" "list_all (\<lambda>b. 1 \<le> b \<and> b \<le> batchSize) first"
      using queue_due_ends [OF assms(1)] by blast
    have "max emitted ?due \<le> target" using Cons.prems by simp
    from Cons.IH [OF this, of "jobs @ first"] obtain rest where
      "pace batchSize target ticks (max emitted ?due) (jobs @ first) = Some (target, (jobs @ first) @ rest)"
      "sum_list rest = target - max emitted ?due" "list_all (\<lambda>b. 1 \<le> b \<and> b \<le> batchSize) rest" by blast
    with first show ?case by (intro exI [of _ "first @ rest"]) simp
  qed
  from this [of 0 "[]"] assms(2) show ?thesis by simp
qed

lemma pacing_terminates_witness:
  "\<exists>batches. pace 100 250 [120, 90, 400] 0 [] = Some (250, batches) \<and> sum_list batches = 250 \<and>
     list_all (\<lambda>b. 1 \<le> b \<and> b \<le> 100) batches"
  by (rule pacing_terminates) simp_all

subsection \<open>What the gateway makes of synthetic spans\<close>

text \<open>
  What a demo service emits is what the gateway accepts: the request of a span decodes to one event with its
  trace, span and parent, its name, and the attributes given with the service name unless they name one.
\<close>

theorem emitted_span_arrives:
  assumes "go_map attributes" and "[] \<notin> fst ` set attributes"
  shows "\<exists>e. otlp_span_events cs (emitted_request traceID spanID parentSpanID name service attributes) = [e] \<and>
    EventID e = traceID @ '':'' @ spanID \<and> TraceID e = traceID \<and> SpanID e = spanID \<and> ParentSpanID e = parentSpanID \<and>
    Name e = name \<and>
    map_of (Attributes e) = (map_of [(''service.name'', service)] ++ map_of attributes)(''telemetry.source'' \<mapsto> ''otlp_http_json'')"
proof -
  have scalars: "scalars cs (map (\<lambda>(key, val). string_value key val) as) = as" if "[] \<notin> fst ` set as" for as
    using that by (induction as) (auto simp: string_value_def scalarValue_def)
  have resource: "scalarAttributes cs [string_value ''service.name'' service] = [(''service.name'', service)]"
    by (simp add: scalarAttributes_def string_value_def scalarValue_def)
  show ?thesis
    by (simp add: otlp_span_events_def emitted_request_def otlp_span_event_def Let_def resource update_conv'
        map_of_put_scalars scalars [OF assms(2)] last_wins_go_map [OF assms(1)])
qed

lemma emitted_span_arrives_witness:
  "\<exists>e. otlp_span_events sample_codecs (emitted_request ''t1'' ''s1'' [] ''checkout'' ''shop'' [(''db.system'', ''postgresql'')]) = [e] \<and>
     map_of (Attributes e) ''service.name'' = Some ''shop''"
proof -
  have "go_map [(''db.system'', ''postgresql'')]" "[] \<notin> fst ` set [(''db.system'', ''postgresql'')]" by simp_all
  from emitted_span_arrives [OF this, of sample_codecs "''t1''" "''s1''" "[]" "''checkout''" "''shop''"]
  show ?thesis by auto
qed

text \<open>
  The percentiles of a run are latencies of the run: up to the hundredth no index is out of range, the value is
  one of the sorted samples, the hundredth is the largest, and a higher percentile is never smaller.
\<close>

theorem percentiles_ordered:
  assumes "sorted vals" and "vals \<noteq> []" and "p \<le> q" and "q \<le> 100"
  shows "\<exists>x y. percentile vals zero p = Some x \<and> percentile vals zero q = Some y \<and> x \<in> set vals \<and> x \<le> y \<and>
    percentile vals zero 100 = Some (last vals) \<and> y \<le> last vals"
proof -
  have index: "(length vals - 1) * r div 100 \<le> length vals - 1" if "r \<le> 100" for r
    using div_le_mono [of "(length vals - 1) * r" "(length vals - 1) * 100" 100] that by simp
  have less: "(length vals - 1) * r div 100 < length vals" if "r \<le> 100" for r
    using index [OF that] assms(2) by (cases vals) auto
  have at: "percentile vals zero r = Some (vals ! ((length vals - 1) * r div 100))" if "r \<le> 100" for r
    using less [OF that] assms(2) by (simp add: percentile_def)
  have le: "vals ! ((length vals - 1) * p div 100) \<le> vals ! ((length vals - 1) * q div 100)"
    using sorted_nth_mono [OF assms(1) _ less [OF assms(4)]] assms(3) by (simp add: div_le_mono)
  have last: "vals ! (length vals - 1) = last vals" using assms(2) by (simp add: last_conv_nth)
  have "vals ! ((length vals - 1) * q div 100) \<le> last vals"
    using sorted_nth_mono [OF assms(1) index [OF assms(4)]] assms(2) by (simp add: last_conv_nth)
  then show ?thesis
    using at [of p] at [of q] at [of 100] le less [of p] assms(3,4) last by simp
qed

lemma percentiles_ordered_witness:
  "\<exists>x y. percentile [3, 5, 8, 13 :: int] 0 50 = Some x \<and> percentile [3, 5, 8, 13] 0 95 = Some y \<and> x \<le> y"
  using percentiles_ordered [of "[3, 5, 8, 13 :: int]" 50 95 0] by auto

subsection \<open>The workers of the load generator\<close>

text \<open>
  The counters of a run. \<open>account_batch\<close> is what a worker does with one batch, in the order in which batches are
  finished; \<open>reply\<close> is the status of the answer, \<^const>\<open>None\<close> when there was none. A panic of \<^const>\<open>emitter_sampled\<close> is
  \<^const>\<open>None\<close>.
\<close>

record emitter_totals =
  TotalSent :: "64 word"
  TotalAccepted :: "64 word"
  TotalFailed :: "64 word"
  TraceSamples :: "string list"
  LatencyCount :: nat

fun keep_samples :: "nat \<Rightarrow> int \<Rightarrow> string list \<Rightarrow> string list \<Rightarrow> string list option" where
  "keep_samples limit every [] kept = Some kept"
| "keep_samples limit every (traceID # traceIDs) kept =
     (if limit \<le> length kept then Some kept
      else case emitter_sampled traceID every of
             None \<Rightarrow> None
           | Some chosen \<Rightarrow> keep_samples limit every traceIDs (if chosen then kept @ [traceID] else kept))"

definition account_batch ::
  "nat \<Rightarrow> int \<Rightarrow> int \<times> string list \<times> nat option \<Rightarrow> emitter_totals \<Rightarrow> emitter_totals option" where
  "account_batch limit every = (\<lambda>(batch, traceIDs, reply) totals.
     let totals = totals\<lparr>TotalSent := TotalSent totals + word_of_int batch\<rparr>
     in if reply = Some 202
        then map_option (\<lambda>kept. totals\<lparr>TotalAccepted := TotalAccepted totals + word_of_int batch,
               TraceSamples := kept, LatencyCount := LatencyCount totals + 1\<rparr>)
             (keep_samples limit every traceIDs (TraceSamples totals))
        else Some (totals\<lparr>TotalFailed := TotalFailed totals + word_of_int batch\<rparr>))"

fun account_all ::
  "nat \<Rightarrow> int \<Rightarrow> (int \<times> string list \<times> nat option) list \<Rightarrow> emitter_totals \<Rightarrow> emitter_totals option" where
  "account_all limit every [] totals = Some totals"
| "account_all limit every (b # batches) totals =
     Option.bind (account_batch limit every b totals) (account_all limit every batches)"

lemma keep_samples_bounded:
  "keep_samples limit every traceIDs kept = Some result \<Longrightarrow> length kept \<le> limit \<Longrightarrow>
     length result \<le> limit \<and> set result \<subseteq> set kept \<union> set traceIDs"
proof (induction limit every traceIDs kept rule: keep_samples.induct)
  case (2 limit every traceID traceIDs kept)
  show ?case
  proof (cases "limit \<le> length kept")
    case False
    then obtain chosen where chosen: "emitter_sampled traceID every = Some chosen"
      "keep_samples limit every traceIDs (if chosen then kept @ [traceID] else kept) = Some result"
      using 2(2) by (auto split: option.splits)
    have "length (if chosen then kept @ [traceID] else kept) \<le> limit" using False by simp
    from 2(1) [OF False chosen this]
    have "length result \<le> limit \<and> set result \<subseteq> set (if chosen then kept @ [traceID] else kept) \<union> set traceIDs" .
    then show ?thesis by (cases chosen) auto
  qed (use 2(2,3) in auto)
qed simp

text \<open>Whatever is answered, everything sent is either accepted or failed, and at most the limit of traces is kept.\<close>

lemma account_all_balance:
  assumes "account_all limit every batches totals = Some totals'"
    and "TotalSent totals = TotalAccepted totals + TotalFailed totals" and "length (TraceSamples totals) \<le> limit"
  shows "TotalSent totals' = TotalAccepted totals' + TotalFailed totals' \<and> length (TraceSamples totals') \<le> limit \<and>
    TotalSent totals' = TotalSent totals + word_of_int (sum_list (map fst batches))"
  using assms
proof (induction limit every batches totals rule: account_all.induct)
  case (2 limit every b batches totals)
  then obtain mid where mid: "account_batch limit every b totals = Some mid" "account_all limit every batches mid = Some totals'"
    by (auto split: bind_splits)
  then have "TotalSent mid = TotalAccepted mid + TotalFailed mid \<and> length (TraceSamples mid) \<le> limit \<and>
      TotalSent mid = TotalSent totals + word_of_int (fst b)"
    using 2(3,4) keep_samples_bounded
    by (cases b) (auto simp: account_batch_def Let_def split: if_splits)
  then show ?case using 2(1) [OF mid(1,2)] by (auto simp: add.assoc [symmetric])
qed simp

text \<open>The generator records as a sample exactly the traces that the tail sampler keeps when they are healthy.\<close>

lemma emitter_sampled_agrees: "emitter_sampled traceID every = sample traceID every"
  by (simp add: emitter_sampled_def sample_def Let_def)

end
