(* ===== verification/Jobs.thy ===== *)
theory Jobs
  imports Services
begin

text \<open>
  The batch commands: the retention pass, the audit of the broker's topic, the provisioning of a tenant
  and the pressure test of the tail buffer.
\<close>

subsection \<open>Retention\<close>

text \<open>\<^verbatim>\<open>AddDate(0, 0, -days)\<close> on a UTC time, in microseconds; the clock of the process is that of the database.\<close>

definition day :: int where "day = 86400000000"

definition expire_tenant ::
  "ch_codecs \<Rightarrow> 'c transport \<Rightarrow> string \<Rightarrow> RetentionPolicy \<Rightarrow> (('c, 'k) telemetry_world, go_error, unit) program" where
  "expire_tenant codecs send endpoint p w =
     (let cutoff = clock (ledger_db w) - PolicyDays p * day
      in and_then (on_clickhouse (DeleteOlderThan codecs send (NewClickHouse endpoint) (PolicyTenantID p) cutoff))
           (\<lambda>_. on_ledger (DeleteTailDataBefore (PolicyTenantID p) cutoff)) w)"

text \<open>An error ends the pass: \<^verbatim>\<open>main\<close> exits.\<close>

definition retention_pass ::
  "ch_codecs \<Rightarrow> 'c transport \<Rightarrow> string \<Rightarrow> (('c, 'k) telemetry_world, go_error, unit) program" where
  "retention_pass codecs send endpoint =
     and_then (on_ledger RetentionPolicies) (each (expire_tenant codecs send endpoint))"

lemma retention_pass_keeps:
  fixes w :: "('c, 'k) telemetry_world"
  shows "keeps (\<lambda>v. store_ok hashtext (ledger_db v) \<and> pending (database (ledger_db v)) = p)
    (retention_pass codecs send endpoint :: (('c, 'k) telemetry_world, go_error, unit) program)" (is "keeps ?I _")
proof -
  have reading: "keeps ?I (on_ledger RetentionPolicies)"
  proof (rule keepsI, erule onE(1))
    fix v w' :: "('c, 'k) telemetry_world" and q s
    assume I: "?I v" and s: "RetentionPolicies (ledger_db v) = (q, s)" "w' = v\<lparr>ledger_db := s\<rparr>"
    have "database s = database (ledger_db v)" "clock (ledger_db v) \<le> clock s"
      using s(1) by (auto simp: RetentionPolicies_def select_def elim!: autocommit_cases)
    then show "?I w'" using I store_ok_later by (auto simp: s(2))
  qed
  have deletion: "keeps ?I (on_ledger (DeleteTailDataBefore t cutoff))" for t cutoff
  proof (rule keepsI, erule onE(1))
    fix v w' :: "('c, 'k) telemetry_world" and q s
    assume I: "?I v" and s: "DeleteTailDataBefore t cutoff (ledger_db v) = (q, s)" "w' = v\<lparr>ledger_db := s\<rparr>"
    have "buffers_open (database (ledger_db v))" "unique_rows (database (ledger_db v))"
      using I by (simp_all only: store_ok_def tail_ok_def)
    from DeleteTailDataBefore_pending [OF this s(1)]
    show "?I w'"
      using I store_step_ok [OF store_step.expire [OF s(1)]] by (auto simp: s(2))
  qed
  have "keeps ?I (expire_tenant codecs send endpoint rp)" for rp
  proof (rule keepsI)
    fix v w' :: "('c, 'k) telemetry_world" and q
    assume I: "?I v" and run: "expire_tenant codecs send endpoint rp v = (q, w')"
    have "keeps ?I (on_clickhouse m)" for m :: "('c, go_error, unit) program"
      by (rule keepsI) (auto elim!: onE(2))
    then have "keeps ?I (and_then (on_clickhouse m) (\<lambda>_. on_ledger (DeleteTailDataBefore t cutoff)))"
      for m :: "('c, go_error, unit) program" and t cutoff
      by (rule hoare_and_then) (rule deletion)
    from keepsD [OF this I] show "?I w'"
      using run unfolding expire_tenant_def Let_def by (metis snd_conv)
  qed
  then show ?thesis
    unfolding retention_pass_def by (intro hoare_and_then [OF reading] hoare_each)
qed
text \<open>
  Nothing of a tenant that is done with and dates from before a cutoff is left: no decided trace, decision, event key or
  published message.
\<close>

definition fresh :: "string \<Rightarrow> int \<Rightarrow> db \<Rightarrow> bool" where
  "fresh t cutoff d =
     ((\<forall>x \<in> set (tail_traces d). tr_tenant x = t \<longrightarrow> undecided x \<or> cutoff \<le> the (tr_decided_at x)) \<and>
      (\<forall>c \<in> set (tail_decisions d). dc_tenant c = t \<longrightarrow> cutoff \<le> dc_created_at c) \<and>
      (\<forall>k \<in> set (tail_event_keys d). ek_tenant k = t \<longrightarrow> cutoff \<le> ek_created_at k) \<and>
      (\<forall>m \<in> set (tail_outbox d). ob_tenant m = t \<longrightarrow> ob_published_at m = None \<or> cutoff \<le> ob_created_at m))"

lemma DeleteTailDataBefore_fresh:
  assumes "DeleteTailDataBefore t cutoff s = (r, s')"
  shows "clock s \<le> clock s'" and "fresh t' cutoff' (database s) \<Longrightarrow> fresh t' cutoff' (database s')"
    and "r = Inr () \<Longrightarrow> fresh t cutoff (database s')"
proof -
  have "clock s \<le> clock s' \<and> (fresh t' cutoff' (database s) \<longrightarrow> fresh t' cutoff' (database s')) \<and>
      (r = Inr () \<longrightarrow> fresh t cutoff (database s'))"
    using assms
  proof (cases rule: DeleteTailDataBefore_effect)
    case all
    have "fresh t' cutoff' (database s) \<longrightarrow> fresh t' cutoff' (database s')"
      unfolding all(1) pruned_db_def fresh_def by simp
    moreover have "fresh t cutoff (database s')"
      unfolding all(1) pruned_db_def fresh_def by (auto simp: undecided_def not_less split: option.splits)
    ultimately show ?thesis using all(2) by blast
  qed auto
  then show "clock s \<le> clock s'" and "fresh t' cutoff' (database s) \<Longrightarrow> fresh t' cutoff' (database s')"
    and "r = Inr () \<Longrightarrow> fresh t cutoff (database s')" by blast+
qed

text \<open>
  What a pass relies on of ClickHouse: a server that answers the expire statement of a tenant and a cutoff with a status
  of class 2 has accepted it. \<open>asked\<close> are the tenants and cutoffs it has accepted one for.
\<close>

definition expire_request :: "string \<Rightarrow> string \<Rightarrow> ch_request \<Rightarrow> bool" where
  "expire_request tenant cutoff q =
     (ChBody q = [] \<and> map_of (ChParams q) ''query'' = Some expire_query \<and>
      map_of (ChParams q) ''param_tenant'' = Some tenant \<and> map_of (ChParams q) ''param_cutoff'' = Some cutoff)"

definition clickhouse_expires :: "'c transport \<Rightarrow> ('c \<Rightarrow> (string \<times> string) set) \<Rightarrow> bool" where
  "clickhouse_expires send asked =
     (\<forall>q st r st'. send q st = (r, st') \<longrightarrow> asked st \<subseteq> asked st' \<and>
        (\<forall>tenant cutoff status body. expire_request tenant cutoff q \<longrightarrow> r = Inr (status, body) \<longrightarrow> status div 100 = 2 \<longrightarrow>
           (tenant, cutoff) \<in> asked st'))"

lemma DeleteOlderThan_asks:
  fixes send :: "'c transport"
  assumes "clickhouse_expires send asked" and "DeleteOlderThan codecs send endpoint tenant cutoff st = (r, st')"
  shows "asked st \<subseteq> asked st'" and "r = Inr () \<Longrightarrow> (tenant, FormatTime codecs cutoff) \<in> asked st'"
proof -
  let ?params = "[(''param_tenant'', tenant), (''param_cutoff'', FormatTime codecs cutoff)]"
  have "asked st \<subseteq> asked st' \<and> (r = Inr () \<longrightarrow> (tenant, FormatTime codecs cutoff) \<in> asked st')"
  proof (cases "ParseURL codecs (endpoint @ ''/'')")
    case (Some url)
    then obtain base start where url: "ParseURL codecs (endpoint @ ''/'') = Some (base, start)" by (cases url) auto
    obtain q where bound: "ChBody q = []" "map_of (ChParams q) ''query'' = Some expire_query"
      "\<And>name val. map_of (rev ?params) name = Some val \<Longrightarrow> map_of (ChParams q) name = Some val"
      and request: "\<And>send :: 'c transport. parameterized codecs send endpoint expire_query ?params = do_request send q"
      by (rule parameterized_bound [OF url, of ?params expire_query]) (simp, rule that)
    have q: "expire_request tenant (FormatTime codecs cutoff) q"
      using bound(3) [of "''param_tenant''" tenant] bound(3) [of "''param_cutoff''" "FormatTime codecs cutoff"] bound(1,2)
      by (simp add: expire_request_def)
    obtain a st1 where sent: "send q st = (a, st1)" by fastforce
    have "st' = st1 \<and> (r = Inr () \<longrightarrow> (\<exists>status body. a = Inr (status, body) \<and> status div 100 = 2))"
      using assms(2) unfolding DeleteOlderThan_def request
      by (auto simp: do_request_def and_then_def sent split: prod.splits sum.splits if_splits)
    then show ?thesis using assms(1) [unfolded clickhouse_expires_def, rule_format, OF sent] q by blast
  qed (use assms(2) in \<open>auto simp: DeleteOlderThan_def parameterized_def and_then_def\<close>)
  then show "asked st \<subseteq> asked st'" and "r = Inr () \<Longrightarrow> (tenant, FormatTime codecs cutoff) \<in> asked st'" by blast+
qed

text \<open>One tenant is done: one cutoff within the pass, \<open>days\<close> before its own time, was used on both stores.\<close>

definition policy_applied ::
  "ch_codecs \<Rightarrow> ('c \<Rightarrow> (string \<times> string) set) \<Rightarrow> int \<Rightarrow> RetentionPolicy \<Rightarrow> ('c, 'k) telemetry_world \<Rightarrow> bool" where
  "policy_applied codecs asked start p w =
     (\<exists>cutoff. start - PolicyDays p * day \<le> cutoff \<and> cutoff \<le> clock (ledger_db w) - PolicyDays p * day \<and>
        (PolicyTenantID p, FormatTime codecs cutoff) \<in> asked (clickhouse w) \<and>
        fresh (PolicyTenantID p) cutoff (database (ledger_db w)))"

lemma expire_tenant_expired:
  assumes "clickhouse_expires send asked" and "expire_tenant codecs send endpoint p w = (Inr (), w')"
  shows "clock (ledger_db w) \<le> clock (ledger_db w')"
    and "start \<le> clock (ledger_db w) \<Longrightarrow> policy_applied codecs asked start p w'"
    and "policy_applied codecs asked start q w \<Longrightarrow> policy_applied codecs asked start q w'"
proof -
  let ?cutoff = "clock (ledger_db w) - PolicyDays p * day"
  obtain c s where c: "DeleteOlderThan codecs send (NewClickHouse endpoint) (PolicyTenantID p) ?cutoff (clickhouse w) = (Inr (), c)"
    and s: "DeleteTailDataBefore (PolicyTenantID p) ?cutoff (ledger_db w) = (Inr (), s)"
    and w': "ledger_db w' = s" "clickhouse w' = c"
    using assms(2)
    by (auto simp: expire_tenant_def Let_def and_then_def on_clickhouse_def on_ledger_def split: prod.splits sum.splits)
  note f = DeleteTailDataBefore_fresh [OF s] and asks = DeleteOlderThan_asks [OF assms(1) c]
  show later: "clock (ledger_db w) \<le> clock (ledger_db w')" using f(1) by (simp add: w')
  show "policy_applied codecs asked start p w'" if "start \<le> clock (ledger_db w)"
    unfolding policy_applied_def using that later f(3) asks(2) by (intro exI [of _ ?cutoff]) (simp add: w')
  show "policy_applied codecs asked start q w \<Longrightarrow> policy_applied codecs asked start q w'"
    unfolding policy_applied_def using later f(2) asks(1) by (fastforce simp: w')
qed

lemma expire_all_expired:
  assumes "clickhouse_expires send asked" and "each (expire_tenant codecs send endpoint) ps w = (Inr (), w')"
    and "start \<le> clock (ledger_db w)"
  shows "(policy_applied codecs asked start q w \<longrightarrow> policy_applied codecs asked start q w') \<and>
    (\<forall>p \<in> set ps. policy_applied codecs asked start p w')"
  using assms(2,3)
proof (induction ps arbitrary: w q)
  case (Cons p ps)
  then obtain w1 where w1: "expire_tenant codecs send endpoint p w = (Inr (), w1)"
      "each (expire_tenant codecs send endpoint) ps w1 = (Inr (), w')"
    by (auto simp: and_then_def split: prod.splits sum.splits)
  note f = expire_tenant_expired [OF assms(1) w1(1)]
  have "start \<le> clock (ledger_db w1)" using f(1) Cons.prems(2) by simp
  note rest = Cons.IH [OF w1(2) this]
  show ?case using rest f(2) [OF Cons.prems(2)] f(3) by auto
qed simp

text \<open>
  C39. The retention pass loses nothing that is still to be decided or published: in every reachable state and whatever
  fails on the way, it leaves every buffered event, open trace and unpublished message as it is. When it succeeds, each
  tenant was treated with one cutoff, its retention period before a moment of the pass: ClickHouse has
  accepted the deletion of the telemetry of this tenant before it, and PostgreSQL holds no decided trace, decision, event key
  or published message of the tenant from before it.
\<close>

theorem retention_spares_pending:
  assumes "reachable hashtext (ledger_db w)" and "clickhouse_expires send asked"
    and "retention_pass codecs send endpoint w = (r, w')"
  shows "pending (database (ledger_db w')) = pending (database (ledger_db w)) \<and>
    (r = Inr () \<longrightarrow> (\<forall>t \<in> set (tenants (database (ledger_db w))).
       let days = (case find (\<lambda>x. rt_tenant x = t) (retention (database (ledger_db w))) of None \<Rightarrow> 30 | Some x \<Rightarrow> rt_days x)
       in \<exists>cutoff. clock (ledger_db w) - days * day \<le> cutoff \<and> cutoff \<le> clock (ledger_db w') - days * day \<and>
            (t, FormatTime codecs cutoff) \<in> asked (clickhouse w') \<and> fresh t cutoff (database (ledger_db w'))))"
proof (intro conjI impI)
  show "pending (database (ledger_db w')) = pending (database (ledger_db w))"
    using keepsD [OF retention_pass_keeps [where hashtext = hashtext and p = "pending (database (ledger_db w))"]]
      reachable_ok [OF assms(1)] assms(3) by (metis snd_conv)
next
  assume "r = Inr ()"
  with assms(3) obtain ps w1 where read: "on_ledger RetentionPolicies w = (Inr ps, w1)"
      and run: "each (expire_tenant codecs send endpoint) ps w1 = (Inr (), w')"
    by (auto simp: retention_pass_def and_then_def split: prod.splits sum.splits)
  let ?days = "\<lambda>t. case find (\<lambda>r. rt_tenant r = t) (retention (database (ledger_db w))) of None \<Rightarrow> 30 | Some r \<Rightarrow> rt_days r"
  have w1: "clock (ledger_db w) \<le> clock (ledger_db w1)"
    and ps: "ps = map (\<lambda>t. \<lparr>PolicyTenantID = t, PolicyDays = ?days t\<rparr>) (tenants (database (ledger_db w)))"
    using read by (auto simp: RetentionPolicies_def select_def elim!: onE(1) autocommit_cases)
  have "\<forall>p \<in> set ps. policy_applied codecs asked (clock (ledger_db w)) p w'"
    using expire_all_expired [OF assms(2) run w1] by (rule conjunct2)
  then show "\<forall>t \<in> set (tenants (database (ledger_db w))). let days = ?days t
       in \<exists>cutoff. clock (ledger_db w) - days * day \<le> cutoff \<and> cutoff \<le> clock (ledger_db w') - days * day \<and>
            (t, FormatTime codecs cutoff) \<in> asked (clickhouse w') \<and> fresh t cutoff (database (ledger_db w'))"
    unfolding ps Let_def by (simp add: policy_applied_def)
qed

definition quarter_later :: "(ch_request list, unit) telemetry_world" where
  "quarter_later = \<lparr>ledger_db = staged_session\<lparr>clock := 90 * day\<rparr>, clickhouse = [], kafka = ()\<rparr>"

definition sent_expirations :: "ch_request list \<Rightarrow> (string \<times> string) set" where
  "sent_expirations sent = {(tenant, cutoff). \<exists>q \<in> set sent. expire_request tenant cutoff q}"

lemma record_send_expires: "clickhouse_expires record_send sent_expirations"
  by (auto simp: clickhouse_expires_def record_send_def sent_expirations_def)

lemma retention_spares_pending_witness:
  "let w' = snd (retention_pass key_codecs record_send ''http://clickhouse:8123'' quarter_later)
   in pending (database (ledger_db w')) = pending (database staged_session) \<and>
      (\<forall>t \<in> set (tenants (database staged_session)). (t, ''2026-01-01 00:00:00.000'') \<in> sent_expirations (clickhouse w'))"
proof -
  let ?run = "retention_pass key_codecs record_send ''http://clickhouse:8123'' quarter_later"
  have "store_step (\<lambda>_. 0) staged_session (staged_session\<lparr>clock := 90 * day\<rparr>)"
    by (rule store_step.elsewhere, simp, code_simp)
  from reachable_step [OF staged_reachable this]
  have "reachable (\<lambda>_. 0) (ledger_db quarter_later)" by (simp add: quarter_later_def)
  note pass = retention_spares_pending [OF this record_send_expires prod.collapse [symmetric],
      of key_codecs "''http://clickhouse:8123''"]
  have "fst ?run = Inr ()" by code_simp
  moreover have "FormatTime key_codecs cutoff = ''2026-01-01 00:00:00.000''" for cutoff by (simp add: key_codecs_def)
  moreover have "database (ledger_db quarter_later) = database staged_session" by (simp add: quarter_later_def)
  ultimately show ?thesis using pass by (auto simp: Let_def)
qed

subsection \<open>The audit of the broker\<close>

text \<open>
  The messages of a partition in order, and the text of the error that ended the reading; the verdict with its
  exit code. \<open>Crashed\<close> is the panic of an index out of range.
\<close>

datatype verdict = Usage | Crashed | Failed string | Passed nat

fun audit_messages :: "string list \<Rightarrow> string list \<Rightarrow> nat \<Rightarrow> nat option" where
  "audit_messages markers [] seen = Some seen"
| "audit_messages markers (payload # rest) seen =
     (if list_ex (contains payload) markers then None else audit_messages markers rest (seen + 1))"

fun audit_partitions :: "string list \<Rightarrow> (string list \<times> string) list \<Rightarrow> nat \<Rightarrow> verdict" where
  "audit_partitions markers [] seen =
     (if seen = 0 then Failed ''no telemetry messages were observed'' else Passed seen)"
| "audit_partitions markers ((messages, read_error) # rest) seen =
     (case audit_messages markers messages seen of
        None \<Rightarrow> Failed ''a forbidden raw marker was found''
      | Some seen \<Rightarrow>
          if contains read_error ''context deadline exceeded'' then audit_partitions markers rest seen
          else Failed ''failed while reading'')"

text \<open>\<open>topic\<close> is what the brokers give: no connection, or the partitions.\<close>

definition broker_audit :: "string \<Rightarrow> string \<Rightarrow> (string list \<times> string) list option \<Rightarrow> verdict" where
  "broker_audit brokers forbidden topic =
     (if trim_space brokers = [] \<or> trim_space forbidden = [] then Usage
      else let markers = splitNonEmpty forbidden; brokerList = splitNonEmpty brokers
           in if brokerList = [] then Crashed
              else case topic of
                None \<Rightarrow> Failed ''failed to connect''
              | Some partitions \<Rightarrow> audit_partitions markers partitions 0)"

lemma audit_messages_eq:
  "audit_messages markers messages seen =
     (if list_all (\<lambda>payload. \<not> list_ex (contains payload) markers) messages then Some (seen + length messages) else None)"
  by (induction messages arbitrary: seen) auto

lemma audit_partitions_Passed:
  "audit_partitions markers partitions seen = Passed n \<longleftrightarrow>
     n = seen + length (concat (map fst partitions)) \<and> n \<noteq> 0 \<and>
     list_all (\<lambda>payload. \<not> list_ex (contains payload) markers) (concat (map fst partitions)) \<and>
     list_all (\<lambda>(_, read_error). contains read_error ''context deadline exceeded'') partitions"
  by (induction markers partitions seen rule: audit_partitions.induct)
    (auto simp: audit_messages_eq split: if_splits)

text \<open>
  What the audit's verdict means: it passes with a count exactly when it read every partition until
  nothing more came, the count is that of all messages read and is not zero, and none of them contains one of
  the non-empty markers it was given; in every other case it fails.
\<close>

theorem audit_verdict:
  "broker_audit brokers forbidden topic = Passed n \<longleftrightarrow>
     trim_space forbidden \<noteq> [] \<and> splitNonEmpty brokers \<noteq> [] \<and> trim_space brokers \<noteq> [] \<and>
     (\<exists>partitions. topic = Some partitions \<and> n = length (concat (map fst partitions)) \<and> n \<noteq> 0 \<and>
        list_all (\<lambda>payload. \<not> list_ex (contains payload) (splitNonEmpty forbidden)) (concat (map fst partitions)) \<and>
        list_all (\<lambda>(_, read_error). contains read_error ''context deadline exceeded'') partitions)"
  by (auto simp: broker_audit_def Let_def audit_partitions_Passed split: option.splits)

text \<open>
  A list of markers made of separators only is accepted and has no marker: the audit then passes whatever
  the topic holds.
\<close>

lemma audit_vacuous:
  assumes "messages \<noteq> []"
  shows "broker_audit ''redpanda:9092'' '','' (Some [(messages, ''context deadline exceeded'')])
    = Passed (length messages)"
proof -
  have "splitNonEmpty '','' = []" "splitNonEmpty ''redpanda:9092'' = [''redpanda:9092'']"
    "trim_space '','' = '',''" "trim_space ''redpanda:9092'' = ''redpanda:9092''"
    by (simp_all add: splitNonEmpty_def trimmed_def trim_space_visible byte_of_def)
  then show ?thesis
    using assms by (simp add: audit_verdict list_all_iff)
qed
subsection \<open>Provisioning and the pressure test\<close>

definition bootstrap :: "string \<Rightarrow> string \<Rightarrow> string \<Rightarrow> (pg, go_error, unit) program" where
  "bootstrap databaseURL tenantID apiKey =
     (if databaseURL = [] \<or> tenantID = [] \<or> apiKey = []
      then fail_with (Errorf ''PAOP_POSTGRES_URL, PAOP_TENANT_ID, and PAOP_API_KEY are required'')
      else CreateTenantKey tenantID (HashAPIKey apiKey))"

text \<open>\<^verbatim>\<open>%04d\<close> of an index.\<close>

definition four_digits :: "nat \<Rightarrow> string" where
  "four_digits n = replicate (4 - length (format_nat n)) (CHR ''0'') @ format_nat n"

definition pressure_envelope :: "string \<Rightarrow> nat \<Rightarrow> envelope" where
  "pressure_envelope tenantID index =
     (let traceID = ''pressure-trace-'' @ four_digits index; eventID = ''pressure-event-'' @ four_digits index
      in \<lparr>SchemaVersion = 0, TenantID = tenantID,
          Event = \<lparr>EventID = eventID, Signal = ''trace'', TraceID = traceID, SpanID = ''pressure-span'', ParentSpanID = [],
                   Name = ''synthetic.pressure'',
                   Attributes = [(''service.name'', ''synthetic-pressure''), (''http.status_code'', ''200'')]\<rparr>,
          Policy = \<lparr>PolicyVersion = [], RedactedPaths = []\<rparr>, EventKey = tenantID @ '':'' @ eventID\<rparr>)"

definition tail_pressure :: "(string \<Rightarrow> int) \<Rightarrow> visit \<Rightarrow> string \<Rightarrow> nat \<Rightarrow> (pg, go_error, unit) program" where
  "tail_pressure hashtext visit tenantID many =
     each (\<lambda>index. Stage_pg hashtext visit (pressure_envelope tenantID index)) [0..<many]"

end
