(* ===== verification/EnvelopeLaws.thy ===== *)
theory EnvelopeLaws
  imports Jobs
begin

text \<open>
  The platform as it is deployed: the gateway of \<^verbatim>\<open>cmd/gateway/main.go\<close> in front of PostgreSQL, the tail worker of
  \<^verbatim>\<open>cmd/tailer/main.go\<close> behind it, and the broker. A law of the envelopes that the gateway makes holds of every envelope
  the platform keeps, in every state that any steps of these programs reach.
\<close>

subsection \<open>What the store keeps of envelopes\<close>

definition stored :: "db \<Rightarrow> envelope set" where
  "stored d = bf_envelope ` set (tail_buffers d) \<union> ob_envelope ` set (tail_outbox d)"

text \<open>A change that brings in no envelopes but these, and leaves the redaction policies alone.\<close>

definition adds :: "envelope set \<Rightarrow> db \<Rightarrow> db \<Rightarrow> bool" where
  "adds E d d' = (stored d' \<subseteq> stored d \<union> E \<and> redaction_policies d' = redaction_policies d)"

lemma adds_refl [simp]: "adds E d d"
  by (simp add: adds_def)

lemma adds_trans: "adds E d d1 \<Longrightarrow> adds F d1 d2 \<Longrightarrow> E \<subseteq> G \<Longrightarrow> F \<subseteq> G \<Longrightarrow> adds G d d2"
  unfolding adds_def by auto

lemma adds_less:
  "set (tail_buffers d') \<subseteq> set (tail_buffers d) \<Longrightarrow> set (tail_outbox d') \<subseteq> set (tail_outbox d) \<Longrightarrow>
     redaction_policies d' = redaction_policies d \<Longrightarrow> adds E d d'"
  unfolding adds_def stored_def by blast

lemma adds_pruned: "adds E d (pruned_db po pk pc pr d)"
  by (rule adds_less) (auto simp: pruned_db_def)

lemma evict_adds:
  assumes "yields (evictTailTrace now t i reason) d u d'"
  shows "adds {} d d'"
  using assms
  by (auto simp: evictTailTrace_def select_def delete_buffers_def close_trace_def insert_decision_def Let_def adds_def stored_def
      elim!: yields_elims split: if_splits)

lemma buffer_events_adds:
  assumes "yields (buffer_events now t i n es) d u d'"
  shows "adds (set es) d d'"
  using buffer_events_effect [OF assms]
  by (auto simp: adds_def stored_def buffered_tables buffer_rows_def new_batch_def) (simp add: buffered_db_def Let_def)

lemma stage_trace_adds:
  assumes "yields (stageTraceTx hashtext now t i es) d u d'"
  shows "adds (set es) d d'"
  using assms
proof (cases rule: stageTraceTx_effect)
  case (extend r)
  from buffer_events_adds [OF extend(4)] show ?thesis .
next
  case (new d1)
  have "adds {} d d1" using new(2) evict_adds by auto
  moreover have "adds {} d1 (opened_db now t i d1)" by (simp add: adds_def opened_db_def stored_def)
  ultimately have "adds {} d (opened_db now t i d1)" by (rule adds_trans) simp_all
  from adds_trans [OF this buffer_events_adds [OF new(3)]] show ?thesis by simp
qed simp

lemma StageBatch_adds:
  assumes "permutes_groups visit" and "StageBatch_pg hashtext visit es s = (r, s')"
  shows "adds (set es) (database s) (database s')"
  using assms(2)
proof (cases rule: StageBatch_effect)
  case (all now)
  let ?I = "\<lambda>d. adds (set es) (database s) d"
  have "?I (database s')"
    using all(3) unfolding stage_tx_def
  proof (rule yields_each_invariant)
    fix g d1 d2 assume g: "g \<in> set (visit (by_trace es))" and I: "?I d1"
      and y: "yields (case g of (i, es') \<Rightarrow> stageTraceTx hashtext now (TenantID (hd es)) i es') d1 () d2"
    obtain i es' where ies: "g = (i, es')" by fastforce
    have "set es' \<subseteq> set es"
      using g unfolding permutes_groups_set [OF assms(1)] ies by (auto simp: by_trace_group)
    moreover have "adds (set es') d1 d2" using stage_trace_adds y unfolding ies by fastforce
    ultimately show "?I d2" using adds_trans [OF I] by blast
  qed simp
  then show ?thesis .
qed simp

lemma RecordTailDecision_adds:
  assumes "unique_rows (database s)" and "RecordTailDecision owner lease decision s = (r, s')"
  shows "adds {} (database s) (database s')"
  using assms(2)
proof (cases rule: RecordTailDecision_effect)
  case (all b now)
  have "ob_envelope ` set (decided_outbox now lease decision d) \<subseteq> stored d" for d
    by (auto simp: decided_outbox_def stored_def buffered_rows_def ordered_by_def outbox_row_of_def dest!: outbox_after_new)
  then have "adds {} d (close_db now t i reason kept (decided_outbox now lease decision d) d)" for t i reason kept d
    by (auto simp: close_db_def Let_def adds_def stored_def)
  then show ?thesis using decide_tx_effect [OF all(1) assms(1)] by (auto split: if_splits)
qed simp

subsection \<open>The gateway on PostgreSQL\<close>

text \<open>
  What a deployment chooses, with PostgreSQL's hash function and collation and Go's order of ranging over the traces of
  a batch. \<open>PolicyRecord\<close> are all redaction policies that the operators of the deployment ever put on record. \<open>now\<close> is the
  clock reading of the policy cache in a request.
\<close>

record deployment =
  GatewayCodecs :: codecs
  HashText :: "string \<Rightarrow> int"
  VisitOrder :: visit
  Rank :: "string \<Rightarrow> int"
  DefaultVersion :: string
  DeployedPatterns :: "regexp list"
  PolicyRecord :: "policy_row list"

definition on_source :: "('s, go_error, 'a) program \<Rightarrow> ('s cached_resolver, go_error, 'a) program" where
  "on_source m c = (let (r, s) = m (source_state c) in (r, c\<lparr>source_state := s\<rparr>))"

definition pg_gateway :: "deployment \<Rightarrow> int \<Rightarrow> pg cached_resolver gateway" where
  "pg_gateway D now =
     \<lparr>Authenticator = Some (\<lambda>key. on_source (Tenant key)), Publisher = None,
      Stager = Some (StageBatch (\<lambda>es. on_source (StageBatch_pg (HashText D) (VisitOrder D) es))),
      GatewayPolicyVersion = DefaultVersion D, Patterns = DeployedPatterns D,
      PolicyResolver = Some (CachedRedactionPolicy (Compile (GatewayCodecs D)) (30 * 1000000000) (RedactionPolicy (Rank D)) now)\<rparr>"

text \<open>The expressions that may be used on the events of a tenant: those of the deployment, and its own on record.\<close>

definition on_record :: "deployment \<Rightarrow> string \<Rightarrow> string \<Rightarrow> bool" where
  "on_record D tenant expression =
     (\<exists>row \<in> set (PolicyRecord D). rp_tenant row = tenant \<and> rp_expression row = expression)"

definition configured :: "deployment \<Rightarrow> string \<Rightarrow> regexp \<Rightarrow> bool" where
  "configured D tenant p =
     (p \<in> set (DeployedPatterns D) \<or>
      (\<exists>expression. on_record D tenant expression \<and> Compile (GatewayCodecs D) expression = Some p))"

text \<open>The invariant of the database: its own, a law of the envelopes it keeps, and no policies but those on record.\<close>

definition db_lawful :: "(envelope \<Rightarrow> bool) \<Rightarrow> deployment \<Rightarrow> pg \<Rightarrow> bool" where
  "db_lawful P D s =
     (store_ok (HashText D) s \<and> (\<forall>e \<in> stored (database s). P e) \<and>
      set (redaction_policies (database s)) \<subseteq> set (PolicyRecord D))"

text \<open>What holds of a session and survives the passing of time survives every query.\<close>

definition survives_queries :: "(pg \<Rightarrow> bool) \<Rightarrow> bool" where
  "survives_queries I = (\<forall>s s'. I s \<longrightarrow> database s' = database s \<longrightarrow> clock s \<le> clock s' \<longrightarrow> I s')"

lemma store_ok_survives: "survives_queries (store_ok hashtext)"
  unfolding survives_queries_def using store_ok_later by blast

lemma db_lawful_survives: "survives_queries (db_lawful P D)"
  unfolding survives_queries_def db_lawful_def using store_ok_later by metis

abbreviation gate_keeps :: "(pg \<Rightarrow> bool) \<Rightarrow> (pg cached_resolver, 'e, 'a) program \<Rightarrow> bool" where
  "gate_keeps I m \<equiv> keeps (\<lambda>c. I (source_state c)) m"

definition cache_on_record :: "deployment \<Rightarrow> policies \<Rightarrow> bool" where
  "cache_on_record D ps =
     (\<forall>tenant entry. ps tenant = Some entry \<longrightarrow> (\<forall>x \<in> set (expressions_of entry). on_record D tenant x))"

definition gate_lawful :: "(envelope \<Rightarrow> bool) \<Rightarrow> deployment \<Rightarrow> pg cached_resolver \<Rightarrow> bool" where
  "gate_lawful P D c = (db_lawful P D (source_state c) \<and> cache_on_record D (policies_of c))"

lemma on_sourceE:
  assumes "on_source m c = (r, c')"
  obtains s where "m (source_state c) = (r, s)" "c' = c\<lparr>source_state := s\<rparr>"
  using assms by (auto simp: on_source_def Let_def split: prod.splits)

lemma on_source_keeps:
  assumes "keeps I m"
  shows "gate_keeps I (on_source m)"
proof (rule keepsI, erule on_sourceE)
  fix c r c' s assume "I (source_state c)" "m (source_state c) = (r, s)" "c' = c\<lparr>source_state := s\<rparr>"
  then show "I (source_state c')" using keepsD [OF assms] by fastforce
qed

lemma select_keeps: "survives_queries I \<Longrightarrow> keeps I (autocommit (select q))"
  unfolding survives_queries_def by (rule keepsI) (auto simp: select_def elim!: autocommit_cases)

lemma RedactionPolicy_keeps: "survives_queries I \<Longrightarrow> keeps I (RedactionPolicy rank tenant)"
  unfolding RedactionPolicy_def
  by (intro hoare_and_then [OF select_keeps]) (auto simp: hoare_def split: sum.splits prod.splits)

lemma Tenant_keeps: "survives_queries I \<Longrightarrow> keeps I (Tenant key)"
  unfolding Tenant_def by (rule select_keeps)

lemma Cached_keeps:
  assumes "survives_queries I"
  shows "gate_keeps I (CachedRedactionPolicy compile interval (RedactionPolicy rank) now tenant)"
proof (rule keepsI)
  fix c r c' assume I: "I (source_state c)"
    and run: "CachedRedactionPolicy compile interval (RedactionPolicy rank) now tenant c = (r, c')"
  have "source_state c' = source_state c \<or> source_state c' = snd (RedactionPolicy rank tenant (source_state c))"
    using run by (auto simp: CachedRedactionPolicy_def Let_def split: prod.splits if_splits option.splits)
  with I keepsD [OF RedactionPolicy_keeps [OF assms] I] show "I (source_state c')" by metis
qed

lemma policy_rows:
  assumes "fold_or_fail add_policy_row rows (v0, es0) = Inr (v, es)"
  shows "es = es0 @ map snd rows"
  using assms
proof (induction rows arbitrary: v0 es0)
  case (Cons row rows)
  from Cons.prems have "\<exists>w. fold_or_fail add_policy_row rows (w, es0 @ [snd row]) = Inr (v, es)"
    by (cases row) (auto simp: add_policy_row_def [abs_def] Let_def split: if_splits)
  then show ?case using Cons.IH by fastforce
qed simp

lemma RedactionPolicy_on_record:
  assumes "db_lawful P D s" and "RedactionPolicy rank tenant s = (Inr (v, es, found), s')"
  shows "\<forall>x \<in> set es. on_record D tenant x"
proof -
  obtain rows s1 where rows: "autocommit (select (latest_policy rank tenant)) s = (Inr rows, s1)"
    and es: "\<exists>w. fold_or_fail add_policy_row rows ([], []) = Inr (w, es)"
    using assms(2) by (auto simp: RedactionPolicy_def and_then_def split: prod.splits sum.splits)
  have "rows = latest_policy rank tenant (database s)"
    using rows by (auto simp: select_def elim!: autocommit_cases)
  moreover have "es = map snd rows" using es policy_rows by fastforce
  moreover have "\<exists>p \<in> set (redaction_policies d). rp_tenant p = tenant \<and> rp_expression p = snd row"
    if "row \<in> set (latest_policy rank tenant d)" for row d
    using that by (auto simp: latest_policy_def Let_def split: list.splits)
  ultimately show ?thesis using assms(1) unfolding db_lawful_def on_record_def by fastforce
qed

lemma Cached_on_record:
  "hoare (gate_lawful P D) (CachedRedactionPolicy compile interval (RedactionPolicy rank) now tenant)
     (\<lambda>(v, es, found) c. gate_lawful P D c \<and> (\<forall>x \<in> set es. on_record D tenant x)) (\<lambda>_. gate_lawful P D)"
proof -
  have "gate_lawful P D c' \<and> (\<forall>v es found. r = Inr (v, es, found) \<longrightarrow> (\<forall>x \<in> set es. on_record D tenant x))"
    if I: "gate_lawful P D c" and run: "CachedRedactionPolicy compile interval (RedactionPolicy rank) now tenant c = (r, c')"
    for c r c'
  proof (cases "\<exists>entry. policies_of c tenant = Some entry \<and> now - refreshedAt entry < interval")
    case True
    then show ?thesis
      using I run by (auto simp: CachedRedactionPolicy_def Let_def gate_lawful_def cache_on_record_def answer_of_def)
  next
    case False
    obtain asked s where asked: "RedactionPolicy rank tenant (source_state c) = (asked, s)" by fastforce
    obtain result entry where next_entry: "settle compile now (policies_of c tenant) asked = (result, entry)" by fastforce
    have c': "r = result" "source_state c' = s"
      "policies_of c' = (case entry of None \<Rightarrow> policies_of c | Some e \<Rightarrow> (policies_of c)(tenant \<mapsto> e))"
      using run False asked next_entry
      by (auto simp: CachedRedactionPolicy_def Let_def split: option.splits if_splits)
    have db: "db_lawful P D (source_state c)" and cache: "cache_on_record D (policies_of c)"
      using I by (simp_all add: gate_lawful_def)
    have "db_lawful P D s"
      using keepsD [OF RedactionPolicy_keeps [OF db_lawful_survives] db, of rank tenant] asked by simp
    moreover have answer: "\<forall>x \<in> set es. on_record D tenant x" if "asked = Inr (v, es, found)" for v es found
      using RedactionPolicy_on_record [OF db] asked that by simp
    moreover have "\<forall>x \<in> set (expressions_of e). on_record D tenant x" if "entry = Some e" for e
      using next_entry that answer by (auto simp: settle_eq cache_entry_def split: sum.splits if_splits prod.splits)
    then have "cache_on_record D (policies_of c')"
      using cache by (auto simp: c'(3) cache_on_record_def split: option.splits if_splits)
    moreover have "\<forall>x \<in> set es. on_record D tenant x" if "result = Inr (v, es, found)" for v es found
      using next_entry that answer cache
      by (auto simp: settle_eq answer_of_def cache_on_record_def split: sum.splits if_splits option.splits)
    ultimately show ?thesis using c' by (auto simp: gate_lawful_def)
  qed
  then show ?thesis by (intro hoareI) blast+
qed

lemma added_patterns:
  assumes "fold_or_fail (add_expression (Compile (GatewayCodecs D))) expressions patterns = Inr result"
    and "\<forall>p \<in> set patterns. configured D tenant p" and "\<forall>x \<in> set expressions. on_record D tenant x"
  shows "\<forall>p \<in> set result. configured D tenant p"
proof -
  have "list_all (usable_expression (Compile (GatewayCodecs D))) expressions"
    "result = patterns @ map (\<lambda>e. the (Compile (GatewayCodecs D) e)) expressions"
    using assms(1) by (auto simp: add_expressions split: if_splits)
  then show ?thesis
    using assms(2,3) by (auto simp: list_all_iff usable_expression_def configured_def)
qed

lemma policy_patterns:
  "hoare (gate_lawful P D) (policy (Compile (GatewayCodecs D)) (pg_gateway D now) tenant)
    (\<lambda>(version, patterns) c. gate_lawful P D c \<and> (\<forall>p \<in> set patterns. configured D tenant p)) (\<lambda>_. gate_lawful P D)"
proof -
  have gateway: "Patterns (pg_gateway D now) = DeployedPatterns D"
    "PolicyResolver (pg_gateway D now) = Some (CachedRedactionPolicy (Compile (GatewayCodecs D)) (30 * 1000000000)
       (RedactionPolicy (Rank D)) now)"
    by (simp_all add: pg_gateway_def)
  let ?Q = "\<lambda>(version, ps) c. gate_lawful P D c \<and> (\<forall>p \<in> set ps. configured D tenant p)"
  have deployed: "\<forall>p \<in> set (DeployedPatterns D). configured D tenant p" by (simp add: configured_def)
  show ?thesis
    unfolding policy_def gateway option.case
  proof (rule hoare_and_then [OF Cached_on_record])
    fix a :: "string \<times> string list \<times> bool"
    obtain version expressions found where a: "a = (version, expressions, found)" by (cases a)
    show "hoare (case a of (v, es, found) \<Rightarrow> \<lambda>c. gate_lawful P D c \<and> (\<forall>x \<in> set es. on_record D tenant x))
       (case a of (resolvedVersion, expressions, found) \<Rightarrow>
        if \<not> found then ret (GatewayPolicyVersion (pg_gateway D now), DeployedPatterns D)
        else if resolvedVersion = [] then fail_with (Errorf ''redaction policy version missing'')
        else case fold_or_fail (add_expression (Compile (GatewayCodecs D))) expressions (DeployedPatterns D) of
          Inl err \<Rightarrow> fail_with err | Inr ps \<Rightarrow> ret (resolvedVersion, ps)) ?Q (\<lambda>_. gate_lawful P D)"
      unfolding a prod.case
      using deployed added_patterns [OF _ deployed] by (auto simp: hoare_def split: sum.splits)
  qed
qed

lemma policy_keeps:
  assumes "survives_queries I"
  shows "gate_keeps I (policy compile (pg_gateway D now) tenant)"
  unfolding policy_def pg_gateway_def gateway.select_convs option.case
  by (rule hoare_and_then [OF Cached_keeps [OF assms]])
    (auto simp: hoare_def split: prod.splits sum.splits if_splits)

lemma unnamed_stage:
  "StageBatch_pg hashtext visit (map (make_envelope [] version patterns) events) s = (r, s') \<Longrightarrow> s' = s"
  by (cases events) (auto simp: StageBatch_pg_def)

subsection \<open>The gateway under a law of envelopes\<close>

text \<open>
  A law of envelopes that the gateway establishes when it makes one, from a valid event and expressions that are
  configured for its tenant. Nothing behind the gateway makes or changes an envelope, so the law then holds wherever one is kept.
\<close>

locale envelope_law =
  fixes D :: deployment and P :: "envelope \<Rightarrow> bool"
  assumes made: "valid event \<Longrightarrow> tenant \<noteq> [] \<Longrightarrow> \<forall>p \<in> set patterns. configured D tenant p \<Longrightarrow>
    P (make_envelope tenant version patterns event)"
begin

lemma acceptEvents_keeps:
  assumes "permutes_groups (VisitOrder D)"
  shows "keeps (gate_lawful P D) (acceptEvents (Compile (GatewayCodecs D)) (pg_gateway D now) tenant events)"
proof (rule keepsI)
  fix c r c' assume I: "gate_lawful P D c"
    and run: "acceptEvents (Compile (GatewayCodecs D)) (pg_gateway D now) tenant events c = (r, c')"
  obtain q c1 where q: "policy (Compile (GatewayCodecs D)) (pg_gateway D now) tenant c = (q, c1)" by fastforce
  note pol = policy_patterns [of P D now tenant]
  show "gate_lawful P D c'"
  proof (cases q)
    case (Inl err)
    then show ?thesis
      using run q hoare_InlD [OF pol I] by (auto simp: acceptEvents_no_policy)
  next
    case (Inr vp)
    then obtain version patterns where vp: "q = Inr (version, patterns)" by (cases vp) auto
    have ok: "gate_lawful P D c1" "\<forall>p \<in> set patterns. configured D tenant p"
      using hoare_InrD [OF pol I, of "(version, patterns)" c1] q vp by auto
    let ?es = "map (make_envelope tenant version patterns) events"
    show ?thesis
    proof (cases "list_all valid events")
      case True
      then have "on_source (StageBatch_pg (HashText D) (VisitOrder D) ?es) c1 = (r, c')"
        using run acceptEvents_run [OF q [unfolded vp], of events] by (simp add: deliver_def pg_gateway_def)
      then show ?thesis
      proof (rule on_sourceE)
        fix s assume s: "StageBatch_pg (HashText D) (VisitOrder D) ?es (source_state c1) = (r, s)" "c' = c1\<lparr>source_state := s\<rparr>"
        have db: "db_lawful P D (source_state c1)" using ok(1) by (simp add: gate_lawful_def)
        have "\<forall>e \<in> set ?es. P e" if "tenant \<noteq> []"
          using made [OF _ that ok(2)] True by (simp add: list_all_iff)
        moreover have "s = source_state c1" if "tenant = []" using unnamed_stage s(1) that by blast
        ultimately have "db_lawful P D s"
          using db store_step_ok [OF store_step.stage [OF s(1)]] StageBatch_adds [OF assms s(1)]
          unfolding db_lawful_def adds_def by (cases "tenant = []") auto
        then show ?thesis using ok(1) by (simp add: gate_lawful_def s(2))
      qed
    qed (use run ok(1) acceptEvents_run [OF q [unfolded vp], of events] in simp)
  qed
qed

lemma authenticated_gate: "keeps (gate_lawful P D) (on_source (Tenant key))"
proof (rule keepsI, erule on_sourceE)
  fix c r c' s assume I: "gate_lawful P D c" and s: "Tenant key (source_state c) = (r, s)" "c' = c\<lparr>source_state := s\<rparr>"
  have "db_lawful P D s"
    using keepsD [OF Tenant_keeps [OF db_lawful_survives], of P D "source_state c" key] I s(1) by (simp add: gate_lawful_def)
  then show "gate_lawful P D c'" using I by (simp add: gate_lawful_def s(2))
qed

lemma ServeHTTP_keeps:
  assumes "permutes_groups (VisitOrder D)" and "gate_lawful P D c"
    and "ServeHTTP (GatewayCodecs D) (pg_gateway D now) r c = (response, c')"
  shows "gate_lawful P D c'"
proof -
  have auth: "gate_lawful P D c1" if "Authenticator (pg_gateway D now) = Some authenticate"
      "authenticate (APIKey r) c = (a, c1)" for authenticate a c1
    using keepsD [OF authenticated_gate assms(2), of "APIKey r"] that by (auto simp: pg_gateway_def)
  from assms(3) show ?thesis
  proof (cases rule: ServeHTTP_cases)
    case (run authenticate tenant c1)
    then show ?thesis
      using auth keepsD [OF acceptEvents_keeps [OF assms(1)]] unfolding runs_events_def by (metis snd_conv)
  qed (use assms(2) auth in blast)+
qed

lemma to_status_snd: "snd (to_status m s) = snd (m s)"
  by (auto simp: to_status_def split: prod.splits sum.splits)

lemma authenticated_keeps:
  assumes "keeps (gate_lawful P D) (authenticator (firstMetadata md ''x-paop-api-key''))"
    and "\<And>tenant. keeps (gate_lawful P D) (m tenant)" and "gate_lawful P D c"
  shows "gate_lawful P D (snd (and_then (grpc_authenticate authenticator md) (\<lambda>tenant. to_status (m tenant)) c))"
proof -
  obtain a c1 where a: "authenticator (firstMetadata md ''x-paop-api-key'') c = (a, c1)" by fastforce
  have c1: "gate_lawful P D c1" using keepsD [OF assms(1,3)] a by simp
  have "gate_lawful P D (snd (m tenant c1))" for tenant by (rule keepsD [OF assms(2) c1])
  then show ?thesis
    using c1 a by (auto simp: and_then_def grpc_authenticate_def to_status_snd split: sum.splits option.splits)
qed

lemma handed_on_keeps:
  assumes "permutes_groups (VisitOrder D)" and "hands_on (GatewayCodecs D) (pg_gateway D now) tenant wanted m"
  shows "keeps (gate_lawful P D) m"
proof (rule keepsI)
  fix c r c' assume I: "gate_lawful P D c" and run: "m c = (r, c')"
  from hands_on_result [OF assms(2) run] show "gate_lawful P D c'"
    using I keepsD [OF acceptEvents_keeps [OF assms(1)] I] by (metis snd_conv)
qed

lemma Export_keeps:
  assumes "permutes_groups (VisitOrder D)" and "gate_lawful P D c"
  shows "Export (GatewayCodecs D) (pg_gateway D now) md treq = Some m \<Longrightarrow> gate_lawful P D (snd (m c))"
    and "ExportLogs (GatewayCodecs D) (pg_gateway D now) md lreq = Some n \<Longrightarrow> gate_lawful P D (snd (n c))"
proof -
  note auth = authenticated_gate
  have "Authenticator (pg_gateway D now) = Some (\<lambda>key. on_source (Tenant key))" by (simp add: pg_gateway_def)
  then show "Export (GatewayCodecs D) (pg_gateway D now) md treq = Some m \<Longrightarrow> gate_lawful P D (snd (m c))"
    and "ExportLogs (GatewayCodecs D) (pg_gateway D now) md lreq = Some n \<Longrightarrow> gate_lawful P D (snd (n c))"
    using authenticated_keeps [OF auth handed_on_keeps [OF assms(1) adapters_hand_on(5)] assms(2)]
      authenticated_keeps [OF auth handed_on_keeps [OF assms(1) adapters_hand_on(6)] assms(2)]
    by (auto simp: Export_def ExportLogs_def)
qed

end

subsection \<open>The tail worker\<close>

definition world_lawful :: "'b kafka_publisher \<Rightarrow> (envelope \<Rightarrow> bool) \<Rightarrow> deployment \<Rightarrow> 'b tail_world \<Rightarrow> bool" where
  "world_lawful K P D w =
     (db_lawful P D (tail_pg w) \<and> (\<forall>m \<in> Topic K (tail_broker w). \<exists>e. message_of K e m \<and> P e))"

lemma on_pg_keeps:
  assumes "keeps (db_lawful P D) m"
  shows "keeps (world_lawful K P D) (on_pg m)"
proof (rule keepsI, erule on_pgE)
  fix w r w' s assume w: "world_lawful K P D w" "m (tail_pg w) = (r, s)" "w' = w\<lparr>tail_pg := s\<rparr>"
  then have "db_lawful P D s" using keepsD [OF assms, of "tail_pg w"] by (simp add: world_lawful_def)
  then show "world_lawful K P D w'" using w(1) by (simp add: world_lawful_def w(3))
qed

lemma relabel_adds:
  assumes "\<And>m. ob_envelope (f m) = ob_envelope m"
  shows "adds {} d (d\<lparr>tail_outbox := update_where p f (tail_outbox d)\<rparr>)"
proof -
  have "map ob_envelope (update_where p f rows) = map ob_envelope rows" for rows
    by (rule map_update_where) (rule assms)
  then have "ob_envelope ` set (update_where p f rows) = ob_envelope ` set rows" for rows by (metis set_map)
  then show ?thesis by (simp add: adds_def stored_def)
qed

lemma autocommit_adds:
  assumes "autocommit f s = (r, s')"
    and "\<And>locked now d a d'. f locked now d = Inr (a, d') \<Longrightarrow> adds {} d d'"
  shows "adds {} (database s) (database s')"
  using assms(1)
proof (cases rule: autocommit_cases)
  case (all a locked)
  show ?thesis by (rule assms(2) [OF all(1)])
qed simp

lemma lawful_step:
  assumes "db_lawful P D s" and "store_step (HashText D) s s'" and "adds {} (database s) (database s')"
  shows "db_lawful P D s'"
  using assms(1,3) store_step_ok [OF assms(2)] by (auto simp: db_lawful_def adds_def)

lemma claim_traces_adds: "ClaimTailTraces owner quiet ttl limit s = (r, s') \<Longrightarrow> adds {} (database s) (database s')"
  unfolding ClaimTailTraces_def Let_def
  by (rule autocommit_adds) (auto simp: claim_traces_def Let_def adds_def stored_def)

lemma claim_outbox_adds: "ClaimTailOutbox owner ttl limit s = (r, s') \<Longrightarrow> adds {} (database s) (database s')"
  unfolding ClaimTailOutbox_def Let_def
  by (rule autocommit_adds) (auto simp: claim_outbox_def Let_def intro!: relabel_adds)

lemma mark_adds: "MarkTailOutboxPublished owner key s = (r, s') \<Longrightarrow> adds {} (database s) (database s')"
  by (erule MarkTailOutboxPublished_autocommits, erule autocommit_adds)
    (auto simp: mark_published_def Let_def intro!: relabel_adds)

lemma world_calls_keep:
  shows claim_keeps: "keeps (world_lawful K P D) (ClaimTraces pg_source owner quiet ttl limit)"
    and load_keeps: "keeps (world_lawful K P D) (LoadTrace pg_source lease)"
    and decide_keeps: "keeps (world_lawful K P D) (RecordDecision pg_source owner lease decision)"
    and mark_keeps: "keeps (world_lawful K P D) (MarkPublished pg_source owner key)"
proof -
  have "keeps (db_lawful P D) (ClaimTailTraces owner quiet ttl limit)"
    by (rule keepsI) (rule lawful_step [OF _ store_step.claim claim_traces_adds])
  moreover have "keeps (db_lawful P D) (LoadTailTrace lease)"
    unfolding LoadTailTrace_def by (rule select_keeps [OF db_lawful_survives])
  moreover have "keeps (db_lawful P D) (RecordTailDecision owner lease decision)"
  proof (rule keepsI)
    fix s r s' assume I: "db_lawful P D s" and run: "RecordTailDecision owner lease decision s = (r, s')"
    have "unique_rows (database s)" using I by (simp add: db_lawful_def store_ok_def tail_ok_def)
    from RecordTailDecision_adds [OF this run] show "db_lawful P D s'"
      by (rule lawful_step [OF I store_step.decide [OF run]])
  qed
  moreover have "keeps (db_lawful P D) (MarkTailOutboxPublished owner key)"
    by (rule keepsI) (rule lawful_step [OF _ store_step.mark mark_adds])
  ultimately show "keeps (world_lawful K P D) (ClaimTraces pg_source owner quiet ttl limit)"
    "keeps (world_lawful K P D) (LoadTrace pg_source lease)"
    "keeps (world_lawful K P D) (RecordDecision pg_source owner lease decision)"
    "keeps (world_lawful K P D) (MarkPublished pg_source owner key)"
    by (simp_all add: pg_source_def on_pg_keeps)
qed

text \<open>The messages a worker claims carry envelopes of the store, so what it publishes obeys the law.\<close>

lemma claim_outbox_lawful:
  "hoare (world_lawful K P D) (ClaimOutbox pg_source owner ttl limit)
     (\<lambda>messages w. world_lawful K P D w \<and> (\<forall>m \<in> set messages. P (MsgEnvelope m))) (\<lambda>_. world_lawful K P D)"
proof (rule hoareI)
  fix w w' assume I: "world_lawful K P D w"
  have kept: "world_lawful K P D w'" if "ClaimOutbox pg_source owner ttl limit w = (r, w')" for r
  proof -
    have "keeps (db_lawful P D) (ClaimTailOutbox owner ttl limit)"
      by (rule keepsI) (rule lawful_step [OF _ store_step.claim_outbox claim_outbox_adds])
    then have "keeps (world_lawful K P D) (ClaimOutbox pg_source owner ttl limit)"
      by (simp add: pg_source_def on_pg_keeps)
    from keepsD [OF this I] show ?thesis using that by simp
  qed
  show "world_lawful K P D w'" if "ClaimOutbox pg_source owner ttl limit w = (Inl err, w')" for err
    using kept that .
  fix messages assume run: "ClaimOutbox pg_source owner ttl limit w = (Inr messages, w')"
  then obtain s where s: "ClaimTailOutbox owner ttl limit (tail_pg w) = (Inr messages, s)"
    by (auto simp: pg_source_def elim: on_pgE)
  then obtain n locked where claimed: "claim_outbox owner ttl n locked (clock s) (database (tail_pg w)) = Inr (messages, database s)"
    unfolding ClaimTailOutbox_def Let_def by (blast elim: autocommit_returned)
  have "P (MsgEnvelope m)" if m: "m \<in> set messages" for m
  proof (rule claim_outbox_messages [OF claimed m])
    fix row assume "row \<in> set (tail_outbox (database (tail_pg w)))" "MsgEnvelope m = ob_envelope row"
    then show "P (MsgEnvelope m)" using I by (auto simp: world_lawful_def db_lawful_def stored_def)
  qed
  then show "world_lawful K P D w' \<and> (\<forall>m \<in> set messages. P (MsgEnvelope m))"
    using kept [OF run] by blast
qed

lemma publish_keeps:
  assumes "acknowledges K" and "P e"
  shows "keeps (world_lawful K P D) (broker_publish K e)"
proof (rule keepsI, erule broker_publishE)
  fix w r w' b assume "world_lawful K P D w" "kafka_Publish K e (tail_broker w) = (r, b)" "w' = w\<lparr>tail_broker := b\<rparr>"
  then show "world_lawful K P D w'"
    using kafka_Publish_effect(2) [OF assms(1)] assms(2) unfolding world_lawful_def by fastforce
qed

lemma runner_process_keeps:
  assumes "acknowledges K"
  shows "keeps (world_lawful K P D) (runner_process millis pg_source (broker_publish K) cfg)"
proof -
  have lease: "keeps (world_lawful K P D) (process_lease millis pg_source c l)" for c l
    unfolding process_lease_def
    by (rule hoare_and_then [OF hoare_wrapped [OF load_keeps]], rule hoare_case_option, simp add: hoare_fail_with,
        rule hoare_and_then [OF hoare_wrapped [OF decide_keeps]], simp add: hoare_ret)
  have message: "keeps (world_lawful K P D) (publish_message pg_source (broker_publish K) c m)"
    if "P (MsgEnvelope m)" for c m
    unfolding publish_message_def by (rule hoare_and_then [OF hoare_wrapped [OF publish_keeps [of K P, OF assms that]] hoare_wrapped [OF mark_keeps]])
  have messages: "hoare (\<lambda>w. world_lawful K P D w \<and> (\<forall>m \<in> set ms. P (MsgEnvelope m)))
      (each (publish_message pg_source (broker_publish K) c) ms) (\<lambda>_. world_lawful K P D) (\<lambda>_. world_lawful K P D)" for c ms
  proof (cases "\<forall>m \<in> set ms. P (MsgEnvelope m)")
    case True
    then show ?thesis by (intro hoare_conseq [OF hoare_each]) (auto intro: message)
  next
    case False
    then show ?thesis by (intro hoareI) blast+
  qed
  show ?thesis
    unfolding runner_process_def Let_def
    by (rule hoare_and_then [OF hoare_wrapped [OF claim_keeps]], rule hoare_and_then [OF hoare_each [OF lease]],
        rule hoare_and_then [OF hoare_wrapped [OF claim_outbox_lawful] messages])
qed

subsection \<open>Every other use of the database\<close>

text \<open>What the retention job, the query API, the consumer and an operator do to the database.\<close>

inductive upkeep :: "pg \<Rightarrow> pg \<Rightarrow> bool" where
  expire: "DeleteTailDataBefore tenantID cutoff s = (r6, s') \<Longrightarrow> upkeep s s'"
| erase: "DeleteTenantTailData tenantID s = (r7, s') \<Longrightarrow> upkeep s s'"
| create_key: "CreateTenantKey tenantID keyHash s = (r8, s') \<Longrightarrow> upkeep s s'"
| claim_delivery: "ClaimDelivery key tenantID s = (r9, s') \<Longrightarrow> upkeep s s'"
| persisted: "MarkPersisted key s = (r10, s') \<Longrightarrow> upkeep s s'"
| lost: "RecordLoss key loss s = (r11, s') \<Longrightarrow> upkeep s s'"
| dead_letter: "RecordDeadLetter tenantID key version reason sha part offset s = (r12, s') \<Longrightarrow> upkeep s s'"
| audit: "RecordAudit tenantID action metadata s = (r13, s') \<Longrightarrow> upkeep s s'"
| elsewhere: "database s' = database s \<Longrightarrow> clock s \<le> clock s' \<Longrightarrow> upkeep s s'"

lemma metadata_adds:
  "autocommit (claim_delivery key tenantID) s = (q1, s') \<Longrightarrow> adds {} (database s) (database s')"
  "autocommit (settle_delivery key status err) s = (q2, s') \<Longrightarrow> adds {} (database s) (database s')"
  "autocommit (insert_dead_letter letter_tenant letter_key version reason sha part offset) s = (q3, s') \<Longrightarrow>
     adds {} (database s) (database s')"
  "autocommit (insert_audit tenantID action attrs) s = (q4, s') \<Longrightarrow> adds {} (database s) (database s')"
proof -
  show "autocommit (claim_delivery key tenantID) s = (q1, s') \<Longrightarrow> adds {} (database s) (database s')"
    by (erule autocommit_adds) (auto simp: claim_delivery_def adds_def stored_def split: option.splits if_splits)
  show "autocommit (settle_delivery key status err) s = (q2, s') \<Longrightarrow> adds {} (database s) (database s')"
    by (erule autocommit_adds) (auto simp: settle_delivery_def adds_def stored_def Let_def)
  show "autocommit (insert_dead_letter letter_tenant letter_key version reason sha part offset) s = (q3, s') \<Longrightarrow>
     adds {} (database s) (database s')"
    by (erule autocommit_adds) (auto simp: insert_dead_letter_def adds_def stored_def Let_def split: if_splits)
  show "autocommit (insert_audit tenantID action attrs) s = (q4, s') \<Longrightarrow> adds {} (database s) (database s')"
    by (erule autocommit_adds) (auto simp: insert_audit_def adds_def stored_def Let_def split: if_splits)
qed

lemma CreateTenantKey_adds:
  assumes "CreateTenantKey tenantID keyHash s = (r, s')"
  shows "adds {} (database s) (database s')"
proof -
  have "\<exists>ts ks. database s' = (database s)\<lparr>tenants := ts, api_keys := ks\<rparr>"
    using CreateTenantKey_effect [OF assms] unfolding key_created_def
    by (elim conjE disjE) (metis db.surjective db.update_convs(1,2), metis)
  then show ?thesis by (auto simp: adds_def stored_def)
qed

lemma upkeep_step: "upkeep s s' \<Longrightarrow> store_step hashtext s s'"
  by (induction rule: upkeep.induct) (blast intro: store_step.intros)+

lemma upkeep_adds: "upkeep s s' \<Longrightarrow> adds {} (database s) (database s')"
proof (induction rule: upkeep.induct)
  case (expire tenantID cutoff s r s')
  then show ?case by (rule DeleteTailDataBefore_effect) (simp_all add: adds_pruned)
next
  case (erase tenantID s r s')
  then show ?case by (rule DeleteTenantTailData_effect) (simp_all add: adds_pruned)
next
  case (claim_delivery key tenantID s r s')
  obtain q where "autocommit (claim_delivery key tenantID) s = (q, s')"
    using claim_delivery(1) by (auto simp: ClaimDelivery_def and_then_def split: sum.splits prod.splits option.splits)
  then show ?case by (rule metadata_adds)
next
  case (persisted key s r s')
  then show ?case using MarkPersisted_settles metadata_adds(2) by blast
next
  case (lost key loss s r s')
  then show ?case using RecordLoss_settles metadata_adds(2) by blast
next
  case (dead_letter tenantID key version reason sha part offset s r s')
  then show ?case unfolding RecordDeadLetter_def Let_def by (rule metadata_adds)
next
  case (audit tenantID action metadata s r s')
  then show ?case unfolding RecordAudit_def by (rule metadata_adds)
qed (simp_all add: CreateTenantKey_adds)

subsection \<open>The platform\<close>

record 'b platform =
  gate :: "pg cached_resolver"
  cluster :: 'b

definition worker_view :: "'b platform \<Rightarrow> 'b tail_world" where
  "worker_view p = \<lparr>tail_pg = source_state (gate p), tail_broker = cluster p\<rparr>"

definition after_worker :: "'b platform \<Rightarrow> 'b tail_world \<Rightarrow> 'b platform" where
  "after_worker p w = p\<lparr>gate := (gate p)\<lparr>source_state := tail_pg w\<rparr>, cluster := tail_broker w\<rparr>"

text \<open>
  One step: a request to one of the three front ends of the gateway, a pass of the tail worker that ends in any way,
  another program at work on the database, operators who change the redaction policies, a restart of the gateway, which
  empties its policy cache, or the Kafka cluster on its own, which may drop messages but gets none from elsewhere.
\<close>

inductive platform_step :: "'b kafka_publisher \<Rightarrow> deployment \<Rightarrow> 'b platform \<Rightarrow> 'b platform \<Rightarrow> bool" for K D where
  http: "ServeHTTP (GatewayCodecs D) (pg_gateway D now) request (gate p) = (response, c) \<Longrightarrow>
     platform_step K D p (p\<lparr>gate := c\<rparr>)"
| grpc_traces: "Export (GatewayCodecs D) (pg_gateway D now) md treq = Some m \<Longrightarrow> m (gate p) = (r1, c) \<Longrightarrow>
     platform_step K D p (p\<lparr>gate := c\<rparr>)"
| grpc_logs: "ExportLogs (GatewayCodecs D) (pg_gateway D now) md lreq = Some n \<Longrightarrow> n (gate p) = (r2, c) \<Longrightarrow>
     platform_step K D p (p\<lparr>gate := c\<rparr>)"
| tail_pass: "runner_process millis pg_source (broker_publish K) cfg (worker_view p) = (r3, w) \<Longrightarrow>
     platform_step K D p (after_worker p w)"
| other: "upkeep (source_state (gate p)) s \<Longrightarrow> platform_step K D p (p\<lparr>gate := (gate p)\<lparr>source_state := s\<rparr>\<rparr>)"
| operators: "set rows \<subseteq> set (PolicyRecord D) \<Longrightarrow>
     database s = (database (source_state (gate p)))\<lparr>redaction_policies := rows\<rparr> \<Longrightarrow>
     clock (source_state (gate p)) \<le> clock s \<Longrightarrow> platform_step K D p (p\<lparr>gate := (gate p)\<lparr>source_state := s\<rparr>\<rparr>)"
| restart: "platform_step K D p (p\<lparr>gate := (gate p)\<lparr>policies_of := \<lambda>_. None\<rparr>\<rparr>)"
| kafka_alone: "Topic K b \<subseteq> Topic K (cluster p) \<Longrightarrow> platform_step K D p (p\<lparr>cluster := b\<rparr>)"

text \<open>Where the platform starts: nothing buffered or published, an empty cache, and policies that are on record.\<close>

definition fresh_platform :: "'b kafka_publisher \<Rightarrow> deployment \<Rightarrow> 'b platform \<Rightarrow> bool" where
  "fresh_platform K D p =
     (tail_empty (database (source_state (gate p))) \<and> policies_of (gate p) = (\<lambda>_. None) \<and>
      set (redaction_policies (database (source_state (gate p)))) \<subseteq> set (PolicyRecord D) \<and> Topic K (cluster p) = {})"

text \<open>
  The envelopes at rest, in the buffers and in the outbox, and the messages in the topic.
\<close>

abbreviation kept_envelopes :: "'b platform \<Rightarrow> envelope set" where
  "kept_envelopes p \<equiv> stored (database (source_state (gate p)))"

abbreviation topic_messages :: "'b kafka_publisher \<Rightarrow> 'b platform \<Rightarrow> (string \<times> string) set" where
  "topic_messages K p \<equiv> Topic K (cluster p)"

definition platform_lawful :: "'b kafka_publisher \<Rightarrow> (envelope \<Rightarrow> bool) \<Rightarrow> deployment \<Rightarrow> 'b platform \<Rightarrow> bool" where
  "platform_lawful K P D p =
     (gate_lawful P D (gate p) \<and> (\<forall>m \<in> topic_messages K p. \<exists>e. message_of K e m \<and> P e))"

lemma platform_lawful_gate: "platform_lawful K P D p \<Longrightarrow> gate_lawful P D c \<Longrightarrow> platform_lawful K P D (p\<lparr>gate := c\<rparr>)"
  by (simp add: platform_lawful_def)

context envelope_law
begin

lemma platform_step_lawful:
  assumes "permutes_groups (VisitOrder D)" and "acknowledges K"
  shows "platform_step K D p p' \<Longrightarrow> platform_lawful K P D p \<Longrightarrow> platform_lawful K P D p'"
proof (induction rule: platform_step.induct)
  case (http now request p response c)
  have "gate_lawful P D (gate p)" using http(2) by (simp add: platform_lawful_def)
  from platform_lawful_gate [OF http(2) ServeHTTP_keeps [OF assms(1) this http(1)]] show ?case .
next
  case (grpc_traces now md treq m p r c)
  have "gate_lawful P D (snd (m (gate p)))"
    by (rule Export_keeps(1) [OF assms(1) _ grpc_traces(1)]) (use grpc_traces(3) in \<open>simp add: platform_lawful_def\<close>)
  then show ?case using grpc_traces(2,3) platform_lawful_gate by simp
next
  case (grpc_logs now md lreq n p r c)
  have "gate_lawful P D (snd (n (gate p)))"
    by (rule Export_keeps(2) [OF assms(1) _ grpc_logs(1)]) (use grpc_logs(3) in \<open>simp add: platform_lawful_def\<close>)
  then show ?case using grpc_logs(2,3) platform_lawful_gate by simp
next
  case (tail_pass millis cfg p r w)
  have "world_lawful K P D (worker_view p)"
    using tail_pass(2) by (simp add: platform_lawful_def gate_lawful_def world_lawful_def worker_view_def)
  from keepsD [OF runner_process_keeps [OF assms(2)] this] have "world_lawful K P D w" using tail_pass(1) by (metis snd_conv)
  then show ?case
    using tail_pass(2) by (simp add: platform_lawful_def gate_lawful_def after_worker_def world_lawful_def)
next
  case (other p s)
  then have "db_lawful P D s"
    using lawful_step [of P D, OF _ upkeep_step upkeep_adds] by (auto simp: platform_lawful_def gate_lawful_def)
  then show ?case using other(2) by (simp add: platform_lawful_def gate_lawful_def)
next
  case (operators rows s p)
  let ?s = "source_state (gate p)"
  have I: "db_lawful P D ?s" using operators(4) by (simp add: platform_lawful_def gate_lawful_def)
  have "tail_ok (HashText D) (clock s) (database s)"
    using tail_ok_later [OF _ operators(3)] I tail_ok_cong [of "database s" "database ?s" "HashText D" "clock s"]
    by (simp add: operators(2) db_lawful_def store_ok_def)
  then have "db_lawful P D s"
    using I operators(1) by (simp add: db_lawful_def store_ok_def operators(2) stored_def)
  then show ?case using operators(4) by (simp add: platform_lawful_def gate_lawful_def)
qed (auto simp: platform_lawful_def gate_lawful_def cache_on_record_def)

lemma platform_keeps:
  assumes "permutes_groups (VisitOrder D)" and "acknowledges K" and "fresh_platform K D p" and "(platform_step K D)\<^sup>*\<^sup>* p p'"
  shows "(\<forall>e \<in> kept_envelopes p'. P e) \<and> (\<forall>m \<in> topic_messages K p'. \<exists>e. message_of K e m \<and> P e)"
proof -
  have "store_ok (HashText D) (source_state (gate p))"
    by (rule reachable_ok) (use assms(3) in \<open>auto simp: reachable_def fresh_platform_def\<close>)
  then have "platform_lawful K P D p"
    using assms(3)
    by (simp add: fresh_platform_def platform_lawful_def gate_lawful_def cache_on_record_def db_lawful_def stored_def tail_empty_def)
  with assms(4) have "platform_lawful K P D p'"
    by induction (auto intro: platform_step_lawful [OF assms(1,2)])
  then show ?thesis by (auto simp: platform_lawful_def gate_lawful_def db_lawful_def)
qed

end

end
