(* ===== verification/Platform.thy ===== *)
theory Platform
  imports EnvelopeLaws
begin

text \<open>
  What the deployed platform guarantees: the two laws its envelopes obey, wherever they are kept, and the fate of an
  event from the request that carries it to the consumer that stores it.
\<close>

subsection \<open>Envelopes without secrets\<close>

text \<open>
  An expression of the tenant exposes an address in some value: the value holds none when its turn comes, it matches,
  and its replacement joins what is around it to an address. \<open>before\<close> are the expressions applied ahead of it.
\<close>

definition exposing :: "deployment \<Rightarrow> string \<Rightarrow> bool" where
  "exposing D tenant =
     (\<exists>before p original. (\<forall>q \<in> set (before @ [p]). configured D tenant q) \<and>
        exposes_in p (fst (redact_patterns before (without_email original) False)))"

text \<open>No value of a sensitive key, and no e-mail address but one that an expression exposed.\<close>

definition discreet :: "deployment \<Rightarrow> envelope \<Rightarrow> bool" where
  "discreet D e =
     (\<forall>(k, v) \<in> set (Attributes (Event e)).
        (sensitiveKey k \<longrightarrow> v = ''[REDACTED]'') \<and> (match_string emailPattern v \<longrightarrow> exposing D (TenantID e)))"

lemma put_all_values: "(k, v) \<in> set (put_all new base) \<Longrightarrow> (k, v) \<in> set new \<or> (k, v) \<in> set base"
  by (induction new base rule: put_all.induct) (auto dest: update_new_set)

lemma Sanitize_values:
  assumes "(k, v) \<in> set (fst (Sanitize attributes version patterns))"
  obtains original where "(k, original) \<in> set attributes" "v = clean_value patterns k original"
  using assms by (auto simp: Sanitize_attributes dest!: put_all_values)

lemma clean_value_exposing:
  assumes "\<forall>p \<in> set patterns. configured D tenant p" and "match_string emailPattern (clean_value patterns k original)"
  shows "exposing D tenant"
proof -
  obtain before p after where "patterns = before @ p # after"
    "exposes_in p (fst (redact_patterns before (without_email original) False))"
    using clean_value_exposed [OF assms(2)] by blast
  with assms(1) show ?thesis unfolding exposing_def by (intro exI [of _ before] exI [of _ p]) auto
qed

interpretation discretion: envelope_law D "discreet D" for D
proof unfold_locales
  fix event :: event and tenant version :: string and patterns
  assume configured: "\<forall>p \<in> set patterns. configured D tenant p"
  have "(sensitiveKey k \<longrightarrow> v = ''[REDACTED]'') \<and> (match_string emailPattern v \<longrightarrow> exposing D tenant)"
    if kv: "(k, v) \<in> set (fst (Sanitize (Attributes event) version patterns))" for k v
    using kv
  proof (rule Sanitize_values)
    fix original assume v: "v = clean_value patterns k original"
    have "sensitiveKey k \<longrightarrow> v = ''[REDACTED]''" by (simp add: v clean_value_def)
    then show ?thesis using clean_value_exposing [OF configured] unfolding v by blast
  qed
  then show "discreet D (make_envelope tenant version patterns event)"
    by (auto simp: discreet_def)
qed

subsection \<open>Well-formed envelopes\<close>

definition sound_envelope :: "envelope \<Rightarrow> bool" where
  "sound_envelope e =
     (SchemaVersion e = CurrentEnvelopeVersion \<and> TenantID e \<noteq> [] \<and> EventKey e = TenantID e @ '':'' @ EventID (Event e) \<and>
      EventID (Event e) \<noteq> [] \<and> length (EventID (Event e)) \<le> 256 \<and> Name (Event e) \<noteq> [] \<and> length (Name (Event e)) \<le> 512 \<and>
      length (TraceID (Event e)) \<le> 128 \<and> length (SpanID (Event e)) \<le> 128 \<and> length (ParentSpanID (Event e)) \<le> 128 \<and>
      Signal (Event e) \<in> {[], ''trace'', ''log''} \<and>
      (Signal (Event e) \<noteq> ''log'' \<longrightarrow> TraceID (Event e) \<noteq> [] \<and> SpanID (Event e) \<noteq> []) \<and>
      length (Attributes (Event e)) \<le> maxAttributes \<and>
      (\<forall>(k, v) \<in> set (Attributes (Event e)). k \<noteq> [] \<and> length k \<le> 256 \<and>
         (length v \<le> maxStringBytes \<or> attribute_path k \<in> set (RedactedPaths (Policy e)))))"

lemma length_put_all: "length (put_all new base) \<le> length new + length base"
proof (induction new base rule: put_all.induct)
  case (2 k v new base)
  then show ?case using length_update [of k v base] by (simp split: if_splits)
qed simp

lemma length_Sanitize: "length (fst (Sanitize attributes version patterns)) \<le> length attributes"
proof -
  let ?cleaned = "map (\<lambda>(k, v). (k, clean_value patterns k v)) attributes"
  have "length (put_all ?cleaned []) \<le> length ?cleaned + length ([] :: attrs)" by (rule length_put_all)
  then show ?thesis by (simp add: Sanitize_attributes)
qed

lemma valid_parts:
  assumes "valid event"
  shows "EventID event \<noteq> []" "length (EventID event) \<le> 256" "Name event \<noteq> []" "length (Name event) \<le> 512"
    "length (TraceID event) \<le> 128" "length (SpanID event) \<le> 128" "length (ParentSpanID event) \<le> 128"
    "Signal event \<in> {[], ''trace'', ''log''}" "Signal event \<noteq> ''log'' \<Longrightarrow> TraceID event \<noteq> [] \<and> SpanID event \<noteq> []"
    "length (Attributes event) \<le> maxAttributes"
    "\<And>k v. (k, v) \<in> set (Attributes event) \<Longrightarrow> k \<noteq> [] \<and> length k \<le> 256 \<and> length v \<le> maxStringBytes"
  using assms by (auto simp: valid_def list_all_iff split: if_splits)

text \<open>A value beyond the bound is one the sanitizer has rewritten, and the receipt names it.\<close>

lemma sanitized_bounds:
  assumes "valid event" and "(k, v) \<in> set (fst (Sanitize (Attributes event) version patterns))"
  shows "k \<noteq> [] \<and> length k \<le> 256 \<and>
    (length v \<le> maxStringBytes \<or> attribute_path k \<in> set (RedactedPaths (snd (Sanitize (Attributes event) version patterns))))"
  using assms(2)
proof (rule Sanitize_values)
  fix original assume original: "(k, original) \<in> set (Attributes event)" and v: "v = clean_value patterns k original"
  have "attribute_path k \<in> set (RedactedPaths (snd (Sanitize (Attributes event) version patterns)))"
    if "changes patterns k original"
    using original that by (force simp: Sanitize_receipt)
  moreover have "v = original" if "\<not> changes patterns k original" using that unchanged_clean_value v by metis
  ultimately show ?thesis using valid_parts(11) [OF assms(1) original] by auto
qed

interpretation soundness: envelope_law D sound_envelope for D
proof unfold_locales
  fix event and tenant version :: string and patterns
  assume "valid event" and "tenant \<noteq> []"
  let ?e = "make_envelope tenant version patterns event"
  have "length (fst (Sanitize (Attributes event) version patterns)) \<le> maxAttributes"
    using length_Sanitize valid_parts(10) [OF \<open>valid event\<close>] by (rule order_trans)
  then show "sound_envelope ?e"
    using valid_parts(1-9) [OF \<open>valid event\<close>] sanitized_bounds [OF \<open>valid event\<close>] \<open>tenant \<noteq> []\<close>
    unfolding sound_envelope_def by auto
qed

text \<open>
  C1. Secrets do not reach storage: start the platform with nothing buffered or published and an empty policy cache.
  Whatever requests, worker passes, deletions, policy changes, restarts and faults follow, in any order, every
  envelope that is buffered or waits in the outbox, and the envelope of every message in the Kafka topic, has each
  value of a sensitive key replaced by the redaction mark. A value holds an e-mail address only where an
  expression that the operators configured, for the deployment or for the tenant of the envelope, is one that exposes
  addresses: with no such expression there are none.
\<close>

theorem nothing_sensitive_stored:
  assumes "permutes_groups (VisitOrder D)" and "acknowledges K" and "fresh_platform K D p"
    and "(platform_step K D)\<^sup>*\<^sup>* p p'"
  shows "(\<forall>e \<in> kept_envelopes p'. discreet D e) \<and>
    (\<forall>m \<in> topic_messages K p'. \<exists>e. message_of K e m \<and> discreet D e)"
  by (rule discretion.platform_keeps [OF assms])

text \<open>A deployment for the examples: one tenant with a key, and a request that carries a secret.\<close>

definition first_deployment :: deployment where
  "first_deployment = \<lparr>GatewayCodecs = sample_codecs, HashText = \<lambda>_. 0, VisitOrder = \<lambda>groups. groups,
     Rank = \<lambda>_. 0, DefaultVersion = ''v1'', DeployedPatterns = [], PolicyRecord = []\<rparr>"

definition first_gate :: "pg cached_resolver" where
  "first_gate = \<lparr>source_state = first_session\<lparr>database := (database first_session)\<lparr>
       api_keys := [\<lparr>ak_tenant = ''tenant-a'', ak_hash = HashAPIKey ''k'', ak_disabled_at = None\<rparr>]\<rparr>\<rparr>,
     policies_of = \<lambda>_. None\<rparr>"

definition redacted_checkout :: envelope where
  "redacted_checkout = make_envelope ''tenant-a'' ''v1'' [] (checkout_event ''Bearer a'')"

abbreviation first_answer :: "http_response \<times> pg cached_resolver" where
  "first_answer \<equiv> ServeHTTP sample_codecs (pg_gateway first_deployment 0) ingest_request first_gate"

lemma first_gate_tenant: "on_source (Tenant ''k'') first_gate = (Inr (Some ''tenant-a''), first_gate)"
  by (simp add: on_source_def Tenant_def autocommit_quiet select_def first_gate_def first_session_def)

lemma first_gate_policy:
  "\<exists>c. policy (\<lambda>_. None) (pg_gateway first_deployment 0) ''tenant-a'' first_gate = (Inr (''v1'', []), c) \<and>
     source_state c = source_state first_gate"
  by (simp add: policy_def and_then_def pg_gateway_def first_deployment_def CachedRedactionPolicy_def first_gate_def
      RedactionPolicy_def autocommit_quiet select_def first_session_def latest_policy_def empty_db_def ordered_by_def
      settle_eq usable_answer_def cache_entry_def sample_codecs_def)

lemma first_stage:
  "map bf_envelope (tail_buffers (database (snd (StageBatch_pg (\<lambda>_. 0) (\<lambda>groups. groups) [redacted_checkout]
     (first_session\<lparr>database := (database first_session)\<lparr>api_keys := keys\<rparr>\<rparr>))))) = [redacted_checkout]"
  by code_simp

lemma first_stage_done:
  "fst (StageBatch_pg (\<lambda>_. 0) (\<lambda>groups. groups) [redacted_checkout]
     (first_session\<lparr>database := (database first_session)\<lparr>api_keys := keys\<rparr>\<rparr>)) = Inr ()"
  by code_simp

lemma first_key_paired: "map fst xs = k # ks \<Longrightarrow> \<exists>v. (k, v) \<in> set xs"
  by (cases xs) auto

lemma redacted_keys: "map fst (Attributes (Event redacted_checkout)) = [''authorization'', ''status'']"
  by code_simp

abbreviation first_staged :: pg where
  "first_staged \<equiv> snd (StageBatch_pg (\<lambda>_. 0) (\<lambda>groups. groups) [redacted_checkout] (source_state first_gate))"

lemma first_accept:
  "\<exists>c. acceptEvents (\<lambda>_. None) (pg_gateway first_deployment 0) ''tenant-a'' [checkout_event ''Bearer a''] first_gate = (Inr (), c) \<and>
     source_state c = first_staged"
proof -
  obtain c where c: "policy (\<lambda>_. None) (pg_gateway first_deployment 0) ''tenant-a'' first_gate = (Inr (''v1'', []), c)"
    "source_state c = source_state first_gate" using first_gate_policy by blast
  let ?stage = "StageBatch_pg (\<lambda>_. 0) (\<lambda>groups. groups) [redacted_checkout] (source_state first_gate)"
  have run: "acceptEvents (\<lambda>_. None) (pg_gateway first_deployment 0) ''tenant-a'' [checkout_event ''Bearer a''] first_gate
      = on_source (StageBatch_pg (\<lambda>_. 0) (\<lambda>groups. groups) [redacted_checkout]) c"
    using acceptEvents_run [OF c(1), of "[checkout_event ''Bearer a'']"]
    by (simp add: valid_checkout_event deliver_def pg_gateway_def first_deployment_def redacted_checkout_def)
  have "fst ?stage = Inr ()" unfolding first_gate_def cached_resolver.select_convs by (rule first_stage_done)
  then show ?thesis
    unfolding run by (auto simp: on_source_def c(2) Let_def split: prod.splits)
qed

lemma first_decoded:
  "decode_whole (DecodeEvent sample_codecs) (MaxBytesReader (Body ingest_request)) = Some (checkout_event ''Bearer a'')"
  by (simp add: sample_codecs_def decode_whole_def ingest_request_def MaxBytesReader_def ingest_bounds)

lemma first_request: "Method ingest_request = ''POST''" "Path ingest_request = ''/v1/ingest''" "APIKey ingest_request = ''k''"
  by (simp_all add: ingest_request_def)

lemma first_authenticated:
  "first_answer = serve_tenant sample_codecs (pg_gateway first_deployment 0) ingest_request ''tenant-a'' first_gate"
proof -
  have "Authenticator (pg_gateway first_deployment 0) = Some (\<lambda>key. on_source (Tenant key))"
    "(Stager (pg_gateway first_deployment 0) = None) = False"
    by (simp_all add: pg_gateway_def)
  then show ?thesis by (simp add: ServeHTTP_def first_request first_gate_tenant del: not_None_eq)
qed

lemma first_served:
  assumes "acceptEvents (\<lambda>_. None) (pg_gateway first_deployment 0) ''tenant-a'' [checkout_event ''Bearer a''] first_gate = (Inr (), c)"
  shows "serve_tenant sample_codecs (pg_gateway first_deployment 0) ingest_request ''tenant-a'' first_gate
    = (event_response (checkout_event ''Bearer a'') (Inr ()), c)"
proof -
  have "Compile sample_codecs = (\<lambda>_. None)" by (simp add: sample_codecs_def)
  then show ?thesis
    using assms valid_checkout_event [of "''Bearer a''"]
    by (simp add: serve_tenant_def first_request first_decoded acceptEvent_def)
qed

lemma first_run:
  "\<exists>c. first_answer = (event_response (checkout_event ''Bearer a'') (Inr ()), c) \<and> source_state c = first_staged"
proof (rule exE [OF first_accept], elim conjE)
  fix c assume c: "acceptEvents (\<lambda>_. None) (pg_gateway first_deployment 0) ''tenant-a'' [checkout_event ''Bearer a''] first_gate
      = (Inr (), c)" "source_state c = first_staged"
  show ?thesis
    by (rule exI [of _ c], rule conjI [OF trans [OF first_authenticated first_served [OF c(1)]] c(2)])
qed

lemma first_status: "Status (fst first_answer) = 202"
proof -
  have accepted: "Status (event_response (checkout_event ''Bearer a'') (Inr ())) = 202" by (simp add: Status_event_response)
  show ?thesis by (rule exE [OF first_run], elim conjE) (simp only: fst_conv accepted)
qed

lemma first_source: "source_state (snd first_answer) = first_staged"
  by (rule exE [OF first_run], elim conjE) (simp only: snd_conv)

lemma first_stored: "redacted_checkout \<in> stored (database (source_state (snd first_answer)))"
proof -
  have "map bf_envelope (tail_buffers (database first_staged)) = [redacted_checkout]"
    unfolding first_gate_def cached_resolver.select_convs by (rule first_stage)
  then have "redacted_checkout \<in> bf_envelope ` set (tail_buffers (database first_staged))" by (metis list.set_intros(1) set_map)
  then show ?thesis unfolding first_source stored_def by (rule UnI1)
qed

text \<open>The first steps of this deployment: the request, a pause, and a pass of the worker.\<close>

definition first_kafka :: "scripted_cluster kafka_publisher" where
  "first_kafka = scripted_kafka (\<lambda>e. if e = redacted_checkout then Some ''{}'' else None)"

definition first_platform :: "scripted_cluster platform" where
  "first_platform = \<lparr>gate = first_gate, cluster = empty_topic\<rparr>"

definition after_request :: "scripted_cluster platform" where
  "after_request = first_platform\<lparr>gate := snd first_answer\<rparr>"

definition after_pause :: "scripted_cluster platform" where
  "after_pause = after_request\<lparr>gate := (gate after_request)\<lparr>source_state := (first_staged)\<lparr>clock := 5000000\<rparr>\<rparr>\<rparr>"

definition first_pass :: "(go_error + unit) \<times> scripted_cluster tail_world" where
  "first_pass = runner_process (\<lambda>_. None) pg_source (broker_publish first_kafka) tailer (worker_view after_pause)"

definition after_pass :: "scripted_cluster platform" where
  "after_pass = after_worker after_pause (snd first_pass)"

lemma request_step: "platform_step first_kafka first_deployment first_platform after_request"
  unfolding after_request_def
  by (rule platform_step.http [of first_deployment 0 ingest_request first_platform "fst first_answer"])
    (simp add: first_deployment_def first_platform_def)

lemma first_steps: "(platform_step first_kafka first_deployment)\<^sup>*\<^sup>* first_platform after_request"
  using request_step ..

lemma staged_clock: "clock (snd (StageBatch_pg (\<lambda>_. 0) (\<lambda>groups. groups) [redacted_checkout]
     (first_session\<lparr>database := (database first_session)\<lparr>api_keys := keys\<rparr>\<rparr>))) = 0"
  by code_simp

lemma pause_step: "platform_step first_kafka first_deployment after_request after_pause"
  unfolding after_pause_def
proof (rule platform_step.other, rule upkeep.elsewhere)
  have "clock first_staged = 0" unfolding first_gate_def cached_resolver.select_convs by (rule staged_clock)
  then show "clock (source_state (gate after_request)) \<le> clock (first_staged\<lparr>clock := 5000000\<rparr>)"
    by (simp add: after_request_def first_source)
qed (simp add: after_request_def first_source)

lemma pass_publishes: "topic_log (tail_broker (snd (runner_process (\<lambda>_. None) pg_source (broker_publish first_kafka) tailer
     \<lparr>tail_pg = (snd (StageBatch_pg (\<lambda>_. 0) (\<lambda>groups. groups) [redacted_checkout]
        (first_session\<lparr>database := (database first_session)\<lparr>api_keys := keys\<rparr>\<rparr>)))\<lparr>clock := 5000000\<rparr>,
      tail_broker = empty_topic\<rparr>))) = [(''tenant-a:evt-1'', ''{}'')]"
  by code_simp

lemma first_published:
  "(platform_step first_kafka first_deployment)\<^sup>*\<^sup>* first_platform after_pass"
  "topic_messages first_kafka after_pass = {(''tenant-a:evt-1'', ''{}'')}"
proof -
  have "platform_step first_kafka first_deployment after_pause after_pass"
    unfolding after_pass_def
    by (rule platform_step.tail_pass [of "\<lambda>_. None" first_kafka tailer after_pause "fst first_pass"]) (simp add: first_pass_def)
  then show "(platform_step first_kafka first_deployment)\<^sup>*\<^sup>* first_platform after_pass"
    using request_step pause_step by (meson rtranclp.intros)
  have log: "topic_messages first_kafka (after_worker p w) = set (topic_log (tail_broker w))" for p w
    by (simp add: after_worker_def first_kafka_def scripted_kafka_def)
  have view: "worker_view after_pause = \<lparr>tail_pg = first_staged\<lparr>clock := 5000000\<rparr>, tail_broker = empty_topic\<rparr>"
    by (simp add: worker_view_def after_pause_def after_request_def first_platform_def)
  have "topic_log (tail_broker (snd first_pass)) = [(''tenant-a:evt-1'', ''{}'')]"
    unfolding first_pass_def view by (unfold first_gate_def cached_resolver.select_convs, rule pass_publishes)
  then show "topic_messages first_kafka after_pass = {(''tenant-a:evt-1'', ''{}'')}" by (simp add: after_pass_def log)
qed

lemma first_deployment_order: "permutes_groups (VisitOrder first_deployment)"
  by (simp add: first_deployment_def permutes_groups_def)

lemma first_acknowledges: "acknowledges first_kafka"
  unfolding first_kafka_def by (rule scripted_acknowledges)

lemma first_marshal: "Marshal first_kafka e = Some payload \<longleftrightarrow> e = redacted_checkout \<and> payload = ''{}''"
  by (auto simp: first_kafka_def scripted_kafka_def)

lemma first_platform_fresh: "fresh_platform first_kafka first_deployment first_platform"
  by (simp add: fresh_platform_def first_platform_def first_gate_def first_session_def tail_empty_def empty_db_def
      first_kafka_def scripted_kafka_def empty_topic_def)

lemmas first_run_of_platform = first_deployment_order first_acknowledges first_platform_fresh

lemma after_request_stored: "redacted_checkout \<in> kept_envelopes after_request"
  by (simp add: after_request_def first_stored)

lemma nothing_sensitive_stored_witness:
  "\<exists>v. redacted_checkout \<in> kept_envelopes after_request \<and>
     (''authorization'', v) \<in> set (Attributes (Event redacted_checkout)) \<and> v = ''[REDACTED]''"
proof -
  obtain v where v: "(''authorization'', v) \<in> set (Attributes (Event redacted_checkout))"
    using first_key_paired [OF redacted_keys] by (elim exE)
  from nothing_sensitive_stored [OF first_run_of_platform first_steps]
  have "discreet first_deployment redacted_checkout" using after_request_stored by blast
  then have "sensitiveKey ''authorization'' \<longrightarrow> v = ''[REDACTED]''" using v unfolding discreet_def by blast
  moreover have "sensitiveKey ''authorization''" by code_simp
  ultimately have "v = ''[REDACTED]''" by (rule mp)
  with after_request_stored v show ?thesis by (intro exI conjI)
qed

text \<open>
  An event is durable when PostgreSQL remembers its key under the tenant and what it remembers waits in the buffer of
  its trace, or the outcome of that trace is on record.
\<close>

definition durable :: "string \<Rightarrow> event list \<Rightarrow> db \<Rightarrow> bool" where
  "durable tenant events d =
     (\<forall>event \<in> set events. \<exists>k \<in> set (tail_event_keys d).
        ek_key k = tenant @ '':'' @ EventID event \<and>
        ((\<exists>b \<in> set (tail_buffers d). bf_key b = ek_key k \<and> in_trace (ek_tenant k) (ek_trace k) b) \<or>
         (\<exists>t \<in> set (tail_decisions d). decision_key t = (ek_tenant k, ek_trace k))))"

lemma accepted_durable:
  assumes "permutes_groups (VisitOrder D)" and ok: "store_ok (HashText D) (source_state c)"
    and "well_formed events"
    and accept: "acceptEvents (Compile (GatewayCodecs D)) (pg_gateway D now) tenant events c = (Inr (), c')"
  shows "durable tenant events (database (source_state c'))"
proof -
  let ?ok = "\<lambda>c. store_ok (HashText D) (source_state c)"
  obtain q c2 where q: "policy (Compile (GatewayCodecs D)) (pg_gateway D now) tenant c = (q, c2)" by fastforce
  have c2: "?ok c2"
    using keepsD [OF policy_keeps [OF store_ok_survives, of "HashText D" "Compile (GatewayCodecs D)" D now tenant] ok] q
    by simp
  obtain version patterns where vp: "q = Inr (version, patterns)"
    using accept acceptEvents_no_policy q by (cases q) (auto, fastforce)
  let ?es = "map (make_envelope tenant version patterns) events"
  have "on_source (StageBatch_pg (HashText D) (VisitOrder D) ?es) c2 = (Inr (), c')"
    using accept acceptEvents_run [OF q [unfolded vp], of events] assms(3)
    by (simp add: deliver_def pg_gateway_def well_formed_def)
  then obtain s where s: "StageBatch_pg (HashText D) (VisitOrder D) ?es (source_state c2) = (Inr (), s)" "source_state c' = s"
    by (auto elim: on_sourceE)
  have keys: "EventKey ` set ?es \<subseteq> ek_key ` set (tail_event_keys (database s))"
    using StageBatch_keys [OF c2 assms(1) s(1)] assms(3) by (auto simp: well_formed_def)
  have "store_ok (HashText D) s" using store_step_ok [OF store_step.stage [OF s(1)] c2] .
  then have kept: "(\<exists>b \<in> set (tail_buffers (database s)). bf_key b = ek_key k \<and> in_trace (ek_tenant k) (ek_trace k) b) \<or>
      (\<exists>t \<in> set (tail_decisions (database s)). decision_key t = (ek_tenant k, ek_trace k))"
    if "k \<in> set (tail_event_keys (database s))" for k
    using that unfolding store_ok_def tail_ok_def events_kept_def by blast
  have "\<exists>k \<in> set (tail_event_keys (database s)). ek_key k = tenant @ '':'' @ EventID event" if "event \<in> set events" for event
    using keys that by force
  then show ?thesis using kept unfolding durable_def s(2) by blast
qed

lemma exported_durable:
  assumes "permutes_groups (VisitOrder D)" and "store_ok (HashText D) (source_state c)"
    and "hands_on (GatewayCodecs D) (pg_gateway D now) tenant (Some events) m" and "m c = (Inr (), c')"
  shows "durable tenant events (database (source_state c'))"
  using hands_on_result [OF assms(3,4)] accepted_durable [OF assms(1,2)] by auto

lemma status_returned: "to_status m s = (Inr u, t) \<Longrightarrow> m s = (Inr (), t)"
  by (auto simp: to_status_def split: prod.splits sum.splits)

lemma grpc_returned:
  assumes "and_then (grpc_authenticate (\<lambda>key. on_source (Tenant key)) md) (\<lambda>tenant. to_status (m tenant)) c = (Inr u, c')"
    and "store_ok hashtext (source_state c)"
  obtains tenant c1 where "fst (Tenant (firstMetadata md ''x-paop-api-key'') (source_state c)) = Inr (Some tenant)"
    "m tenant c1 = (Inr (), c')" "store_ok hashtext (source_state c1)"
proof -
  let ?auth = "on_source (Tenant (firstMetadata md ''x-paop-api-key''))"
  obtain tenant c1 where auth: "?auth c = (Inr (Some tenant), c1)" and run: "to_status (m tenant) c1 = (Inr u, c')"
    using assms(1) by (auto simp: and_then_def grpc_authenticate_def split: prod.splits sum.splits option.splits)
  have "store_ok hashtext (source_state c1)"
    using keepsD [OF on_source_keeps [OF Tenant_keeps [OF store_ok_survives]] assms(2), of "firstMetadata md ''x-paop-api-key''"] auth
    by simp
  moreover have "fst (Tenant (firstMetadata md ''x-paop-api-key'') (source_state c)) = Inr (Some tenant)"
    using auth by (auto elim: on_sourceE)
  ultimately show thesis using that status_returned [OF run] by blast
qed



text \<open>
  C5. Envelopes are well-formed everywhere: each one that is buffered or waits in the outbox, and the envelope of every
  message in the topic, has the current schema version, a tenant, the event key made from tenant and event id, a known
  signal with the ids it needs, and keeps the bounds of the gateway: event id at most 256 bytes, name 512, trace, span
  and parent ids 128, at most 64 attributes with keys of 1 to 256 bytes and values of at most 4096. Only a value that the
  sanitizer rewrote may be longer, and then the receipt of the envelope names its key.
\<close>

theorem envelopes_well_formed:
  assumes "permutes_groups (VisitOrder D)" and "acknowledges K" and "fresh_platform K D p"
    and "(platform_step K D)\<^sup>*\<^sup>* p p'"
  shows "(\<forall>e \<in> kept_envelopes p'. sound_envelope e) \<and>
    (\<forall>m \<in> topic_messages K p'. \<exists>e. message_of K e m \<and> sound_envelope e)"
  by (rule soundness.platform_keeps [OF assms])

lemma envelopes_well_formed_witness:
  "EventKey redacted_checkout = TenantID redacted_checkout @ '':'' @ EventID (Event redacted_checkout)"
proof -
  from envelopes_well_formed [OF first_run_of_platform first_steps]
  have "sound_envelope redacted_checkout" using after_request_stored by blast
  then show ?thesis unfolding sound_envelope_def by (elim conjE)
qed

subsection \<open>From the topic to the consumer\<close>

text \<open>
  C10. What is published is consumed: no message that the platform has put into the topic ends as a dead letter. It is
  what the publisher writes for an envelope, under its event key; and if a JSON text that an envelope is encoded to
  decodes to this envelope again, the consumer claims, stores and settles exactly it before it commits the message.
\<close>

theorem published_is_consumed:
  assumes "permutes_groups (VisitOrder D)" and "acknowledges K" and "fresh_platform K D p"
    and "(platform_step K D)\<^sup>*\<^sup>* p p'" and "(key, MessageValue message) \<in> topic_messages K p'"
    and "\<forall>e. Marshal K e = Some (MessageValue message) \<longrightarrow> decode (MessageValue message) = (True, e)"
  shows "\<exists>e. key = EventKey e \<and> kafka_Publish K e = WriteMessages K key (MessageValue message) \<and>
    handle_message decode c message = and_then (consumer_process c e) (\<lambda>_. CommitMessages c message)"
proof -
  obtain e where m: "message_of K e (key, MessageValue message)" and "sound_envelope e"
    using soundness.platform_keeps [OF assms(1-4)] assms(5) by blast
  then have e: "SchemaVersion e = CurrentEnvelopeVersion" "TenantID e \<noteq> []" "EventKey e \<noteq> []"
    by (simp_all add: sound_envelope_def)
  then have "supportedEnvelopeVersion (SchemaVersion e) = (CurrentEnvelopeVersion, True)"
    by (simp add: supportedEnvelopeVersion_def CurrentEnvelopeVersion_def)
  moreover have "e\<lparr>SchemaVersion := CurrentEnvelopeVersion\<rparr> = e" using e(1) by (metis envelope.surjective envelope.update_convs(1) envelope.select_convs(1))
  moreover have "decode (MessageValue message) = (True, e)" using assms(6) m by (simp add: message_of_def)
  ultimately have "handle_message decode c message = and_then (consumer_process c e) (\<lambda>_. CommitMessages c message)"
    using e(2,3) by (simp add: handle_message_def)
  moreover have "key = EventKey e" "kafka_Publish K e = WriteMessages K key (MessageValue message)"
    using m by (simp_all add: message_of_def kafka_Publish_def)
  ultimately show ?thesis by blast
qed

abbreviation first_message :: broker_message where
  "first_message \<equiv> \<lparr>MessageValue = ''{}'', MessagePartition = 0, MessageOffset = 0\<rparr>"

lemma first_message_published: "(''tenant-a:evt-1'', MessageValue first_message) \<in> topic_messages first_kafka after_pass"
  by (simp add: first_published(2))

lemma first_message_decodes:
  "\<forall>e. Marshal first_kafka e = Some (MessageValue first_message) \<longrightarrow>
     (\<lambda>_. (True, redacted_checkout)) (MessageValue first_message) = (True, e)"
  by (simp add: first_marshal)

lemma published_is_consumed_witness:
  "\<exists>e. ''tenant-a:evt-1'' = EventKey e \<and>
     kafka_Publish first_kafka e = WriteMessages first_kafka ''tenant-a:evt-1'' ''{}'' \<and>
     handle_message (\<lambda>_. (True, redacted_checkout)) recording_consumer first_message
       = and_then (consumer_process recording_consumer e) (\<lambda>_. CommitMessages recording_consumer first_message)"
  using published_is_consumed [OF first_run_of_platform first_published(1) first_message_published first_message_decodes]
  unfolding broker_message.select_convs .

definition discreet_insert :: "deployment \<Rightarrow> ch_codecs \<Rightarrow> ch_request \<Rightarrow> bool" where
  "discreet_insert D codecs q =
     (\<exists>t e. discreet D e \<and> ChBody q = MarshalRow codecs (row_of codecs t e) @ [CHR 0x0A])"

text \<open>
  C9. Only sanitized rows reach ClickHouse: when the consumer handles a message of the topic, whose JSON text decodes to the
  envelope it encodes, all it does depends on ClickHouse only through inserts of rows in which every value of a
  sensitive key is redacted, and which hold an e-mail address only where an expression configured for the tenant
  exposes addresses. Two servers that answer those alike cannot be told apart.
\<close>

theorem clickhouse_gets_sanitized:
  assumes "permutes_groups (VisitOrder D)" and "acknowledges K" and "fresh_platform K D p"
    and "(platform_step K D)\<^sup>*\<^sup>* p p'" and "(key, MessageValue message) \<in> topic_messages K p'"
    and "\<forall>e. Marshal K e = Some (MessageValue message) \<longrightarrow> decode (MessageValue message) = (True, e)"
    and "\<forall>q. discreet_insert D codecs q \<longrightarrow> send1 q = send2 q"
  shows "handle_message decode (pg_consumer codecs send1 endpoint fetch commit) message
    = handle_message decode (pg_consumer codecs send2 endpoint fetch commit) message"
proof -
  obtain e where "message_of K e (key, MessageValue message)" and e: "discreet D e"
    using discretion.platform_keeps [OF assms(1-4)] assms(5) by blast
  then have decoded: "decode (MessageValue message) = (True, e)" using assms(6) by (simp add: message_of_def)
  have "discreet D (e\<lparr>SchemaVersion := v\<rparr>)" for v using e by (simp add: discreet_def)
  then have "send1 q = send2 q" if "ChBody q = MarshalRow codecs (row_of codecs t (e\<lparr>SchemaVersion := v\<rparr>)) @ [CHR 0x0A]" for q t v
    using assms(7) that unfolding discreet_insert_def by blast
  then have "Persist codecs send1 endpoint t (e\<lparr>SchemaVersion := v\<rparr>) = Persist codecs send2 endpoint t (e\<lparr>SchemaVersion := v\<rparr>)" for t v
    by (auto simp: Persist_def do_request_def Let_def split: option.split)
  then have sink: "SinkPersist (pg_consumer codecs send1 endpoint fetch commit) (e\<lparr>SchemaVersion := v\<rparr>)
      = SinkPersist (pg_consumer codecs send2 endpoint fetch commit) (e\<lparr>SchemaVersion := v\<rparr>)" for v
    by (simp add: pg_consumer_def)
  have parts: "LedgerClaim (pg_consumer codecs send1 endpoint fetch commit) = LedgerClaim (pg_consumer codecs send2 endpoint fetch commit)"
    "LedgerMark (pg_consumer codecs send1 endpoint fetch commit) = LedgerMark (pg_consumer codecs send2 endpoint fetch commit)"
    "CommitMessages (pg_consumer codecs send1 endpoint fetch commit) = CommitMessages (pg_consumer codecs send2 endpoint fetch commit)"
    "DeadLetters (pg_consumer codecs send1 endpoint fetch commit) = DeadLetters (pg_consumer codecs send2 endpoint fetch commit)"
    by (simp_all add: pg_consumer_def)
  then have "consumer_process (pg_consumer codecs send1 endpoint fetch commit) (e\<lparr>SchemaVersion := v\<rparr>)
      = consumer_process (pg_consumer codecs send2 endpoint fetch commit) (e\<lparr>SchemaVersion := v\<rparr>)" for v
    unfolding consumer_process_def sink by (simp only: parts)
  then show ?thesis
    unfolding handle_message_def decoded Let_def prod.case deadLetter_def parts by (simp only: split_beta)
qed

lemma clickhouse_gets_sanitized_witness:
  "handle_message (\<lambda>_. (True, redacted_checkout)) recording_consumer first_message
   = handle_message (\<lambda>_. (True, redacted_checkout))
       (pg_consumer key_codecs (\<lambda>q. if discreet_insert first_deployment key_codecs q then record_send q else fail_with Unavailable)
         ''http://clickhouse:8123'' next_message (\<lambda>_. ret ())) first_message"
proof -
  let ?send = "\<lambda>q. if discreet_insert first_deployment key_codecs q then record_send q else fail_with Unavailable"
  have "\<forall>q. discreet_insert first_deployment key_codecs q \<longrightarrow> record_send q = ?send q" by simp
  from clickhouse_gets_sanitized [OF first_run_of_platform first_published(1) first_message_published first_message_decodes this]
  show ?thesis .
qed

end
