(* ===== verification/Spec2Isabelle.thy ===== *)
theory Spec2Isabelle
  imports GatewayHttp Migrations Synthetic Platform
begin

text \<open>
  A verification development of the privacy-aware observability platform. Tenants send OTLP traces and logs to a
  gateway (\<^verbatim>\<open>cmd/gateway\<close>), which authenticates them, removes secrets, and stages the events in PostgreSQL. A tail
  worker (\<^verbatim>\<open>cmd/tailer\<close>) decides quiet traces and publishes what they retain to a Kafka-compatible topic. A consumer
  (\<^verbatim>\<open>cmd/persist\<close>) moves it to ClickHouse under a delivery ledger, and a query API (\<^verbatim>\<open>cmd/query\<close>) serves it. Jobs
  expire, audit and migrate the data.

  The model follows the Go code function by function, and keeps its names. Structures are records; interfaces are
  records of programs. A program takes a state and returns an error or a value with the new state (theory
  \<^verbatim>\<open>Prelude\<close>), so a failed call keeps what it changed. Every error return is a branch, and a Go panic is an error of its own.
  Strings are lists of bytes; a Go map is an association list with distinct keys; fixed-width integers that wrap are
  machine words.

  \<^bold>\<open>The theories.\<close>

  \<^item> \<^verbatim>\<open>Prelude\<close>, \<^verbatim>\<open>GoText\<close>, \<^verbatim>\<open>Hashes\<close>, \<^verbatim>\<open>Regex\<close>: programs with a Hoare logic for them (collection \<^verbatim>\<open>hoare_rules\<close>), Go maps,
    the string functions of the standard library, SHA-256 and FNV-1a, and leftmost-first regular expressions.
  \<^item> \<^verbatim>\<open>Redaction\<close> (\<^verbatim>\<open>internal/redaction\<close>): \<^verbatim>\<open>Sanitize\<close>. No value of a sensitive key is kept, and no e-mail address
    but one that a tenant expression, which runs after the search for addresses, puts together.
  \<^item> \<^verbatim>\<open>Ingest\<close>, \<^verbatim>\<open>PolicyCache\<close>, \<^verbatim>\<open>Otlp\<close>, \<^verbatim>\<open>GatewayHttp\<close> (\<^verbatim>\<open>internal/ingest\<close>): validation, envelopes, redaction policies and
    their cache, also with interleaved calls, the JSON and protobuf adapters, the HTTP handler and the gRPC services.
    A request is accepted whole or not at all, and its secrets influence nothing behind the gateway.
  \<^item> \<^verbatim>\<open>Sampling\<close> (\<^verbatim>\<open>internal/sampling\<close>): the batch decision and the bounded streaming sampler, which refines it.
  \<^item> \<^verbatim>\<open>Postgres\<close>, \<^verbatim>\<open>Metadata\<close> (\<^verbatim>\<open>db/migrations\<close>, \<^verbatim>\<open>internal/metadata/store.go\<close>): the tables with their constraints, statements,
    transactions, and keys, policies, ledger, dead letters and audit log over them. A session has a script of
    \<^emph>\<open>ticks\<close>: what becomes of each call to the server (done, refused, done but not acknowledged), how long it took,
    and which rows others hold locked. Theorems hold for every script.
  \<^item> \<^verbatim>\<open>TailStore\<close>, \<^verbatim>\<open>TailInvariants\<close>, \<^verbatim>\<open>TailStaging\<close>, \<^verbatim>\<open>TailLifecycle\<close>, \<^verbatim>\<open>TailRuns\<close>, \<^verbatim>\<open>TailGuarantees\<close>
    (\<^verbatim>\<open>internal/metadata/tail.go\<close>): the durable tail buffer, its invariant, which every operation keeps, the steps of the
    store with the states they reach, and what holds in these: bounds, no silent loss, decisions that match traces,
    tenants apart from each other.
  \<^item> \<^verbatim>\<open>Broker\<close>, \<^verbatim>\<open>TailRunner\<close> (\<^verbatim>\<open>internal/broker\<close>, \<^verbatim>\<open>internal/tail\<close>): the Kafka publisher, and the worker on PostgreSQL and
    this publisher. It publishes before it marks, and never samples an error away.
  \<^item> \<^verbatim>\<open>ClickHouse\<close>, \<^verbatim>\<open>Consumer\<close> (\<^verbatim>\<open>internal/telemetry\<close>): every request to ClickHouse and the consumer loop. The requests of a
    tenant carry the tenant as a bound parameter; what the ledger calls persisted is stored.
  \<^item> \<^verbatim>\<open>QueryApi\<close> (\<^verbatim>\<open>internal/query\<close>), \<^verbatim>\<open>Observe\<close> (\<^verbatim>\<open>internal/observe\<close>): the read and deletion routes, and the request
    counters with their exposition.
  \<^item> \<^verbatim>\<open>Services\<close>, \<^verbatim>\<open>Jobs\<close>, \<^verbatim>\<open>Migrations\<close>, \<^verbatim>\<open>Synthetic\<close> (\<^verbatim>\<open>cmd\<close>, \<^verbatim>\<open>internal/synthetic\<close>): CORS, configuration and error classes; retention,
    broker audit, key bootstrap and the pressure tool; the two migration tools; the demo traffic and load generator.
  \<^item> \<^verbatim>\<open>EnvelopeLaws\<close>, \<^verbatim>\<open>Platform\<close>: the programs together. The steps of the platform are a request to any front end of the
    gateway as \<^verbatim>\<open>cmd/gateway\<close> deploys it, a pass of the worker, any other use of the database, changes of the
    redaction policies by operators, restarts of the gateway, and losses in Kafka. The expressions used on the events of
    a tenant are always \<^emph>\<open>configured\<close> ones, of the deployment or on record for the tenant, also through the policy cache. A
    law of envelopes that the gateway establishes from such expressions holds of every envelope in the buffers and the
    outbox and of the envelope of every message in the topic, after any steps; it is proved once, in the locale
    \<^verbatim>\<open>envelope_law\<close>, and used for two laws.

  \<^bold>\<open>Interfaces.\<close> Where a component relies on another, the laws it needs are a locale, and the model of the provider
  interprets it: the policy source (the cache over the store), the delivery ledger and the surroundings of the consumer
  (PostgreSQL, a recording ClickHouse), the outbox of the worker (PostgreSQL with the Kafka publisher), the
  stores of the query API, and the envelope laws.

  \<^bold>\<open>Fuel and bounds.\<close> Loops over data are structural recursions. The loops that never end by themselves are given what
  wakes them: \<^verbatim>\<open>Run\<close> of the tail worker a list of wake-ups, that of the consumer a number of messages, the ClickHouse
  migration the number of attempts before its deadline; the theorems hold for every such list or number. The pacing
  loop of the load generator is a partial function, and is proved to end.

  \<^bold>\<open>Parameters.\<close> Code that is not in the repository is an argument: JSON, protobuf and media type decoding, compiled
  tenant expressions, URL parsing and formatting of times, PostgreSQL's \<^verbatim>\<open>hashtext\<close> and collation, the order in which
  Go ranges over a map, HTTP transports, the Kafka reader and writer, random bytes, floating point arithmetic. What a
  theorem needs of one is a hypothesis of the theorem: that the Kafka writer adds what it is given when it returns without an
  error and nothing else (\<^verbatim>\<open>acknowledges\<close>), that ClickHouse appends inserted rows and answers the trace statement with the
  rows of the bound tenant and trace (\<^verbatim>\<open>clickhouse_table\<close>), that Go ranges over each entry of a map once
  (\<^verbatim>\<open>permutes_groups\<close>), and that a JSON text decodes to what was encoded. \<^verbatim>\<open>MemoryPublisher\<close>, which only tests use, is the
  publisher of the examples of the gateway.

  \<^bold>\<open>Not modelled.\<close> The \<^verbatim>\<open>main\<close> functions beyond the parts named above (flags, listeners, signals, timeouts, logging), the
  configuration of the Kafka client, the goroutines, clock and report of the load generator, registration of the gRPC services,
  and everything that is not Go: the console, the demo gateway, charts, dashboards and scripts. Statements of one
  transaction are atomic towards others except for the locks they take, which are those the code asks for.
\<close>

end
